(* ===== verification/Cb_Prelude.thy ===== *)
theory Cb_Prelude
  imports Complex_Main "HOL-Library.Sublist"
begin

text \<open>
  The prelude: computations with state and exceptions, their Hoare triples, and
  the generic list, option and string lemmas the components share.

  A Python coroutine is a function from the state of the process and its
  surroundings to a raised exception or a returned value, together with the
  state it leaves behind.  The combinators are named after what they stand for
  in the source: \<open>ret\<close> for \<open>return\<close>, \<open>raise\<close> for \<open>raise\<close>, \<open>bindM\<close>
  for sequencing, \<open>catchM\<close> for \<open>try/except\<close>.
\<close>

named_theorems prog_simps
  \<open>equations that run a computation on a state\<close>

named_theorems wp
  \<open>introduction rules for Hoare triples\<close>

section \<open>Computations with state and exceptions\<close>

type_synonym ('s, 'e, 'a) prog = "'s \<Rightarrow> ('e + 'a) \<times> 's"

definition ret :: "'a \<Rightarrow> ('s, 'e, 'a) prog" where
  "ret x = (\<lambda>s. (Inr x, s))"

definition raise :: "'e \<Rightarrow> ('s, 'e, 'a) prog" where
  "raise e = (\<lambda>s. (Inl e, s))"

definition bindM :: "('s, 'e, 'a) prog \<Rightarrow> ('a \<Rightarrow> ('s, 'e, 'b) prog) \<Rightarrow> ('s, 'e, 'b) prog" where
  "bindM m f = (\<lambda>s. case m s of (Inl e, s') \<Rightarrow> (Inl e, s') | (Inr x, s') \<Rightarrow> f x s')"

definition catchM :: "('s, 'e, 'a) prog \<Rightarrow> ('e \<Rightarrow> ('s, 'e, 'a) prog) \<Rightarrow> ('s, 'e, 'a) prog" where
  "catchM m h = (\<lambda>s. case m s of (Inl e, s') \<Rightarrow> h e s' | (Inr x, s') \<Rightarrow> (Inr x, s'))"

definition getM :: "('s \<Rightarrow> 'a) \<Rightarrow> ('s, 'e, 'a) prog" where
  "getM f = (\<lambda>s. (Inr (f s), s))"

definition modM :: "('s \<Rightarrow> 's) \<Rightarrow> ('s, 'e, unit) prog" where
  "modM f = (\<lambda>s. (Inr (), f s))"

definition liftE :: "'e + 'a \<Rightarrow> ('s, 'e, 'a) prog" where
  "liftE r = (\<lambda>s. (r, s))"

lemma ret_run [simp, prog_simps]: "ret x s = (Inr x, s)"
  by (simp add: ret_def)

lemma raise_run [simp, prog_simps]: "raise e s = (Inl e, s)"
  by (simp add: raise_def)

lemma getM_run [simp, prog_simps]: "getM f s = (Inr (f s), s)"
  by (simp add: getM_def)

lemma modM_run [simp, prog_simps]: "modM f s = (Inr (), f s)"
  by (simp add: modM_def)

lemma liftE_run [simp, prog_simps]: "liftE r s = (r, s)"
  by (simp add: liftE_def)

lemma bindM_Inl [simp, prog_simps]: "m s = (Inl e, s') \<Longrightarrow> bindM m f s = (Inl e, s')"
  by (simp add: bindM_def)

lemma bindM_Inr [simp, prog_simps]: "m s = (Inr x, s') \<Longrightarrow> bindM m f s = f x s'"
  by (simp add: bindM_def)

lemma catchM_Inl [simp, prog_simps]: "m s = (Inl e, s') \<Longrightarrow> catchM m h s = h e s'"
  by (simp add: catchM_def)

lemma catchM_Inr [simp, prog_simps]: "m s = (Inr x, s') \<Longrightarrow> catchM m h s = (Inr x, s')"
  by (simp add: catchM_def)

lemma bindM_ret_left: "bindM (ret x) f = f x"
  by (rule ext) (simp add: bindM_def)

lemma bindM_assoc: "bindM (bindM m f) g = bindM m (\<lambda>x. bindM (f x) g)"
  by (rule ext) (simp add: bindM_def split: prod.splits sum.splits)

lemma bindM_cong [fundef_cong]:
  assumes "m s = m' s'" and "s = s'"
    and "\<And>x t. m' s' = (Inr x, t) \<Longrightarrow> f x t = g x t"
  shows "bindM m f s = bindM m' g s'"
  using assms by (auto simp: bindM_def split: prod.splits sum.splits)

section \<open>Hoare triples\<close>

text \<open>
  \<open>triple P m Q E\<close>: from every state in \<open>P\<close> the computation \<open>m\<close> either
  returns a value and a state in \<open>Q\<close> or raises an exception in a state in
  \<open>E\<close>.  Computations are total functions, so the triple is total correctness.
\<close>

definition triple ::
  "('s \<Rightarrow> bool) \<Rightarrow> ('s, 'e, 'a) prog \<Rightarrow> ('a \<Rightarrow> 's \<Rightarrow> bool) \<Rightarrow> ('e \<Rightarrow> 's \<Rightarrow> bool) \<Rightarrow> bool" where
  "triple P m Q E \<longleftrightarrow>
     (\<forall>s. P s \<longrightarrow> (case m s of (Inr x, s') \<Rightarrow> Q x s' | (Inl e, s') \<Rightarrow> E e s'))"

text \<open>An invariant is a triple with the same predicate on every exit.\<close>

abbreviation keeps :: "('s \<Rightarrow> bool) \<Rightarrow> ('s, 'e, 'a) prog \<Rightarrow> bool" where
  "keeps I m \<equiv> triple I m (\<lambda>_. I) (\<lambda>_. I)"

lemma tripleI:
  assumes "\<And>s x s'. P s \<Longrightarrow> m s = (Inr x, s') \<Longrightarrow> Q x s'"
    and "\<And>s e s'. P s \<Longrightarrow> m s = (Inl e, s') \<Longrightarrow> E e s'"
  shows "triple P m Q E"
  using assms by (auto simp: triple_def split: prod.splits sum.splits)

lemma tripleD_Inr: "triple P m Q E \<Longrightarrow> P s \<Longrightarrow> m s = (Inr x, s') \<Longrightarrow> Q x s'"
  by (fastforce simp: triple_def)

lemma tripleD_Inl: "triple P m Q E \<Longrightarrow> P s \<Longrightarrow> m s = (Inl e, s') \<Longrightarrow> E e s'"
  by (fastforce simp: triple_def)

lemma keepsD: "keeps I m \<Longrightarrow> I s \<Longrightarrow> I (snd (m s))"
  by (cases "m s"; cases "fst (m s)") (auto simp: triple_def)

lemma keepsI: "(\<And>s. I s \<Longrightarrow> I (snd (m s))) \<Longrightarrow> keeps I m"
  by (rule tripleI) (metis snd_conv)+

lemma triple_conseq:
  assumes "triple P m Q E"
    and "\<And>s. P' s \<Longrightarrow> P s"
    and "\<And>x s. Q x s \<Longrightarrow> Q' x s"
    and "\<And>e s. E e s \<Longrightarrow> E' e s"
  shows "triple P' m Q' E'"
  using assms by (fastforce simp: triple_def split: prod.splits sum.splits)

lemma triple_ret [wp]: "(\<And>s. P s \<Longrightarrow> Q x s) \<Longrightarrow> triple P (ret x) Q E"
  by (simp add: triple_def)

lemma triple_raise [wp]: "(\<And>s. P s \<Longrightarrow> E e s) \<Longrightarrow> triple P (raise e) Q E"
  by (simp add: triple_def)

lemma triple_getM [wp]: "(\<And>s. P s \<Longrightarrow> Q (f s) s) \<Longrightarrow> triple P (getM f) Q E"
  by (simp add: triple_def)

lemma triple_modM [wp]: "(\<And>s. P s \<Longrightarrow> Q () (f s)) \<Longrightarrow> triple P (modM f) Q E"
  by (simp add: triple_def)

lemma triple_liftE [wp]:
  assumes "\<And>s x. P s \<Longrightarrow> r = Inr x \<Longrightarrow> Q x s" and "\<And>s e. P s \<Longrightarrow> r = Inl e \<Longrightarrow> E e s"
  shows "triple P (liftE r) Q E"
  using assms by (cases r) (auto simp: triple_def)

lemma triple_bindM:
  assumes "triple P m R E" and "\<And>x. triple (R x) (f x) Q E"
  shows "triple P (bindM m f) Q E"
  using assms by (fastforce simp: triple_def bindM_def split: prod.splits sum.splits)

lemma triple_catchM:
  assumes "triple P m Q R" and "\<And>e. triple (R e) (h e) Q E"
  shows "triple P (catchM m h) Q E"
  using assms by (fastforce simp: triple_def catchM_def split: prod.splits sum.splits)

lemma triple_lift_bind:
  assumes "\<And>s. P s \<Longrightarrow> E s" and "\<And>x. r = Inr x \<Longrightarrow> triple P (f x) Q (\<lambda>_. E)"
  shows "triple P (bindM (liftE r) f) Q (\<lambda>_. E)"
  using assms by (cases r) (auto simp: triple_def bindM_def)

lemma triple_if [wp]:
  assumes "b \<Longrightarrow> triple P m Q E" and "\<not> b \<Longrightarrow> triple P m' Q E"
  shows "triple P (if b then m else m') Q E"
  using assms by simp

lemma triple_case_option [wp]:
  assumes "v = None \<Longrightarrow> triple P m Q E" and "\<And>x. v = Some x \<Longrightarrow> triple P (m' x) Q E"
  shows "triple P (case v of None \<Rightarrow> m | Some x \<Rightarrow> m' x) Q E"
  using assms by (cases v) auto

lemma triple_case_sum [wp]:
  assumes "\<And>x. v = Inl x \<Longrightarrow> triple P (m x) Q E" and "\<And>x. v = Inr x \<Longrightarrow> triple P (m' x) Q E"
  shows "triple P (case v of Inl x \<Rightarrow> m x | Inr x \<Rightarrow> m' x) Q E"
  using assms by (cases v) auto

lemma triple_case_prod [wp]:
  assumes "\<And>x y. v = (x, y) \<Longrightarrow> triple P (m x y) Q E"
  shows "triple P (case v of (x, y) \<Rightarrow> m x y) Q E"
  using assms by (cases v) auto

lemma keeps_bindM [wp]: "keeps I m \<Longrightarrow> (\<And>x. keeps I (f x)) \<Longrightarrow> keeps I (bindM m f)"
  by (rule triple_bindM)

lemma keeps_weaken: "keeps I m \<Longrightarrow> (\<And>s. I s \<Longrightarrow> E s) \<Longrightarrow> triple I m (\<lambda>_. I) (\<lambda>_. E)"
  by (rule triple_conseq)

lemma triple_pre: "triple P m Q E \<Longrightarrow> (\<And>s. P' s \<Longrightarrow> P s) \<Longrightarrow> triple P' m Q E"
  by (rule triple_conseq)

lemma triple_conj: "triple P m Q E \<Longrightarrow> triple P' m Q' E' \<Longrightarrow>
   triple (\<lambda>s. P s \<and> P' s) m (\<lambda>x s. Q x s \<and> Q' x s) (\<lambda>e s. E e s \<and> E' e s)"
  by (auto simp: triple_def split: prod.splits sum.splits)

lemma triple_result: "(\<And>s x s'. m s = (Inr x, s') \<Longrightarrow> Q x) \<Longrightarrow> triple (\<lambda>_. True) m (\<lambda>x _. Q x) (\<lambda>_ _. True)"
  by (rule tripleI) auto

lemma triple_fact: "(b \<Longrightarrow> triple P m Q E) \<Longrightarrow> triple (\<lambda>w. P w \<and> b) m Q E"
  by (cases b) (auto simp: triple_def)

lemma triple_any: "triple P m (\<lambda>_ _. True) (\<lambda>_ _. True)"
  by (rule tripleI) simp_all

lemma keeps_catchM [wp]: "keeps I m \<Longrightarrow> (\<And>e. keeps I (h e)) \<Longrightarrow> keeps I (catchM m h)"
  by (rule triple_catchM)

section \<open>Lists and options\<close>

lemma filter_eq_singletonD: "filter P xs = [x] \<Longrightarrow> x \<in> set xs \<and> P x"
  by (metis filter_eq_ConsD in_set_conv_decomp)

lemma distinct_map_filter_le_1:
  assumes "distinct (map f xs)"
  shows "length (filter (\<lambda>x. f x = k) xs) \<le> 1"
  using assms by (induction xs) (auto simp: filter_empty_conv image_iff)

lemma find_Some_in: "List.find P xs = Some x \<Longrightarrow> x \<in> set xs \<and> P x"
  by (auto simp: find_Some_iff)

lemma not_in_prefix_neq: "take n xs \<noteq> take n ys \<Longrightarrow> xs \<noteq> ys"
  by auto

lemma append_prefix_neq:
  assumes "length p = length q" and "p \<noteq> q"
  shows "p @ xs \<noteq> q @ ys"
  using assms by simp

end
