(* ===== verification/Py_Base.thy ===== *)
theory Py_Base
  imports Cb_Prelude "HOL-Library.Word"
begin

text \<open>
  The parts of Python's built-in types and standard library the source uses:
  decimal and hexadecimal integers, \<open>str.replace\<close>, \<open>str.split\<close>,
  \<open>str.strip\<close>, \<open>repr\<close>, UTF-8 and \<open>uuid.UUID\<close>.

  A Python \<open>str\<close> and a Python \<open>bytes\<close> are both a list of \<open>char\<close>: a
  \<open>str\<close> is represented by its UTF-8 encoding, so \<open>str.encode\<close> is the identity,
  \<open>bytes.decode\<close> is the identity on valid UTF-8 and fails elsewhere, and
  \<open>len\<close> of a \<open>str\<close> counts the bytes that start a code point.
\<close>

type_synonym bytes = "char list"
type_synonym uuid = "128 word"

abbreviation code :: "char \<Rightarrow> nat" where
  "code c \<equiv> of_char c"

section \<open>Decimal and hexadecimal numbers\<close>

definition dec_digit :: "nat \<Rightarrow> char" where
  "dec_digit n = char_of (48 + n)"

fun dec_nat :: "nat \<Rightarrow> string" where
  "dec_nat n = (if n < 10 then [dec_digit n] else dec_nat (n div 10) @ [dec_digit (n mod 10)])"

declare dec_nat.simps [simp del]

definition py_str_int :: "int \<Rightarrow> string" where
  "py_str_int i = (if i < 0 then CHR ''-'' # dec_nat (nat (- i)) else dec_nat (nat i))"

definition hex_digit :: "nat \<Rightarrow> char" where
  "hex_digit n = (if n < 10 then char_of (48 + n) else char_of (87 + n))"

text \<open>\<open>'%0kx' % n\<close> for \<open>n < 16 ^ k\<close>.\<close>

fun hex_fixed :: "nat \<Rightarrow> nat \<Rightarrow> string" where
  "hex_fixed 0 n = []"
| "hex_fixed (Suc k) n = hex_fixed k (n div 16) @ [hex_digit (n mod 16)]"

definition digit_val :: "nat \<Rightarrow> char \<Rightarrow> nat option" where
  "digit_val b c =
     (let n = code c;
          v = (if 48 \<le> n \<and> n \<le> 57 then n - 48
               else if 97 \<le> n \<and> n \<le> 122 then n - 87
               else if 65 \<le> n \<and> n \<le> 90 then n - 55 else 99)
      in if v < b then Some v else None)"

text \<open>The digits of \<open>int(s, b)\<close>: single underscores may separate digits.\<close>

fun digits_val :: "nat \<Rightarrow> nat \<Rightarrow> bool \<Rightarrow> string \<Rightarrow> nat option" where
  "digits_val b acc prev [] = (if prev then Some acc else None)"
| "digits_val b acc prev (c # cs) =
     (case digit_val b c of
        Some d \<Rightarrow> digits_val b (acc * b + d) True cs
      | None \<Rightarrow> if c = CHR ''_'' \<and> prev then digits_val b acc False cs else None)"

definition is_space :: "char \<Rightarrow> bool" where
  "is_space c \<longleftrightarrow> code c = 32 \<or> (9 \<le> code c \<and> code c \<le> 13)"

definition py_strip_by :: "(char \<Rightarrow> bool) \<Rightarrow> string \<Rightarrow> string" where
  "py_strip_by P s = rev (dropWhile P (rev (dropWhile P s)))"

fun signed_val :: "(string \<Rightarrow> nat option) \<Rightarrow> string \<Rightarrow> int option" where
  "signed_val f [] = None"
| "signed_val f (c # cs) =
     (if c = CHR ''-'' then map_option (\<lambda>n. - int n) (f cs)
      else if c = CHR ''+'' then map_option int (f cs)
      else map_option int (f (c # cs)))"

text \<open>\<open>int(s)\<close>; \<open>None\<close> where Python raises \<open>ValueError\<close>.\<close>

definition py_int :: "string \<Rightarrow> int option" where
  "py_int s = signed_val (digits_val 10 0 False) (py_strip_by is_space s)"

text \<open>\<open>int(s, 16)\<close>, with its optional \<open>0x\<close> prefix.\<close>

fun hex_body :: "string \<Rightarrow> nat option" where
  "hex_body (z # x # cs) =
     (if z = CHR ''0'' \<and> (x = CHR ''x'' \<or> x = CHR ''X'')
      then digits_val 16 0 False (if take 1 cs = ''_'' then tl cs else cs)
      else digits_val 16 0 False (z # x # cs))"
| "hex_body cs = digits_val 16 0 False cs"

definition py_int16 :: "string \<Rightarrow> int option" where
  "py_int16 s = signed_val hex_body (py_strip_by is_space s)"

section \<open>Strings\<close>

function py_replace :: "string \<Rightarrow> string \<Rightarrow> string \<Rightarrow> string" where
  "py_replace old new str =
     (if old = [] \<or> str = [] then str
      else if prefix old str then new @ py_replace old new (drop (length old) str)
      else hd str # py_replace old new (tl str))"
  by pat_completeness auto
termination
  by (relation "measure (\<lambda>(old, new, str). length str)") auto

declare py_replace.simps [simp del]

fun py_split :: "char \<Rightarrow> string \<Rightarrow> string list" where
  "py_split sep [] = [[]]"
| "py_split sep (c # cs) =
     (if c = sep then [] # py_split sep cs
      else (case py_split sep cs of [] \<Rightarrow> [[c]] | p # ps \<Rightarrow> (c # p) # ps))"

text \<open>\<open>s.split()\<close>: the maximal runs of non-space characters.\<close>

definition py_split_ws :: "string \<Rightarrow> string list" where
  "py_split_ws s =
     filter (\<lambda>p. p \<noteq> []) (py_split (CHR '' '') (map (\<lambda>c. if is_space c then CHR '' '' else c) s))"

definition py_len :: "string \<Rightarrow> nat" where
  "py_len s = length (filter (\<lambda>c. code c div 64 \<noteq> 2) s)"

definition repr_char :: "char \<Rightarrow> char \<Rightarrow> string" where
  "repr_char q c =
     (if c = q \<or> code c = 92 then [CHR 0x5C, c]
      else if code c = 10 then [CHR 0x5C, CHR ''n'']
      else if code c = 13 then [CHR 0x5C, CHR ''r'']
      else if code c = 9 then [CHR 0x5C, CHR ''t'']
      else if code c < 32 \<or> code c = 127 then [CHR 0x5C, CHR ''x''] @ hex_fixed 2 (code c)
      else [c])"

definition py_repr :: "string \<Rightarrow> string" where
  "py_repr s =
     (let sq = CHR 0x27; dq = CHR 0x22;
          q = (if sq \<in> set s \<and> dq \<notin> set s then dq else sq)
      in [q] @ concat (map (repr_char q) s) @ [q])"

section \<open>UTF-8\<close>

definition is_cont :: "nat \<Rightarrow> bool" where
  "is_cont b \<longleftrightarrow> 128 \<le> b \<and> b < 192"

fun utf8_ok :: "nat list \<Rightarrow> bool" where
  "utf8_ok [] = True"
| "utf8_ok (a # xs) =
     (if a < 128 then utf8_ok xs
      else if 194 \<le> a \<and> a \<le> 223 then
        (case xs of b # ys \<Rightarrow> is_cont b \<and> utf8_ok ys | [] \<Rightarrow> False)
      else if 224 \<le> a \<and> a \<le> 239 then
        (case xs of
           b # c # ys \<Rightarrow> is_cont b \<and> is_cont c \<and> (a = 224 \<longrightarrow> 160 \<le> b) \<and> (a = 237 \<longrightarrow> b < 160) \<and> utf8_ok ys
         | _ \<Rightarrow> False)
      else if 240 \<le> a \<and> a \<le> 244 then
        (case xs of
           b # c # d # ys \<Rightarrow> is_cont b \<and> is_cont c \<and> is_cont d \<and> (a = 240 \<longrightarrow> 144 \<le> b) \<and> (a = 244 \<longrightarrow> b < 144) \<and> utf8_ok ys
         | _ \<Rightarrow> False)
      else False)"

text \<open>\<open>b.decode("utf-8")\<close>; \<open>None\<close> where Python raises \<open>UnicodeDecodeError\<close>.\<close>

definition utf8_decode :: "bytes \<Rightarrow> string option" where
  "utf8_decode b = (if utf8_ok (map code b) then Some b else None)"

definition is_ascii :: "string \<Rightarrow> bool" where
  "is_ascii s \<longleftrightarrow> (\<forall>c \<in> set s. code c < 128)"

lemma utf8_ok_ascii: "\<forall>b \<in> set bs. b < 128 \<Longrightarrow> utf8_ok bs"
  by (induction bs) auto

lemma utf8_decode_ascii: "is_ascii s \<Longrightarrow> utf8_decode s = Some s"
  by (simp add: utf8_decode_def is_ascii_def utf8_ok_ascii)

section \<open>UUIDs\<close>

text \<open>\<open>str(u)\<close>: the 32 hexadecimal digits in groups of 8, 4, 4, 4 and 12.\<close>

definition uuid_str :: "uuid \<Rightarrow> string" where
  "uuid_str u =
     (let h = hex_fixed 32 (unat u)
      in take 8 h @ ''-'' @ take 4 (drop 8 h) @ ''-'' @ take 4 (drop 12 h) @ ''-''
           @ take 4 (drop 16 h) @ ''-'' @ drop 20 h)"

text \<open>\<open>uuid.UUID(s)\<close>; \<open>None\<close> where Python raises \<open>ValueError\<close>.\<close>

definition uuid_parse :: "string \<Rightarrow> uuid option" where
  "uuid_parse s =
     (let h = py_replace ''uuid:'' [] (py_replace ''urn:'' [] s);
          h = py_replace ''-'' [] (py_strip_by (\<lambda>c. c = CHR ''{'' \<or> c = CHR ''}'') h)
      in if py_len h \<noteq> 32 then None
         else (case py_int16 h of
                 None \<Rightarrow> None
               | Some i \<Rightarrow> if 0 \<le> i \<and> i < 2 ^ 128 then Some (word_of_int i) else None))"

section \<open>Facts about numbers and their digits\<close>

lemma of_char_char_of_small: "n < 256 \<Longrightarrow> code (char_of n) = n"
  by (simp add: of_char_of)

lemma dec_digit_code: "n < 10 \<Longrightarrow> code (dec_digit n) = 48 + n"
  by (simp add: dec_digit_def of_char_char_of_small)

lemma dec_digit_val: "n < 10 \<Longrightarrow> digit_val 10 (dec_digit n) = Some n"
  by (simp add: digit_val_def Let_def dec_digit_code)

lemma hex_digit_val: "n < 16 \<Longrightarrow> digit_val 16 (hex_digit n) = Some n"
  by (auto simp: digit_val_def Let_def hex_digit_def of_char_char_of_small)

lemma dec_nat_nonempty [simp]: "dec_nat n \<noteq> []"
  by (subst dec_nat.simps) simp

lemma dec_nat_chars: "c \<in> set (dec_nat n) \<Longrightarrow> 48 \<le> code c \<and> code c \<le> 57"
proof (induction n rule: dec_nat.induct)
  case (1 n)
  show ?case
  proof (cases "n < 10")
    case True
    with "1.prems" show ?thesis by (subst (asm) dec_nat.simps) (simp add: dec_digit_code)
  next
    case False
    with "1.prems" have "c \<in> set (dec_nat (n div 10)) \<or> c = dec_digit (n mod 10)"
      by (subst (asm) dec_nat.simps) auto
    moreover have "48 \<le> code (dec_digit (n mod 10)) \<and> code (dec_digit (n mod 10)) \<le> 57"
      using dec_digit_code [of "n mod 10"] by simp
    ultimately show ?thesis using "1.IH" False by blast
  qed
qed

lemma digits_val_dec_nat:
  "digits_val 10 acc p (dec_nat n @ cs) = digits_val 10 (acc * 10 ^ length (dec_nat n) + n) True cs"
proof (induction n arbitrary: cs rule: dec_nat.induct)
  case (1 n)
  show ?case
  proof (cases "n < 10")
    case True
    then show ?thesis by (simp add: dec_nat.simps dec_digit_val)
  next
    case False
    have d: "digit_val 10 (dec_digit (n mod 10)) = Some (n mod 10)"
      by (simp add: dec_digit_val)
    have eq: "dec_nat n = dec_nat (n div 10) @ [dec_digit (n mod 10)]"
      using False by (subst dec_nat.simps) simp
    have "(acc * 10 ^ length (dec_nat (n div 10)) + n div 10) * 10 + n mod 10
        = acc * 10 ^ length (dec_nat n) + n"
      by (simp add: eq)
    then show ?thesis
      by (simp only: eq append_assoc append_Cons append_Nil "1.IH" [OF False] digits_val.simps d option.case)
  qed
qed

lemma py_strip_by_id:
  assumes "s \<noteq> []" and "\<not> P (hd s)" and "\<not> P (last s)"
  shows "py_strip_by P s = s"
proof -
  have "dropWhile P s = s"
    using assms by (cases s) auto
  moreover have "dropWhile P (rev s) = rev s"
    using assms by (cases s rule: rev_cases) auto
  ultimately show ?thesis by (simp add: py_strip_by_def)
qed

lemma dec_nat_hd_last:
  "\<not> is_space (hd (dec_nat n)) \<and> \<not> is_space (last (dec_nat n))"
  using dec_nat_chars [of "hd (dec_nat n)" n] dec_nat_chars [of "last (dec_nat n)" n]
  by (simp add: is_space_def)

text \<open>\<open>int(str(i)) = i\<close>.\<close>

lemma py_int_py_str_int [simp]: "py_int (py_str_int i) = Some i"
proof (cases "i < 0")
  case True
  have "py_strip_by is_space (CHR ''-'' # dec_nat (nat (- i))) = CHR ''-'' # dec_nat (nat (- i))"
    using dec_nat_hd_last [of "nat (- i)"] by (intro py_strip_by_id) (auto simp: is_space_def)
  with True show ?thesis
    using digits_val_dec_nat [of 0 False "nat (- i)" "[]"]
    by (simp add: py_int_def py_str_int_def)
next
  case False
  obtain c cs where d: "dec_nat (nat i) = c # cs"
    by (cases "dec_nat (nat i)") auto
  have "c \<noteq> CHR ''-''" and "c \<noteq> CHR ''+''"
    using dec_nat_chars [of c "nat i"] d by (auto simp: d)
  moreover have "py_strip_by is_space (dec_nat (nat i)) = dec_nat (nat i)"
    using dec_nat_hd_last by (intro py_strip_by_id) auto
  ultimately show ?thesis
    using False digits_val_dec_nat [of 0 False "nat i" "[]"]
    by (simp add: py_int_def py_str_int_def d)
qed

lemma py_str_int_inject [simp]: "py_str_int i = py_str_int j \<longleftrightarrow> i = j"
  by (metis option.inject py_int_py_str_int)

lemma py_str_int_chars: "c \<in> set (py_str_int i) \<Longrightarrow> c = CHR ''-'' \<or> 48 \<le> code c \<and> code c \<le> 57"
  by (auto simp: py_str_int_def dest: dec_nat_chars split: if_splits)

lemma py_str_int_nonempty [simp]: "py_str_int i \<noteq> []"
  by (simp add: py_str_int_def)

section \<open>Facts about replace and split\<close>

lemma py_replace_absent: "old \<noteq> [] \<Longrightarrow> hd old \<notin> set str \<Longrightarrow> py_replace old new str = str"
proof (induction old new str rule: py_replace.induct)
  case (1 old new str)
  show ?case
  proof (cases str)
    case Nil
    then show ?thesis by (simp add: py_replace.simps)
  next
    case (Cons c cs)
    have np: "\<not> prefix old str"
      using "1.prems" Cons by (cases old) auto
    then have "py_replace old new cs = cs"
      using "1.IH"(2) "1.prems" Cons by auto
    then show ?thesis
      using np Cons "1.prems" by (subst py_replace.simps) simp
  qed
qed

lemma py_replace_char: "py_replace [c] [] str = filter (\<lambda>x. x \<noteq> c) str"
proof (induction str)
  case Nil
  then show ?case by (simp add: py_replace.simps)
next
  case (Cons x xs)
  then show ?case by (subst py_replace.simps) auto
qed

lemma py_split_no_sep: "sep \<notin> set s \<Longrightarrow> py_split sep s = [s]"
  by (induction s) auto

lemma py_split_append_sep: "sep \<notin> set s \<Longrightarrow> py_split sep (s @ sep # r) = s # py_split sep r"
  by (induction s) auto

lemma py_split_nonempty [simp]: "py_split sep s \<noteq> []"
  by (induction s) (auto split: list.splits)

section \<open>The UUID round trip\<close>

lemma length_hex_fixed [simp]: "length (hex_fixed k n) = k"
  by (induction k arbitrary: n) auto

lemma hex_digit_code:
  "n < 16 \<Longrightarrow> (48 \<le> code (hex_digit n) \<and> code (hex_digit n) \<le> 57) \<or>
              (97 \<le> code (hex_digit n) \<and> code (hex_digit n) \<le> 102)"
  by (auto simp: hex_digit_def of_char_char_of_small)

lemma hex_fixed_chars:
  "c \<in> set (hex_fixed k n) \<Longrightarrow> (48 \<le> code c \<and> code c \<le> 57) \<or> (97 \<le> code c \<and> code c \<le> 102)"
proof (induction k arbitrary: n)
  case (Suc k)
  then show ?case using hex_digit_code [of "n mod 16"] by auto
qed simp

lemma pos_mod_bound_16: "n mod 16 < (16::nat)"
  by simp

lemma digits_val_hex_fixed:
  "n < 16 ^ k \<Longrightarrow>
   digits_val 16 acc p (hex_fixed k n @ cs) = digits_val 16 (acc * 16 ^ k + n) (p \<or> 0 < k) cs"
proof (induction k arbitrary: n cs p)
  case 0
  then show ?case by simp
next
  case (Suc k)
  have n: "n div 16 < 16 ^ k" using Suc.prems by (simp add: less_mult_imp_div_less mult.commute)
  have "(acc * 16 ^ k + n div 16) * 16 + n mod 16 = acc * 16 ^ Suc k + n"
    by simp
  then show ?case
    by (simp only: hex_fixed.simps append_assoc append_Cons append_Nil Suc.IH [OF n] digits_val.simps
        hex_digit_val [OF pos_mod_bound_16] option.case) simp
qed

lemma hex_fixed_free:
  assumes "c \<in> {CHR ''u'', CHR ''-'', CHR ''+'', CHR ''x'', CHR ''X'', CHR '' '', CHR ''{'', CHR ''}''}"
  shows "c \<notin> set (hex_fixed k n)"
  using hex_fixed_chars [of c k n] assms by auto

lemma py_int16_hex_fixed:
  assumes "n < 16 ^ 32"
  shows "py_int16 (hex_fixed 32 n) = Some (int n)"
proof -
  obtain a b cs where h: "hex_fixed 32 n = a # b # cs"
    using length_hex_fixed [of 32 n] by (cases "hex_fixed 32 n"; cases "tl (hex_fixed 32 n)") auto
  have in1: "a \<in> set (hex_fixed 32 n)" "b \<in> set (hex_fixed 32 n)" by (simp_all add: h)
  have "a \<noteq> CHR ''-''" "a \<noteq> CHR ''+''" "b \<noteq> CHR ''x''" "b \<noteq> CHR ''X''"
    using in1 hex_fixed_free [of _ 32 n] by auto
  moreover have "py_strip_by is_space (hex_fixed 32 n) = hex_fixed 32 n"
  proof (rule py_strip_by_id)
    have "hd (hex_fixed 32 n) \<in> set (hex_fixed 32 n)" "last (hex_fixed 32 n) \<in> set (hex_fixed 32 n)"
      by (simp_all add: h)
    then show "\<not> is_space (hd (hex_fixed 32 n))" "\<not> is_space (last (hex_fixed 32 n))"
      using hex_fixed_chars [of _ 32 n] by (fastforce simp: is_space_def)+
  qed (simp add: h)
  moreover have "digits_val 16 0 False (hex_fixed 32 n) = Some n"
    using digits_val_hex_fixed [OF assms, of 0 False "[]"] by simp
  ultimately show ?thesis by (simp add: py_int16_def h)
qed

lemma uuid_str_parts:
  "set (uuid_str u) \<subseteq> insert (CHR ''-'') (set (hex_fixed 32 (unat u)))"
  by (auto simp: uuid_str_def Let_def dest: in_set_takeD in_set_dropD)

lemma uuid_str_no_sep: "CHR ''|'' \<notin> set (uuid_str u) \<and> CHR '':'' \<notin> set (uuid_str u)"
  using uuid_str_parts [of u] hex_fixed_chars [of _ 32 "unat u"] by fastforce

lemma filter_dash_uuid_str: "filter (\<lambda>x. x \<noteq> CHR ''-'') (uuid_str u) = hex_fixed 32 (unat u)"
proof -
  define h where "h = hex_fixed 32 (unat u)"
  have f: "filter (\<lambda>x. x \<noteq> CHR ''-'') xs = xs" if "set xs \<subseteq> set h" for xs
    using that hex_fixed_free [of "CHR ''-''" 32 "unat u"] by (auto simp: h_def intro!: filter_True)
  have s: "set (take n (drop m h)) \<subseteq> set h" "set (take n h) \<subseteq> set h" "set (drop n h) \<subseteq> set h" for n m
    by (auto dest: in_set_takeD in_set_dropD)
  have "h = take 8 h @ take 4 (drop 8 h) @ take 4 (drop 12 h) @ take 4 (drop 16 h) @ drop 20 h"
  proof -
    have "take 4 (drop 16 h) @ drop 20 h = drop 16 h"
      using append_take_drop_id [of 4 "drop 16 h"] by simp
    moreover have "take 4 (drop 12 h) @ drop 16 h = drop 12 h"
      using append_take_drop_id [of 4 "drop 12 h"] by simp
    moreover have "take 4 (drop 8 h) @ drop 12 h = drop 8 h"
      using append_take_drop_id [of 4 "drop 8 h"] by simp
    ultimately show ?thesis by simp
  qed
  then show ?thesis
    by (simp add: uuid_str_def Let_def h_def [symmetric] f [OF s(1)] f [OF s(2)] f [OF s(3)])
qed

lemma py_len_ascii: "is_ascii s \<Longrightarrow> py_len s = length s"
  by (auto simp: py_len_def is_ascii_def intro!: filter_True arg_cong [where f = length])

lemma hex_fixed_ascii: "is_ascii (hex_fixed k n)"
  using hex_fixed_chars [of _ k n] by (fastforce simp: is_ascii_def)

text \<open>\<open>uuid.UUID(str(u)) = u\<close>.\<close>

lemma uuid_parse_uuid_str [simp]: "uuid_parse (uuid_str u) = Some u"
proof -
  let ?h = "hex_fixed 32 (unat u)"
  have u: "CHR ''u'' \<notin> set (uuid_str u)"
    using uuid_str_parts [of u] hex_fixed_free [of "CHR ''u''" 32 "unat u"] by auto
  have br: "c \<in> set (uuid_str u) \<Longrightarrow> \<not> (c = CHR ''{'' \<or> c = CHR ''}'')" for c
    using uuid_str_parts [of u] hex_fixed_free [of c 32 "unat u"] by auto
  have ne: "uuid_str u \<noteq> []" by (simp add: uuid_str_def Let_def)
  have strip: "py_strip_by (\<lambda>c. c = CHR ''{'' \<or> c = CHR ''}'') (uuid_str u) = uuid_str u"
    using ne br [of "hd (uuid_str u)"] br [of "last (uuid_str u)"] by (intro py_strip_by_id) auto
  have lt: "unat u < 16 ^ 32"
    using unsigned_less [of u, where 'a = nat] by simp
  have len: "py_len ?h = 32"
    by (simp add: py_len_ascii hex_fixed_ascii)
  have val: "py_int16 ?h = Some (int (unat u))"
    by (rule py_int16_hex_fixed) (rule lt)
  have "uint u < 2 ^ 128"
    using unsigned_less [of u, where 'a = int] by simp
  then show ?thesis
    by (simp add: uuid_parse_def Let_def py_replace_absent u strip
        py_replace_char filter_dash_uuid_str len val)
qed

lemma uuid_str_inject [simp]: "uuid_str u = uuid_str v \<longleftrightarrow> u = v"
  by (metis option.inject uuid_parse_uuid_str)

end
