(* ===== verification/Py_Json.thy ===== *)
theory Py_Json
  imports Py_Base "HOL-Library.Multiset" "HOL-Library.Char_ord" "HOL-Library.List_Lexorder"
begin

text \<open>
  JSON values as Python objects, \<open>json.dumps\<close> (with \<open>ensure_ascii\<close>, and with
  or without \<open>sort_keys\<close> and compact separators) and \<open>json.loads\<close>, and the
  round trip between them.  The audit log hashes the canonical text of a call's
  arguments; the idempotency store keeps results as JSON text.

  A finite float is represented by the two observations the program makes of
  it, its truncation \<open>int(x)\<close> and its \<open>repr\<close>; a non-finite one by its JSON
  token.  Reading a float literal needs the C library's decimal conversion, a
  parameter \<open>fl\<close> of \<open>loads\<close>.
\<close>

datatype json =
    JNull
  | JBool bool
  | JInt int
  | JFloat int string
  | JNonFinite string
  | JStr string
  | JList "json list"
  | JObj "(string \<times> json) list"

type_synonym dict = "(string \<times> json) list"

text \<open>\<open>bool(v)\<close>.\<close>

fun json_truthy :: "json \<Rightarrow> bool" where
  "json_truthy JNull = False"
| "json_truthy (JBool b) = b"
| "json_truthy (JInt i) = (i \<noteq> 0)"
| "json_truthy (JFloat i r) = (r \<noteq> ''0.0'' \<and> r \<noteq> ''-0.0'')"
| "json_truthy (JNonFinite t) = True"
| "json_truthy (JStr s) = (s \<noteq> [])"
| "json_truthy (JList xs) = (xs \<noteq> [])"
| "json_truthy (JObj kvs) = (kvs \<noteq> [])"

section \<open>Code points\<close>

fun utf8_points :: "nat list \<Rightarrow> nat list" where
  "utf8_points [] = []"
| "utf8_points (a # xs) =
     (if a < 128 then a # utf8_points xs
      else if a < 224 then
        (case xs of b # ys \<Rightarrow> ((a - 192) * 64 + (b - 128)) # utf8_points ys | [] \<Rightarrow> [a])
      else if a < 240 then
        (case xs of
           b # c # ys \<Rightarrow> ((a - 224) * 4096 + (b - 128) * 64 + (c - 128)) # utf8_points ys
         | _ \<Rightarrow> [a])
      else
        (case xs of
           b # c # d # ys \<Rightarrow>
             ((a - 240) * 262144 + (b - 128) * 4096 + (c - 128) * 64 + (d - 128)) # utf8_points ys
         | _ \<Rightarrow> [a]))"

definition utf8_enc :: "nat \<Rightarrow> nat list" where
  "utf8_enc p =
     (if p < 128 then [p]
      else if p < 2048 then [192 + p div 64, 128 + p mod 64]
      else if p < 65536 then [224 + p div 4096, 128 + p div 64 mod 64, 128 + p mod 64]
      else [240 + p div 262144, 128 + p div 4096 mod 64, 128 + p div 64 mod 64, 128 + p mod 64])"

section \<open>dumps\<close>

definition backslash :: char where
  "backslash = CHR 0x5C"

definition dquote :: char where
  "dquote = CHR 0x22"

definition u_escape :: "nat \<Rightarrow> string" where
  "u_escape n = [backslash, CHR ''u''] @ hex_fixed 4 n"

definition esc_point :: "nat \<Rightarrow> string" where
  "esc_point p =
     (if p = 34 \<or> p = 92 then [backslash, char_of p]
      else if p = 10 then [backslash, CHR ''n'']
      else if p = 13 then [backslash, CHR ''r'']
      else if p = 9 then [backslash, CHR ''t'']
      else if p = 8 then [backslash, CHR ''b'']
      else if p = 12 then [backslash, CHR ''f'']
      else if 32 \<le> p \<and> p \<le> 126 then [char_of p]
      else if p < 65536 then u_escape p
      else u_escape (55296 + (p - 65536) div 1024) @ u_escape (56320 + (p - 65536) mod 1024))"

definition dumps_str :: "string \<Rightarrow> string" where
  "dumps_str s = [dquote] @ concat (map esc_point (utf8_points (map code s))) @ [dquote]"

fun join :: "string \<Rightarrow> string list \<Rightarrow> string" where
  "join sep [] = []"
| "join sep [x] = x"
| "join sep (x # y # ys) = x @ sep @ join sep (y # ys)"

text \<open>
  The formatting options of \<open>json.dumps\<close>: \<open>sort_keys\<close> and the two separators.
\<close>

record dump_opts =
  sort_keys :: bool
  item_sep :: string
  key_sep :: string

definition default_opts :: dump_opts where
  "default_opts = \<lparr>sort_keys = False, item_sep = '', '', key_sep = '': ''\<rparr>"

definition canonical_opts :: dump_opts where
  "canonical_opts = \<lparr>sort_keys = True, item_sep = '','', key_sep = '':''\<rparr>"

definition order_items :: "bool \<Rightarrow> (string \<times> string) list \<Rightarrow> (string \<times> string) list" where
  "order_items srt kvs = (if srt then sort_key fst kvs else kvs)"

fun dumps :: "dump_opts \<Rightarrow> json \<Rightarrow> string" where
  "dumps opt JNull = ''null''"
| "dumps opt (JBool b) = (if b then ''true'' else ''false'')"
| "dumps opt (JInt i) = py_str_int i"
| "dumps opt (JFloat i r) = r"
| "dumps opt (JNonFinite t) = t"
| "dumps opt (JStr s) = dumps_str s"
| "dumps opt (JList xs) = ''['' @ join (item_sep opt) (map (dumps opt) xs) @ '']''"
| "dumps opt (JObj kvs) =
     ''{'' @ join (item_sep opt)
       (map (\<lambda>(k, t). dumps_str k @ key_sep opt @ t)
          (order_items (sort_keys opt) (map (\<lambda>(k, v). (k, dumps opt v)) kvs))) @ ''}''"

section \<open>loads\<close>

definition is_json_ws :: "char \<Rightarrow> bool" where
  "is_json_ws c \<longleftrightarrow> code c = 32 \<or> code c = 9 \<or> code c = 10 \<or> code c = 13"

abbreviation skip_ws :: "string \<Rightarrow> string" where
  "skip_ws \<equiv> dropWhile is_json_ws"

definition hex4 :: "char \<Rightarrow> char \<Rightarrow> char \<Rightarrow> char \<Rightarrow> nat option" where
  "hex4 a b c d =
     (case (digit_val 16 a, digit_val 16 b, digit_val 16 c, digit_val 16 d) of
        (Some w, Some x, Some y, Some z) \<Rightarrow> Some (w * 4096 + x * 256 + y * 16 + z)
      | _ \<Rightarrow> None)"

definition point_str :: "nat \<Rightarrow> string" where
  "point_str p = map char_of (utf8_enc p)"

definition unesc_char :: "char \<Rightarrow> char option" where
  "unesc_char c =
     (if c = dquote \<or> c = backslash \<or> c = CHR ''/'' then Some c
      else if c = CHR ''n'' then Some (CHR 0x0A)
      else if c = CHR ''r'' then Some (CHR 0x0D)
      else if c = CHR ''t'' then Some (CHR 0x09)
      else if c = CHR ''b'' then Some (CHR 0x08)
      else if c = CHR ''f'' then Some (CHR 0x0C)
      else None)"

definition is_high :: "nat \<Rightarrow> bool" where
  "is_high n \<longleftrightarrow> 55296 \<le> n \<and> n < 56320"

definition is_low :: "nat \<Rightarrow> bool" where
  "is_low n \<longleftrightarrow> 56320 \<le> n \<and> n < 57344"

text \<open>
  \<open>u_point r\<close> reads the four hexadecimal digits after a \<open>\u\<close> and, when they are
  a high surrogate followed by an escaped low one, the second escape as well.
\<close>

fun u_point :: "string \<Rightarrow> (nat \<times> string) option" where
  "u_point (a # b # c # d # r) =
     (case hex4 a b c d of
        None \<Rightarrow> None
      | Some n \<Rightarrow>
          if is_high n \<and> take 2 r = [backslash, CHR ''u''] then
            (case drop 2 r of
               a' # b' # c' # d' # r' \<Rightarrow>
                 (case hex4 a' b' c' d' of
                    None \<Rightarrow> None
                  | Some m \<Rightarrow>
                      if is_low m then Some (65536 + (n - 55296) * 1024 + (m - 56320), r')
                      else Some (n, r))
             | _ \<Rightarrow> None)
          else Some (n, r))"
| "u_point _ = None"

lemma u_point_shorter: "u_point s = Some (n, r) \<Longrightarrow> length r < length s"
  by (cases s rule: u_point.cases) (auto split: option.splits if_splits list.splits dest!: arg_cong [where f = length])

text \<open>The characters of a string up to its closing quote.\<close>

function scan_str :: "string \<Rightarrow> (string \<times> string) option" where
  "scan_str [] = None"
| "scan_str (c # cs) =
     (if c = dquote then Some ([], cs)
      else if c = backslash then
        (case cs of
           [] \<Rightarrow> None
         | d # ds \<Rightarrow>
             if d = CHR ''u'' then
               (case u_point ds of
                  None \<Rightarrow> None
                | Some (p, r) \<Rightarrow> map_option (\<lambda>(s, t). (point_str p @ s, t)) (scan_str r))
             else
               (case unesc_char d of
                  None \<Rightarrow> None
                | Some e \<Rightarrow> map_option (\<lambda>(s, t). (e # s, t)) (scan_str ds)))
      else if code c < 32 then None
      else map_option (\<lambda>(s, t). (c # s, t)) (scan_str cs))"
  by pat_completeness auto
termination
  by (relation "measure length") (auto dest: u_point_shorter)


definition is_digit :: "char \<Rightarrow> bool" where
  "is_digit c \<longleftrightarrow> 48 \<le> code c \<and> code c \<le> 57"

definition scan_frac :: "string \<Rightarrow> string \<times> string" where
  "scan_frac b =
     (case b of
        p # q # r \<Rightarrow>
          if p = CHR ''.'' \<and> is_digit q
          then (p # takeWhile is_digit (q # r), dropWhile is_digit (q # r)) else ([], b)
      | _ \<Rightarrow> ([], b))"

definition scan_sign :: "string \<Rightarrow> string \<times> string" where
  "scan_sign r = (if take 1 r = ''+'' \<or> take 1 r = ''-'' then (take 1 r, tl r) else ([], r))"

definition scan_exp :: "string \<Rightarrow> string \<times> string" where
  "scan_exp b =
     (case b of
        [] \<Rightarrow> ([], [])
      | p # r \<Rightarrow>
          if p = CHR ''e'' \<or> p = CHR ''E'' then
            (case scan_sign r of (sg, t) \<Rightarrow>
               if t \<noteq> [] \<and> is_digit (hd t)
               then (p # sg @ takeWhile is_digit t, dropWhile is_digit t) else ([], b))
          else ([], b))"

text \<open>
  The number token \<open>(-?(?:0|[1-9]\d*))(\.\d+)?([eE][-+]?\d+)?\<close>: its integer
  part, its fraction and exponent, and the rest of the input.
\<close>

definition scan_unsigned :: "string \<Rightarrow> (string \<times> string \<times> string) option" where
  "scan_unsigned a =
     (case a of
        [] \<Rightarrow> None
      | c # cs \<Rightarrow>
          if \<not> is_digit c then None
          else
            (let ip = (if c = CHR ''0'' then [c] else c # takeWhile is_digit cs);
                 b = (if c = CHR ''0'' then cs else dropWhile is_digit cs);
                 fr = scan_frac b; ex = scan_exp (snd fr)
             in Some (ip, fst fr @ fst ex, snd ex)))"

definition scan_num :: "string \<Rightarrow> (string \<times> string \<times> string) option" where
  "scan_num s =
     (if take 1 s = ''-'' then map_option (\<lambda>(ip, suf, t). (CHR ''-'' # ip, suf, t)) (scan_unsigned (tl s))
      else scan_unsigned s)"

text \<open>\<open>dict(pairs)\<close>: a repeated key keeps its first place and its last value.\<close>

fun dict_put :: "string \<Rightarrow> 'v \<Rightarrow> (string \<times> 'v) list \<Rightarrow> (string \<times> 'v) list" where
  "dict_put k v [] = [(k, v)]"
| "dict_put k v ((k', v') # kvs) = (if k' = k then (k, v) # kvs else (k', v') # dict_put k v kvs)"

definition dict_of_pairs :: "(string \<times> 'v) list \<Rightarrow> (string \<times> 'v) list" where
  "dict_of_pairs kvs = foldl (\<lambda>d (k, v). dict_put k v d) [] kvs"

abbreviation dict_get :: "(string \<times> 'v) list \<Rightarrow> string \<Rightarrow> 'v option" where
  "dict_get d k \<equiv> map_of d k"

text \<open>
  The scanner of \<open>json.loads\<close>.  Each call spends one unit of fuel; a value
  and its nested items spend at most two units per character.
\<close>

fun pval :: "(string \<Rightarrow> json) \<Rightarrow> nat \<Rightarrow> string \<Rightarrow> (json \<times> string) option"
  and pitems :: "(string \<Rightarrow> json) \<Rightarrow> nat \<Rightarrow> string \<Rightarrow> (json list \<times> string) option"
  and pmembers :: "(string \<Rightarrow> json) \<Rightarrow> nat \<Rightarrow> string \<Rightarrow> (dict \<times> string) option"
where
  "pval fl 0 s = None"
| "pval fl (Suc n) s =
     (if take 1 s = [dquote] then map_option (\<lambda>(x, t). (JStr x, t)) (scan_str (tl s))
      else if take 1 s = ''{'' then
        (if take 1 (skip_ws (tl s)) = ''}'' then Some (JObj [], tl (skip_ws (tl s)))
         else map_option (\<lambda>(kvs, t). (JObj (dict_of_pairs kvs), t)) (pmembers fl n (skip_ws (tl s))))
      else if take 1 s = ''['' then
        (if take 1 (skip_ws (tl s)) = '']'' then Some (JList [], tl (skip_ws (tl s)))
         else map_option (\<lambda>(xs, t). (JList xs, t)) (pitems fl n (skip_ws (tl s))))
      else if prefix ''null'' s then Some (JNull, drop 4 s)
      else if prefix ''true'' s then Some (JBool True, drop 4 s)
      else if prefix ''false'' s then Some (JBool False, drop 5 s)
      else if prefix ''NaN'' s then Some (JNonFinite ''NaN'', drop 3 s)
      else if prefix ''Infinity'' s then Some (JNonFinite ''Infinity'', drop 8 s)
      else if prefix ''-Infinity'' s then Some (JNonFinite ''-Infinity'', drop 9 s)
      else
        (case scan_num s of
           None \<Rightarrow> None
         | Some (lit, suf, t) \<Rightarrow>
             if suf = [] then map_option (\<lambda>i. (JInt i, t)) (py_int lit) else Some (fl (lit @ suf), t)))"
| "pitems fl 0 s = None"
| "pitems fl (Suc n) s =
     (case pval fl n s of
        None \<Rightarrow> None
      | Some (v, t) \<Rightarrow>
          if take 1 (skip_ws t) = '']'' then Some ([v], tl (skip_ws t))
          else if take 1 (skip_ws t) = '','' then
            map_option (\<lambda>(vs, q). (v # vs, q)) (pitems fl n (skip_ws (tl (skip_ws t))))
          else None)"
| "pmembers fl 0 s = None"
| "pmembers fl (Suc n) s =
     (if take 1 s \<noteq> [dquote] then None
      else case scan_str (tl s) of
        None \<Rightarrow> None
      | Some (k, t) \<Rightarrow>
          if take 1 (skip_ws t) \<noteq> '':'' then None
          else case pval fl n (skip_ws (tl (skip_ws t))) of
            None \<Rightarrow> None
          | Some (v, t') \<Rightarrow>
              if take 1 (skip_ws t') = ''}'' then Some ([(k, v)], tl (skip_ws t'))
              else if take 1 (skip_ws t') = '','' then
                map_option (\<lambda>(kvs, q). ((k, v) # kvs, q)) (pmembers fl n (skip_ws (tl (skip_ws t'))))
              else None)"

definition loads :: "(string \<Rightarrow> json) \<Rightarrow> string \<Rightarrow> json option" where
  "loads fl s =
     (case pval fl (2 * length s + 2) (skip_ws s) of
        None \<Rightarrow> None
      | Some (v, t) \<Rightarrow> if skip_ws t = [] then Some v else None)"

section \<open>Strings survive the round trip\<close>

lemma char_simps [simp]: "code backslash = 92" "code dquote = 34"
  by (simp_all add: backslash_def dquote_def)

lemma char_neq [simp]:
  "backslash \<noteq> dquote" "dquote \<noteq> backslash"
  by (simp_all add: backslash_def dquote_def)

lemma code_neqD: "code c \<noteq> code d \<Longrightarrow> c \<noteq> d"
  by auto

lemma char_of_code [simp]: "char_of (code c) = c"
  by simp

lemma hex4_hex_fixed:
  assumes "n < 65536"
  shows "\<exists>a b c d. hex_fixed 4 n = [a, b, c, d] \<and> hex4 a b c d = Some n"
proof -
  have z: "n div 16 div 16 div 16 div 16 = 0"
    using assms by (simp add: div_mult2_eq [symmetric])
  have "hex_fixed 4 n =
      [hex_digit (n div 16 div 16 div 16 mod 16), hex_digit (n div 16 div 16 mod 16),
       hex_digit (n div 16 mod 16), hex_digit (n mod 16)]"
  proof -
    have four: "(4::nat) = Suc (Suc (Suc (Suc 0)))" by simp
    show ?thesis by (simp only: four hex_fixed.simps append_Nil append_Cons)
  qed
  moreover have "n div 16 div 16 div 16 mod 16 * 4096 + n div 16 div 16 mod 16 * 256 + n div 16 mod 16 * 16 + n mod 16 = n"
    using mult_div_mod_eq [of 16 n] mult_div_mod_eq [of 16 "n div 16"]
      mult_div_mod_eq [of 16 "n div 16 div 16"] mult_div_mod_eq [of 16 "n div 16 div 16 div 16"] z
    by linarith
  ultimately show ?thesis
    by (simp add: hex4_def hex_digit_val [OF pos_mod_bound_16])
qed

lemma scan_str_u_escape:
  assumes "n < 65536" and "\<not> is_high n"
  shows "scan_str (u_escape n @ r) = map_option (\<lambda>(s, t). (point_str n @ s, t)) (scan_str r)"
proof -
  obtain a b c d where h: "hex_fixed 4 n = [a, b, c, d]" "hex4 a b c d = Some n"
    using hex4_hex_fixed [OF assms(1)] by blast
  then show ?thesis using assms(2) by (simp add: u_escape_def)
qed

lemma scan_str_surrogates:
  assumes "is_high n" and "is_low m"
  shows "scan_str (u_escape n @ u_escape m @ r) =
     map_option (\<lambda>(s, t). (point_str (65536 + (n - 55296) * 1024 + (m - 56320)) @ s, t)) (scan_str r)"
proof -
  have lt: "n < 65536" "m < 65536" using assms by (simp_all add: is_high_def is_low_def)
  obtain a b c d where h: "hex_fixed 4 n = [a, b, c, d]" "hex4 a b c d = Some n"
    using hex4_hex_fixed [OF lt(1)] by blast
  obtain a' b' c' d' where h': "hex_fixed 4 m = [a', b', c', d']" "hex4 a' b' c' d' = Some m"
    using hex4_hex_fixed [OF lt(2)] by blast
  show ?thesis using assms by (simp add: u_escape_def h h')
qed

text \<open>A code point that is not a surrogate is read back from its escape.\<close>

lemma scan_str_esc_point:
  assumes "p < 1114112" and "\<not> (55296 \<le> p \<and> p < 57344)"
  shows "scan_str (esc_point p @ r) = map_option (\<lambda>(s, t). (point_str p @ s, t)) (scan_str r)"
proof -
  have bs: "char_of (34 :: nat) = CHR 0x22" "char_of (92 :: nat) = CHR 0x5C" "char_of (10 :: nat) = CHR 0x0A"
    "char_of (13 :: nat) = CHR 0x0D" "char_of (9 :: nat) = CHR 0x09" "char_of (8 :: nat) = CHR 0x08"
    "char_of (12 :: nat) = CHR 0x0C"
    by code_simp+
  consider (short) "p \<in> {34, 92, 10, 13, 9, 8, 12}"
    | (plain) "32 \<le> p" "p \<le> 126" "p \<notin> {34, 92, 10, 13, 9, 8, 12}"
    | (bmp) "\<not> (32 \<le> p \<and> p \<le> 126)" "p < 65536" "p \<notin> {34, 92, 10, 13, 9, 8, 12}"
    | (astral) "65536 \<le> p"
    using leI by blast
  then show ?thesis
  proof cases
    case short
    then show ?thesis
      by (elim insertE emptyE) (simp_all add: esc_point_def point_str_def utf8_enc_def unesc_char_def
          backslash_def dquote_def bs)
  next
    case plain
    then have c: "code (char_of p :: char) = p" by (simp add: of_char_char_of_small)
    then have "(char_of p :: char) \<noteq> dquote" "(char_of p :: char) \<noteq> backslash"
      using plain c char_simps by (metis insertI1 insertI2)+
    then show ?thesis using plain c
      by (simp add: esc_point_def point_str_def utf8_enc_def)
  next
    case bmp
    then have "\<not> is_high p" using assms by (auto simp: is_high_def)
    then show ?thesis using bmp scan_str_u_escape [of p r]
      by (auto simp: esc_point_def)
  next
    case astral
    define n m where "n = 55296 + (p - 65536) div 1024" and "m = 56320 + (p - 65536) mod 1024"
    have q: "(p - 65536) div 1024 < 1024" using assms astral by (simp add: less_mult_imp_div_less)
    have "is_high n" "is_low m" using q by (simp_all add: n_def m_def is_high_def is_low_def)
    moreover have "65536 + (n - 55296) * 1024 + (m - 56320) = p"
      using astral by (simp add: n_def m_def)
    ultimately show ?thesis
      using astral scan_str_surrogates [of n m r] by (simp add: esc_point_def n_def m_def)
  qed
qed


definition scalar_point :: "nat \<Rightarrow> bool" where
  "scalar_point p \<longleftrightarrow> p < 1114112 \<and> \<not> (55296 \<le> p \<and> p < 57344)"

lemma is_contE:
  assumes "is_cont b"
  obtains y where "b = 128 + y" "y < 64"
  using assms that [of "b - 128"] by (auto simp: is_cont_def)

lemma divmod64: "z < 64 \<Longrightarrow> (k * 64 + z) div 64 = k \<and> (k * 64 + z) mod 64 = (z :: nat)"
  by simp

lemma enc2:
  assumes "2 \<le> x" "x \<le> 31" "y < 64"
  shows "scalar_point (x * 64 + y) \<and> utf8_enc (x * 64 + y) = [192 + x, 128 + y]"
  using assms by (simp add: scalar_point_def utf8_enc_def)

lemma enc3:
  assumes "x \<le> 15" "y < 64" "z < 64" "x = 0 \<longrightarrow> 32 \<le> y" "x = 13 \<longrightarrow> y < 32"
  shows "scalar_point (x * 4096 + y * 64 + z) \<and> utf8_enc (x * 4096 + y * 64 + z) = [224 + x, 128 + y, 128 + z]"
proof -
  define p where "p = x * 4096 + y * 64 + z"
  have p1: "p = (x * 64 + y) * 64 + z" by (simp add: p_def)
  have d1: "p div 64 = x * 64 + y" "p mod 64 = z"
    unfolding p1 using divmod64 [OF assms(3)] by blast+
  then have d2: "p div 64 mod 64 = y" "p div 4096 = x"
    using assms(2) div_mult2_eq [of p 64 64] by simp_all
  have lo: "2048 \<le> p" using assms(4) by (cases "x = 0") (simp_all add: p_def)
  have hi: "p < 65536" using assms(1-3) by (simp add: p_def)
  have "\<not> (55296 \<le> p \<and> p < 57344)"
  proof
    assume h: "55296 \<le> p \<and> p < 57344"
    then have "x = 13" using assms(2,3) by (simp add: p_def)
    then show False using h assms(3,5) by (simp add: p_def)
  qed
  then show ?thesis
    unfolding p_def [symmetric] using lo hi d1 d2 by (simp add: scalar_point_def utf8_enc_def)
qed

lemma enc4:
  assumes "x \<le> 4" "y < 64" "z < 64" "w < 64" "x = 0 \<longrightarrow> 16 \<le> y" "x = 4 \<longrightarrow> y < 16"
  shows "scalar_point (x * 262144 + y * 4096 + z * 64 + w) \<and>
    utf8_enc (x * 262144 + y * 4096 + z * 64 + w) = [240 + x, 128 + y, 128 + z, 128 + w]"
proof -
  define p where "p = x * 262144 + y * 4096 + z * 64 + w"
  have p1: "p = ((x * 64 + y) * 64 + z) * 64 + w" by (simp add: p_def)
  have d1: "p div 64 = (x * 64 + y) * 64 + z" "p mod 64 = w"
    unfolding p1 using divmod64 [OF assms(4)] by blast+
  have d2: "p div 4096 = x * 64 + y" "p div 64 mod 64 = z"
    using div_mult2_eq [of p 64 64] divmod64 [OF assms(3), of "x * 64 + y"] unfolding d1 by simp_all
  have d3: "p div 262144 = x" "p div 4096 mod 64 = y"
    using assms(2) d2 div_mult2_eq [of p 4096 64] by simp_all
  have lo: "65536 \<le> p" using assms(5) by (cases "x = 0") (simp_all add: p_def)
  have "p < 1114112" using assms by (cases "x = 4") (simp_all add: p_def)
  then show ?thesis
    unfolding p_def [symmetric] using lo d1 d2 d3 by (simp add: scalar_point_def utf8_enc_def)
qed

lemma utf8_ok2: "utf8_ok (a # xs) \<Longrightarrow> 128 \<le> a \<Longrightarrow> a < 224 \<Longrightarrow>
   194 \<le> a \<and> (\<exists>b ys. xs = b # ys \<and> is_cont b \<and> utf8_ok ys)"
  by (cases xs) (auto split: if_splits)

lemma utf8_ok3: "utf8_ok (a # xs) \<Longrightarrow> 224 \<le> a \<Longrightarrow> a < 240 \<Longrightarrow>
   \<exists>b c ys. xs = b # c # ys \<and> is_cont b \<and> is_cont c \<and> (a = 224 \<longrightarrow> 160 \<le> b) \<and> (a = 237 \<longrightarrow> b < 160) \<and> utf8_ok ys"
  by (cases xs; cases "tl xs") auto

lemma utf8_ok4: "utf8_ok (a # xs) \<Longrightarrow> 240 \<le> a \<Longrightarrow>
   a \<le> 244 \<and> (\<exists>b c d ys. xs = b # c # d # ys \<and> is_cont b \<and> is_cont c \<and> is_cont d \<and>
     (a = 240 \<longrightarrow> 144 \<le> b) \<and> (a = 244 \<longrightarrow> b < 144) \<and> utf8_ok ys)"
  by (cases xs; cases "tl xs"; cases "tl (tl xs)") (auto split: if_splits)

lemma utf8_points_ok:
  "utf8_ok bs \<Longrightarrow> list_all scalar_point (utf8_points bs) \<and> concat (map utf8_enc (utf8_points bs)) = bs"
proof (induction bs rule: utf8_points.induct)
  case 1
  then show ?case by simp
next
  case (2 a xs)
  consider "a < 128" | "128 \<le> a" "a < 224" | "224 \<le> a" "a < 240" | "240 \<le> a"
    by linarith
  then show ?case
  proof cases
    case 1
    then show ?thesis using "2.IH"(1) "2.prems" by (simp add: scalar_point_def utf8_enc_def)
  next
    case 2
    obtain b ys where xs: "194 \<le> a" "xs = b # ys" "is_cont b" "utf8_ok ys"
      using utf8_ok2 [OF "2.prems" 2] by blast
    obtain y where y: "b = 128 + y" "y < 64" using xs(3) by (rule is_contE)
    have x: "a = 192 + (a - 192)" using xs(1) by simp
    then show ?thesis using "2.IH"(2) 2 xs y enc2 [of "a - 192" y] by simp
  next
    case 3
    obtain b c ys where xs: "xs = b # c # ys" "is_cont b" "is_cont c" "utf8_ok ys"
      "a = 224 \<longrightarrow> 160 \<le> b" "a = 237 \<longrightarrow> b < 160"
      using utf8_ok3 [OF "2.prems" 3] by blast
    obtain y where y: "b = 128 + y" "y < 64" using xs(2) by (rule is_contE)
    obtain z where z: "c = 128 + z" "z < 64" using xs(3) by (rule is_contE)
    obtain x where x: "a = 224 + x" using 3(1) le_Suc_ex by blast
    show ?thesis using "2.IH"(3) 3 xs y z x enc3 [of x y z] by simp
  next
    case 4
    obtain b c d ys where xs: "xs = b # c # d # ys" "is_cont b" "is_cont c" "is_cont d" "utf8_ok ys"
      "a = 240 \<longrightarrow> 144 \<le> b" "a = 244 \<longrightarrow> b < 144" "a \<le> 244"
      using utf8_ok4 [OF "2.prems" 4] by blast
    obtain y where y: "b = 128 + y" "y < 64" using xs(2) by (rule is_contE)
    obtain z where z: "c = 128 + z" "z < 64" using xs(3) by (rule is_contE)
    obtain w where w: "d = 128 + w" "w < 64" using xs(4) by (rule is_contE)
    obtain x where x: "a = 240 + x" using 4 le_Suc_ex by blast
    show ?thesis using "2.IH"(4) 4 xs y z w x enc4 [of x y z w] by simp
  qed
qed

lemma scan_str_points:
  "list_all scalar_point ps \<Longrightarrow>
   scan_str (concat (map esc_point ps) @ dquote # r) = Some (concat (map point_str ps), r)"
proof (induction ps)
  case (Cons p ps)
  then show ?case
    using scan_str_esc_point [of p "concat (map esc_point ps) @ dquote # r"]
    by (simp add: scalar_point_def)
qed simp

definition str_body :: "string \<Rightarrow> string" where
  "str_body s = concat (map esc_point (utf8_points (map code s))) @ [dquote]"

lemma scan_dumps_str:
  assumes "utf8_ok (map code s)"
  shows "scan_str (str_body s @ r) = Some (s, r)"
proof -
  let ?ps = "utf8_points (map code s)"
  have ps: "list_all scalar_point ?ps" "concat (map utf8_enc ?ps) = map code s"
    using utf8_points_ok [OF assms] by simp_all
  have "concat (map point_str ?ps) = map char_of (concat (map utf8_enc ?ps))"
    by (simp add: point_str_def [abs_def] map_concat comp_def)
  also have "\<dots> = s" by (simp add: ps(2) comp_def)
  finally show ?thesis
    using scan_str_points [OF ps(1), of r] by (simp add: str_body_def)
qed

lemma dumps_str_body: "dumps_str s = dquote # str_body s"
  by (simp add: dumps_str_def str_body_def)


section \<open>Numbers survive the round trip\<close>

text \<open>What may follow a value: the end of the input, a comma or a closing bracket.\<close>

definition stop :: "string \<Rightarrow> bool" where
  "stop r \<longleftrightarrow> r = [] \<or> hd r \<in> {CHR '','', CHR '']'', CHR ''}''}"

lemma stop_simps [simp]: "stop []" "stop (CHR '','' # r)" "stop (CHR '']'' # r)" "stop (CHR ''}'' # r)"
  by (simp_all add: stop_def)

lemma stop_Cons: "stop (c # r) \<Longrightarrow> c \<in> {CHR '','', CHR '']'', CHR ''}''}"
  by (simp add: stop_def)

lemma stop_not_digit: "stop (c # r) \<Longrightarrow> \<not> is_digit c"
  by (auto simp: is_digit_def dest!: stop_Cons)

lemma while_digit_app:
  assumes "stop r"
  shows "takeWhile is_digit (a @ r) = takeWhile is_digit a"
    and "dropWhile is_digit (a @ r) = dropWhile is_digit a @ r"
proof -
  have "takeWhile is_digit r = [] \<and> dropWhile is_digit r = r"
    using assms stop_not_digit by (cases r) auto
  then show "takeWhile is_digit (a @ r) = takeWhile is_digit a"
    and "dropWhile is_digit (a @ r) = dropWhile is_digit a @ r"
    by (induction a) auto
qed

lemma scan_frac_app:
  assumes "stop r"
  shows "scan_frac (b @ r) = (fst (scan_frac b), snd (scan_frac b) @ r)"
proof (cases b)
  case Nil
  then show ?thesis using assms by (cases r; cases "tl r") (auto simp: scan_frac_def dest: stop_Cons)
next
  case (Cons p b')
  show ?thesis
  proof (cases b')
    case Nil
    then show ?thesis using assms Cons stop_not_digit by (cases r) (auto simp: scan_frac_def)
  next
    case (Cons q b'')
    then show ?thesis using \<open>b = p # b'\<close> 
      by (simp add: scan_frac_def while_digit_app [OF assms])
  qed
qed

lemma scan_sign_app:
  assumes "stop r"
  shows "scan_sign (b @ r) = (fst (scan_sign b), snd (scan_sign b) @ r)"
  using assms by (cases b; cases r) (auto simp: scan_sign_def dest: stop_Cons)

lemma scan_exp_app:
  assumes "stop r"
  shows "scan_exp (b @ r) = (fst (scan_exp b), snd (scan_exp b) @ r)"
proof (cases b)
  case Nil
  then show ?thesis using assms by (cases r) (auto simp: scan_exp_def dest: stop_Cons)
next
  case (Cons p b')
  obtain sg t where st: "scan_sign b' = (sg, t)" by (cases "scan_sign b'")
  then have sr: "scan_sign (b' @ r) = (sg, t @ r)" by (simp add: scan_sign_app [OF assms])
  show ?thesis
  proof (cases t)
    case Nil
    then show ?thesis using Cons st sr assms stop_not_digit
      by (cases r) (auto simp: scan_exp_def)
  next
    case (Cons q t')
    then show ?thesis using \<open>b = p # b'\<close> st sr
      by (simp add: scan_exp_def while_digit_app [OF assms])
  qed
qed

lemma scan_unsigned_app:
  assumes "scan_unsigned s = Some (lit, suf, t)" and "stop r"
  shows "scan_unsigned (s @ r) = Some (lit, suf, t @ r)"
proof (cases s)
  case Nil
  then show ?thesis using assms(1) by (simp add: scan_unsigned_def)
next
  case (Cons c cs)
  then show ?thesis using assms(1)
    by (simp add: scan_unsigned_def Let_def while_digit_app [OF assms(2)] scan_frac_app [OF assms(2)]
        scan_exp_app [OF assms(2)] split: if_splits)
qed

lemma scan_num_app:
  assumes "scan_num s = Some (lit, suf, t)" and "stop r"
  shows "scan_num (s @ r) = Some (lit, suf, t @ r)"
proof (cases s)
  case Nil
  then show ?thesis using assms(1) by (simp add: scan_num_def scan_unsigned_def)
next
  case (Cons c cs)
  then show ?thesis
    using assms scan_unsigned_app [OF _ assms(2), of cs] scan_unsigned_app [OF _ assms(2), of s]
    by (auto simp: scan_num_def split: if_splits)
qed

lemma dec_nat_0: "dec_nat 0 = ''0''"
  by code_simp

lemma dec_nat_hd_zero: "hd (dec_nat n) = CHR ''0'' \<Longrightarrow> n = 0"
proof (induction n rule: dec_nat.induct)
  case (1 n)
  show ?case
  proof (cases "n < 10")
    case True
    have "code (hd (dec_nat n)) = 48 + n" using True by (simp add: dec_nat.simps dec_digit_code)
    then show ?thesis using "1.prems" by simp
  next
    case False
    then have "hd (dec_nat n) = hd (dec_nat (n div 10))"
      by (subst dec_nat.simps) simp
    then show ?thesis using "1.IH" "1.prems" False by simp
  qed
qed

lemma dec_nat_all_digits: "list_all is_digit (dec_nat n)"
  by (auto simp: list_all_iff is_digit_def dest: dec_nat_chars)

lemma scan_frac_Nil [simp]: "scan_frac [] = ([], [])" and scan_exp_Nil [simp]: "scan_exp [] = ([], [])"
  by (simp_all add: scan_frac_def scan_exp_def)

lemma scan_unsigned_dec_nat: "scan_unsigned (dec_nat n) = Some (dec_nat n, [], [])"
proof -
  obtain c cs where d: "dec_nat n = c # cs" by (cases "dec_nat n") auto
  have dig: "is_digit c" "list_all is_digit cs" using dec_nat_all_digits [of n] d by simp_all
  have all: "takeWhile is_digit cs = cs" "dropWhile is_digit cs = []"
    using dig by (simp_all add: list_all_iff)
  have "c = CHR ''0'' \<Longrightarrow> cs = []"
    using dec_nat_hd_zero [of n] d dec_nat_0 by auto
  then show ?thesis
    using dig(1) by (simp add: scan_unsigned_def d Let_def all)
qed

lemma dec_nat_take1: "take (Suc 0) (dec_nat n) \<noteq> ''-''"
  using dec_nat_all_digits [of n] by (cases "dec_nat n") (auto simp: is_digit_def)

lemma scan_num_int: "scan_num (py_str_int i) = Some (py_str_int i, [], [])"
  by (simp add: py_str_int_def scan_num_def scan_unsigned_dec_nat dec_nat_take1)


section \<open>Values survive the round trip\<close>

text \<open>
  The values \<open>loads\<close> can produce from their own text: strings are valid UTF-8, the
  keys of an object are distinct, and a float's \<open>repr\<close> is a float literal that
  the conversion \<open>fl\<close> maps back to the same float.
\<close>

fun wf_json :: "(string \<Rightarrow> json) \<Rightarrow> json \<Rightarrow> bool" where
  "wf_json fl (JFloat i r) =
     (fl r = JFloat i r \<and>
      (case scan_num r of None \<Rightarrow> False | Some (lit, suf, t) \<Rightarrow> lit @ suf = r \<and> suf \<noteq> [] \<and> t = []))"
| "wf_json fl (JNonFinite t) = (t \<in> {''NaN'', ''Infinity'', ''-Infinity''})"
| "wf_json fl (JStr s) = utf8_ok (map code s)"
| "wf_json fl (JList xs) = list_all (wf_json fl) xs"
| "wf_json fl (JObj kvs) =
     (distinct (map fst kvs) \<and> list_all (\<lambda>(k, v). utf8_ok (map code k) \<and> wf_json fl v) kvs)"
| "wf_json fl _ = True"

fun fuel_of :: "json \<Rightarrow> nat" where
  "fuel_of (JList xs) = 1 + sum_list (map (\<lambda>x. 1 + fuel_of x) xs)"
| "fuel_of (JObj kvs) = 1 + sum_list (map (\<lambda>(k, v). 1 + fuel_of v) kvs)"
| "fuel_of _ = 1"

lemma scan_num_hd: "scan_num s = Some x \<Longrightarrow> s \<noteq> [] \<and> (is_digit (hd s) \<or> hd s = CHR ''-'' \<and> tl s \<noteq> [] \<and> is_digit (hd (tl s)))"
  by (cases s; cases "tl s")
    (auto simp: scan_num_def scan_unsigned_def split: if_splits)

text \<open>A number token opens with a digit, or a minus sign and a digit.\<close>

lemma pval_number:
  assumes "scan_num s = Some (lit, suf, [])" and "stop r"
  shows "pval fl (Suc n) (s @ r) =
    (if suf = [] then map_option (\<lambda>i. (JInt i, r)) (py_int lit) else Some (fl (lit @ suf), r))"
proof -
  note h = scan_num_hd [OF assms(1)]
  obtain c cs where s: "s = c # cs" using h by (cases s) auto
  have c: "is_digit c \<or> c = CHR ''-'' \<and> cs \<noteq> [] \<and> is_digit (hd cs)" using h s by simp
  then have "c \<noteq> dquote" "c \<noteq> CHR ''{''" "c \<noteq> CHR ''[''" "c \<noteq> CHR ''n''" "c \<noteq> CHR ''t''"
    "c \<noteq> CHR ''f''" "c \<noteq> CHR ''N''" "c \<noteq> CHR ''I''" "\<not> prefix ''-Infinity'' (s @ r)"
    by (auto simp: is_digit_def dquote_def s neq_Nil_conv)
  then show ?thesis
    using scan_num_app [OF assms] by (auto simp: s)
qed

definition opens_value :: "char \<Rightarrow> bool" where
  "opens_value c \<longleftrightarrow> \<not> is_json_ws c \<and> c \<noteq> CHR '']'' \<and> c \<noteq> CHR ''}''"

lemma opens_value_digit: "is_digit c \<or> c = CHR ''-'' \<Longrightarrow> opens_value c"
  by (auto simp: opens_value_def is_json_ws_def is_digit_def)

lemma dumps_hd: "wf_json fl v \<Longrightarrow> dumps opt v \<noteq> [] \<and> opens_value (hd (dumps opt v))"
proof (cases v)
  case (JInt i)
  have "hd (py_str_int i) \<in> set (py_str_int i)" by simp
  then have "is_digit (hd (py_str_int i)) \<or> hd (py_str_int i) = CHR ''-''"
    using py_str_int_chars is_digit_def by blast
  then show ?thesis using JInt opens_value_digit by simp
next
  case (JFloat i r)
  assume "wf_json fl v"
  then obtain x where "scan_num r = Some x" using JFloat by (auto split: option.splits)
  from scan_num_hd [OF this] show ?thesis using JFloat opens_value_digit by auto
next
  case (JNonFinite t)
  assume "wf_json fl v"
  then have "t = ''NaN'' \<or> t = ''Infinity'' \<or> t = ''-Infinity''" using JNonFinite by simp
  then show ?thesis using JNonFinite by (elim disjE) (simp_all add: opens_value_def is_json_ws_def)
qed (simp_all add: opens_value_def is_json_ws_def dumps_str_def dquote_def)

lemma dict_put_append: "k \<notin> fst ` set d \<Longrightarrow> dict_put k v d = d @ [(k, v)]"
  by (induction d) auto

lemma dict_of_pairs_distinct_aux:
  "distinct (map fst (d @ kvs)) \<Longrightarrow> foldl (\<lambda>d (k, v). dict_put k v d) d kvs = d @ kvs"
proof (induction kvs arbitrary: d)
  case (Cons kv kvs)
  obtain k v where kv: "kv = (k, v)" by (cases kv)
  have "dict_put k v d = d @ [(k, v)]"
    using Cons.prems kv by (intro dict_put_append) auto
  then show ?case using Cons.IH [of "d @ [(k, v)]"] Cons.prems kv by simp
qed simp

lemma dict_of_pairs_distinct: "distinct (map fst kvs) \<Longrightarrow> dict_of_pairs kvs = kvs"
  using dict_of_pairs_distinct_aux [of "[]" kvs] by (simp add: dict_of_pairs_def)


definition reads_back :: "(string \<Rightarrow> json) \<Rightarrow> json \<Rightarrow> bool" where
  "reads_back fl v \<longleftrightarrow>
     (\<forall>n r. fuel_of v \<le> n \<longrightarrow> stop r \<longrightarrow> pval fl n (dumps default_opts v @ r) = Some (v, r))"

lemma reads_backD:
  "reads_back fl v \<Longrightarrow> fuel_of v \<le> n \<Longrightarrow> stop r \<Longrightarrow> pval fl n (dumps default_opts v @ r) = Some (v, r)"
  by (simp add: reads_back_def)

lemma skip_ws_opens: "s \<noteq> [] \<Longrightarrow> opens_value (hd s) \<Longrightarrow> skip_ws (s @ r) = s @ r"
  by (cases s) (auto simp: opens_value_def)

lemma ws_punct [simp]:
  "\<not> is_json_ws (CHR '','')" "\<not> is_json_ws (CHR '']'')" "\<not> is_json_ws (CHR ''}'')"
  "\<not> is_json_ws (CHR '':'')" "is_json_ws (CHR '' '')"
  by (simp_all add: is_json_ws_def)

lemma join_Cons: "join sep (x # xs) = x @ (if xs = [] then [] else sep @ join sep xs)"
  by (cases xs) auto

lemma opt_simps [simp]:
  "item_sep default_opts = '', ''" "key_sep default_opts = '': ''" "sort_keys default_opts = False"
  by (simp_all add: default_opts_def)

text \<open>A text that opens with a value survives \<open>skip_ws\<close>.\<close>

lemma skip_ws_join:
  assumes "xs \<noteq> []" and "hd xs \<noteq> []" and "opens_value (hd (hd xs))"
  shows "skip_ws (join sep xs @ r) = join sep xs @ r"
  using assms by (cases xs) (auto simp: join_Cons append_assoc [symmetric] skip_ws_opens simp del: append_assoc)

lemma pitems_dumps:
  assumes "xs \<noteq> []" and "\<forall>x \<in> set xs. wf_json fl x \<and> reads_back fl x"
    and "sum_list (map (\<lambda>x. 1 + fuel_of x) xs) \<le> n"
  shows "pitems fl n (join '', '' (map (dumps default_opts) xs) @ CHR '']'' # r) = Some (xs, r)"
  using assms
proof (induction xs arbitrary: n)
  case (Cons x xs)
  obtain m where n: "n = Suc m" using Cons.prems(3) by (cases n) auto
  have x: "reads_back fl x" "fuel_of x \<le> m" using Cons.prems n by simp_all
  show ?case
  proof (cases "xs = []")
    case True
    then show ?thesis using reads_backD [OF x, of "CHR '']'' # r"] n by simp
  next
    case False
    let ?J = "join '', '' (map (dumps default_opts) xs)"
    have "skip_ws (?J @ CHR '']'' # r) = ?J @ CHR '']'' # r"
      using False Cons.prems(2) dumps_hd [of fl "hd xs"] by (intro skip_ws_join) (auto simp: hd_map)
    moreover have "pitems fl m (?J @ CHR '']'' # r) = Some (xs, r)"
      using Cons.IH [of m] False Cons.prems n by simp
    ultimately show ?thesis
      using False n reads_backD [OF x, of "'', '' @ ?J @ CHR '']'' # r"] by (simp add: join_Cons)
  qed
qed simp

definition member_text :: "string \<times> json \<Rightarrow> string" where
  "member_text kv = dumps_str (fst kv) @ '': '' @ dumps default_opts (snd kv)"

lemma member_text_hd [simp]: "member_text kv \<noteq> []" "hd (member_text kv) = dquote"
  by (simp_all add: member_text_def dumps_str_def)

lemma opens_dquote [simp]: "opens_value dquote"
  by (simp add: opens_value_def dquote_def is_json_ws_def)

lemma pmembers_dumps:
  assumes "kvs \<noteq> []"
    and "\<forall>kv \<in> set kvs. utf8_ok (map code (fst kv)) \<and> wf_json fl (snd kv) \<and> reads_back fl (snd kv)"
    and "sum_list (map (\<lambda>(k, v). 1 + fuel_of v) kvs) \<le> n"
  shows "pmembers fl n (join '', '' (map member_text kvs) @ CHR ''}'' # r) = Some (kvs, r)"
  using assms
proof (induction kvs arbitrary: n)
  case (Cons kv kvs)
  obtain k v where kv: "kv = (k, v)" by (cases kv)
  obtain m where n: "n = Suc m" using Cons.prems(3) kv by (cases n) auto
  have v: "reads_back fl v" "fuel_of v \<le> m" "wf_json fl v" using Cons.prems n kv by simp_all
  have k: "scan_str (str_body k @ q) = Some (k, q)" for q
    using Cons.prems(2) kv by (simp add: scan_dumps_str)
  have ws: "skip_ws (dumps default_opts v @ q) = dumps default_opts v @ q" for q
    using dumps_hd [OF v(3)] by (simp add: skip_ws_opens)
  show ?case
  proof (cases "kvs = []")
    case True
    then show ?thesis
      using n kv k ws reads_backD [OF v(1,2), of "CHR ''}'' # r"]
      by (simp add: member_text_def dumps_str_body)
  next
    case False
    let ?J = "join '', '' (map member_text kvs)"
    have "skip_ws (?J @ CHR ''}'' # r) = ?J @ CHR ''}'' # r"
      using False by (intro skip_ws_join) (simp_all add: hd_map)
    moreover have "pmembers fl m (?J @ CHR ''}'' # r) = Some (kvs, r)"
      using Cons.IH [of m] False Cons.prems n kv by simp
    ultimately show ?thesis
      using False n kv k ws reads_backD [OF v(1,2), of "'', '' @ ?J @ CHR ''}'' # r"]
      by (simp add: join_Cons member_text_def [of "(k, v)"] dumps_str_body)
  qed
qed simp

lemma dumps_JObj: "dumps default_opts (JObj kvs) = ''{'' @ join '', '' (map member_text kvs) @ ''}''"
proof -
  have "map (\<lambda>(k, t). dumps_str k @ '': '' @ t) (map (\<lambda>(k, v). (k, dumps default_opts v)) kvs) = map member_text kvs"
    by (auto simp: member_text_def)
  then show ?thesis by (simp add: order_items_def del: map_map)
qed


lemma reads_back_scalar:
  assumes "wf_json fl v" and "\<And>n r. stop r \<Longrightarrow> pval fl (Suc n) (dumps default_opts v @ r) = Some (v, r)"
    and "fuel_of v = 1"
  shows "reads_back fl v"
  unfolding reads_back_def
proof (intro allI impI)
  fix n r
  assume "fuel_of v \<le> n" "stop r"
  then show "pval fl n (dumps default_opts v @ r) = Some (v, r)"
    using assms(2) [of r "n - 1"] assms(3) by simp
qed

lemma reads_back_wf: "wf_json fl v \<Longrightarrow> reads_back fl v"
proof (induction v)
  case JNull
  then show ?case by (intro reads_back_scalar) (simp_all add: dquote_def)
next
  case (JBool b)
  then show ?case by (intro reads_back_scalar) (simp_all add: dquote_def)
next
  case (JInt i)
  then show ?case
    using pval_number [OF scan_num_int] by (intro reads_back_scalar) simp_all
next
  case (JFloat i r)
  obtain lit suf where n: "scan_num r = Some (lit, suf, [])" "lit @ suf = r" "suf \<noteq> []" "fl r = JFloat i r"
    using JFloat by (auto split: option.splits)
  show ?case
    using pval_number [OF n(1)] n JFloat by (intro reads_back_scalar) simp_all
next
  case (JNonFinite t)
  then have "t = ''NaN'' \<or> t = ''Infinity'' \<or> t = ''-Infinity''" by simp
  with JNonFinite show ?case by (intro reads_back_scalar) (auto simp: dquote_def)
next
  case (JStr s)
  then show ?case
    by (intro reads_back_scalar) (simp_all add: dumps_str_body scan_dumps_str)
next
  case (JList xs)
  have wf: "\<forall>x \<in> set xs. wf_json fl x \<and> reads_back fl x"
    using JList by (auto simp: list_all_iff)
  show ?case
    unfolding reads_back_def
  proof (intro allI impI)
    fix n r
    assume f: "fuel_of (JList xs) \<le> n" and "stop r"
    then obtain m where n: "n = Suc m" by (cases n) auto
    show "pval fl n (dumps default_opts (JList xs) @ r) = Some (JList xs, r)"
    proof (cases "xs = []")
      case True
      then show ?thesis by (simp add: n dquote_def)
    next
      case False
      let ?J = "join '', '' (map (dumps default_opts) xs)"
      have hd: "dumps default_opts (hd xs) \<noteq> []" "opens_value (hd (dumps default_opts (hd xs)))"
        using dumps_hd [of fl "hd xs"] wf False by auto
      have "skip_ws (?J @ CHR '']'' # r) = ?J @ CHR '']'' # r"
        using False hd by (intro skip_ws_join) (simp_all add: hd_map)
      moreover have "take 1 (?J @ CHR '']'' # r) \<noteq> '']''"
        using False hd by (cases xs; cases "dumps default_opts (hd xs)") (auto simp: join_Cons opens_value_def)
      ultimately show ?thesis
        using pitems_dumps [OF False wf, of m r] f by (simp add: n dquote_def)
    qed
  qed
next
  case (JObj kvs)
  have wf: "\<forall>kv \<in> set kvs. utf8_ok (map code (fst kv)) \<and> wf_json fl (snd kv) \<and> reads_back fl (snd kv)"
    using JObj by (fastforce simp: list_all_iff)
  have d: "dict_of_pairs kvs = kvs" using JObj.prems by (simp add: dict_of_pairs_distinct)
  show ?case
    unfolding reads_back_def
  proof (intro allI impI)
    fix n r
    assume f: "fuel_of (JObj kvs) \<le> n" and "stop r"
    then obtain m where n: "n = Suc m" by (cases n) auto
    show "pval fl n (dumps default_opts (JObj kvs) @ r) = Some (JObj kvs, r)"
    proof (cases "kvs = []")
      case True
      then show ?thesis by (simp add: order_items_def n dquote_def)
    next
      case False
      let ?J = "join '', '' (map member_text kvs)"
      have "skip_ws (?J @ CHR ''}'' # r) = ?J @ CHR ''}'' # r"
        using False by (intro skip_ws_join) (simp_all add: hd_map)
      moreover have "take 1 (?J @ CHR ''}'' # r) \<noteq> ''}''"
        using False by (cases kvs) (simp_all add: join_Cons member_text_def [of "hd kvs"] member_text_def dumps_str_body dquote_def)
      ultimately show ?thesis
        using pmembers_dumps [OF False wf, of m r] f d by (simp add: dumps_JObj n dquote_def del: dumps.simps)
    qed
  qed
qed


lemma length_join: "sum_list (map length ys) \<le> length (join sep ys)"
  by (induction ys) (auto simp: join_Cons)

lemma fuel_of_bound: "wf_json fl v \<Longrightarrow> fuel_of v + 1 \<le> 2 * length (dumps default_opts v)"
proof (induction v)
  case (JList xs)
  have "sum_list (map (\<lambda>x. 1 + fuel_of x) xs) \<le> sum_list (map (\<lambda>x. 2 * length (dumps default_opts x)) xs)"
  proof (rule sum_list_mono)
    fix x assume x: "x \<in> set xs"
    then have "wf_json fl x" using JList.prems by (simp add: list_all_iff)
    from JList.IH [OF x this] show "1 + fuel_of x \<le> 2 * length (dumps default_opts x)" by simp
  qed
  then show ?case
    using length_join [of "map (dumps default_opts) xs" "'', ''"]
    by (simp add: comp_def sum_list_const_mult)
next
  case (JObj kvs)
  have "sum_list (map (\<lambda>(k, v). 1 + fuel_of v) kvs) \<le> sum_list (map (\<lambda>kv. 2 * length (member_text kv)) kvs)"
  proof (rule sum_list_mono)
    fix kv assume kv: "kv \<in> set kvs"
    obtain k v where p: "kv = (k, v)" by (cases kv)
    have "wf_json fl v" using JObj.prems kv p by (auto simp: list_all_iff)
    from JObj.IH [OF kv _ this] have "fuel_of (snd kv) + 1 \<le> 2 * length (dumps default_opts (snd kv))"
      by (simp add: p)
    then show "(case kv of (k, v) \<Rightarrow> 1 + fuel_of v) \<le> 2 * length (member_text kv)"
      by (cases kv) (simp add: member_text_def)
  qed
  then show ?case
    using length_join [of "map member_text kvs" "'', ''"]
    by (simp add: comp_def sum_list_const_mult dumps_JObj del: dumps.simps)
next
  case (JFloat i r)
  have "r \<noteq> []" using dumps_hd [OF JFloat, of default_opts] by (simp only: dumps.simps) simp
  then have "1 \<le> length r" by (simp add: Suc_leI)
  then show ?case by simp
next
  case (JInt i)
  have "1 \<le> length (py_str_int i)" by (simp add: Suc_leI)
  then show ?case by simp
next
  case (JNonFinite t)
  then have "t = ''NaN'' \<or> t = ''Infinity'' \<or> t = ''-Infinity''" by simp
  then show ?case by (elim disjE) simp_all
qed (simp_all add: dumps_str_body)

theorem loads_dumps:
  assumes "wf_json fl v"
  shows "loads fl (dumps default_opts v) = Some v"
proof -
  let ?s = "dumps default_opts v"
  have "skip_ws ?s = ?s"
    using dumps_hd [OF assms, of default_opts] skip_ws_opens [of ?s "[]"] by simp
  moreover have "pval fl (2 * length ?s + 2) ?s = Some (v, [])"
    using reads_backD [OF reads_back_wf [OF assms], of "2 * length ?s + 2" "[]"] fuel_of_bound [OF assms]
    by simp
  ultimately show ?thesis by (simp add: loads_def)
qed

section \<open>Canonical text does not depend on insertion order\<close>

text \<open>
  With \<open>sort_keys\<close> two dictionaries with the same entries have the same text,
  whatever order the entries were inserted in.
\<close>

lemma filter_key_distinct:
  "distinct (map fst zs) \<Longrightarrow> k \<in> set zs \<Longrightarrow> filter (\<lambda>x. fst k = fst x) zs = [k]"
  by (induction zs) (auto simp: filter_empty_conv rev_image_eqI)

lemma sort_key_perm:
  assumes "distinct (map fst xs)" and "mset xs = mset ys"
  shows "sort_key fst xs = sort_key fst ys"
proof (rule properties_for_sort_key)
  show "mset (sort_key fst ys) = mset xs" using assms(2) by simp
  show "sorted (map fst (sort_key fst ys))" by simp
  fix k
  assume k: "k \<in> set (sort_key fst ys)"
  have "distinct (map fst (sort_key fst ys))"
    using assms by (metis mset_eq_imp_distinct_iff mset_map mset_sort)
  moreover have "k \<in> set xs"
    using assms(2) k by (metis mset_eq_setD set_sort)
  ultimately show "filter (\<lambda>x. fst k = fst x) (sort_key fst ys) = filter (\<lambda>x. fst k = fst x) xs"
    using assms(1) k by (simp add: filter_key_distinct)
qed

lemma canonical_insertion_order:
  assumes "distinct (map fst kvs)" and "mset kvs = mset kvs'"
  shows "dumps canonical_opts (JObj kvs) = dumps canonical_opts (JObj kvs')"
proof -
  let ?f = "\<lambda>(k, v). (k, dumps canonical_opts v)"
  have "map fst (map ?f kvs) = map fst kvs" by (auto simp: comp_def split_def)
  then have "sort_key fst (map ?f kvs) = sort_key fst (map ?f kvs')"
    using assms by (intro sort_key_perm) (simp_all add: comp_def split_def)
  then show ?thesis by (simp add: canonical_opts_def order_items_def)
qed

end
