(* ===== verification/Cb_Errors.thy ===== *)
theory Cb_Errors
  imports Py_Json
begin

text \<open>
  The broker's error hierarchy (\<open>credbroker/errors.py\<close>) and the exceptions of
  the language and of the libraries that the source catches or lets through.
  Catching by class is a predicate on exceptions, one per class the source names
  in an \<open>except\<close> clause.
\<close>

section \<open>credbroker.errors\<close>

datatype error_class =
    CredBrokerError
  | UnknownAgentError
  | UnknownToolError
  | PolicyDeniedError
  | GrantScopeMismatchError
  | NoConnectedAccountError
  | ConcurrencyLimitError
  | RateLimitedError
  | GrantNotFoundError
  | GrantExpiredError
  | GrantRevokedError
  | GrantTokenInvalidError
  | IdempotencyConflictError
  | ProviderUnavailableError
  | ProviderCallError
  | OAuthFlowError

text \<open>The status codes of gRPC the servicer and its generated base class answer with.\<close>

datatype grpc_code =
    NOT_FOUND | PERMISSION_DENIED | FAILED_PRECONDITION | RESOURCE_EXHAUSTED
  | INVALID_ARGUMENT | INTERNAL | UNAVAILABLE | UNIMPLEMENTED

text \<open>
  An exception.  \<open>Broker\<close> is an instance of a class of \<open>credbroker.errors\<close> with its
  message and, for \<open>ProviderCallError\<close>, its status code.  \<open>OtherException\<close> is any
  further subclass of \<open>Exception\<close>, by type name and message; \<open>CancelledError\<close> is the
  one exception of the model that is not a subclass of \<open>Exception\<close>.
\<close>

datatype exn =
    Broker error_class string "int option"
  | ValueError string
  | UnicodeDecodeError
  | JSONDecodeError
  | TypeError string
  | KeyError string
  | AttributeError string
  | OverflowError string
  | ClientError string
  | TimeoutException string
  | TransportError string
  | OtherHTTPError string
  | ExpiredSignatureError
  | PyJWTError string
  | HTTPException int string
  | AbortError grpc_code string
  | OtherException string string
  | CancelledError

abbreviation broker_error :: "error_class \<Rightarrow> string \<Rightarrow> exn" where
  "broker_error c msg \<equiv> Broker c msg None"

section \<open>Classes and messages\<close>

fun is_Exception :: "exn \<Rightarrow> bool" where
  "is_Exception CancelledError = False"
| "is_Exception _ = True"

fun is_ValueError :: "exn \<Rightarrow> bool" where
  "is_ValueError (ValueError _) = True"
| "is_ValueError UnicodeDecodeError = True"
| "is_ValueError JSONDecodeError = True"
| "is_ValueError _ = False"

fun is_ClientError :: "exn \<Rightarrow> bool" where
  "is_ClientError (ClientError _) = True"
| "is_ClientError _ = False"

text \<open>\<open>httpx.TimeoutException\<close> is a subclass of \<open>httpx.TransportError\<close>, itself one of \<open>httpx.HTTPError\<close>.\<close>

fun is_TimeoutException :: "exn \<Rightarrow> bool" where
  "is_TimeoutException (TimeoutException _) = True"
| "is_TimeoutException _ = False"

fun is_TransportError :: "exn \<Rightarrow> bool" where
  "is_TransportError (TimeoutException _) = True"
| "is_TransportError (TransportError _) = True"
| "is_TransportError _ = False"

fun is_HTTPError :: "exn \<Rightarrow> bool" where
  "is_HTTPError (OtherHTTPError _) = True"
| "is_HTTPError e = is_TransportError e"

fun is_PyJWTError :: "exn \<Rightarrow> bool" where
  "is_PyJWTError (PyJWTError _) = True"
| "is_PyJWTError ExpiredSignatureError = True"
| "is_PyJWTError _ = False"

fun is_CredBrokerError :: "exn \<Rightarrow> bool" where
  "is_CredBrokerError (Broker _ _ _) = True"
| "is_CredBrokerError _ = False"

fun broker_class :: "exn \<Rightarrow> error_class option" where
  "broker_class (Broker c _ _) = Some c"
| "broker_class _ = None"

fun status_code :: "exn \<Rightarrow> int option" where
  "status_code (Broker _ _ sc) = sc"
| "status_code _ = None"

text \<open>\<open>str(exc)\<close>.\<close>

fun exn_str :: "exn \<Rightarrow> string" where
  "exn_str (Broker _ m _) = m"
| "exn_str (ValueError m) = m"
| "exn_str UnicodeDecodeError = ''utf-8 codec can't decode bytes''"
| "exn_str JSONDecodeError = ''Expecting value''"
| "exn_str (TypeError m) = m"
| "exn_str (KeyError m) = m"
| "exn_str (AttributeError m) = m"
| "exn_str (OverflowError m) = m"
| "exn_str (ClientError m) = m"
| "exn_str (TimeoutException m) = m"
| "exn_str (TransportError m) = m"
| "exn_str (OtherHTTPError m) = m"
| "exn_str ExpiredSignatureError = ''Signature has expired''"
| "exn_str (PyJWTError m) = m"
| "exn_str (HTTPException c d) = py_str_int c @ '': '' @ d"
| "exn_str (AbortError _ d) = d"
| "exn_str (OtherException _ m) = m"
| "exn_str CancelledError = ''''"

text \<open>\<open>type(exc).__name__\<close> of the classes of \<open>credbroker.errors\<close>.\<close>

fun class_name :: "error_class \<Rightarrow> string" where
  "class_name CredBrokerError = ''CredBrokerError''"
| "class_name UnknownAgentError = ''UnknownAgentError''"
| "class_name UnknownToolError = ''UnknownToolError''"
| "class_name PolicyDeniedError = ''PolicyDeniedError''"
| "class_name GrantScopeMismatchError = ''GrantScopeMismatchError''"
| "class_name NoConnectedAccountError = ''NoConnectedAccountError''"
| "class_name ConcurrencyLimitError = ''ConcurrencyLimitError''"
| "class_name RateLimitedError = ''RateLimitedError''"
| "class_name GrantNotFoundError = ''GrantNotFoundError''"
| "class_name GrantExpiredError = ''GrantExpiredError''"
| "class_name GrantRevokedError = ''GrantRevokedError''"
| "class_name GrantTokenInvalidError = ''GrantTokenInvalidError''"
| "class_name IdempotencyConflictError = ''IdempotencyConflictError''"
| "class_name ProviderUnavailableError = ''ProviderUnavailableError''"
| "class_name ProviderCallError = ''ProviderCallError''"
| "class_name OAuthFlowError = ''OAuthFlowError''"

end
