(* ===== verification/Cb_Values.thy ===== *)
theory Cb_Values
  imports Cb_Errors
begin

text \<open>
  Conversions of dynamically typed values: \<open>repr(v)\<close>, \<open>str(v)\<close> and \<open>int(v)\<close> of a
  value parsed from JSON, and \<open>uuid.UUID(v)\<close>.
\<close>

fun json_repr :: "json \<Rightarrow> string" where
  "json_repr JNull = ''None''"
| "json_repr (JBool b) = (if b then ''True'' else ''False'')"
| "json_repr (JInt i) = py_str_int i"
| "json_repr (JFloat i r) = r"
| "json_repr (JNonFinite t) = (if t = ''NaN'' then ''nan'' else if t = ''Infinity'' then ''inf'' else ''-inf'')"
| "json_repr (JStr s) = py_repr s"
| "json_repr (JList xs) = ''['' @ join '', '' (map json_repr xs) @ '']''"
| "json_repr (JObj kvs) = ''{'' @ join '', '' (map (\<lambda>(k, v). py_repr k @ '': '' @ json_repr v) kvs) @ ''}''"

definition json_str :: "json \<Rightarrow> string" where
  "json_str v = (case v of JStr s \<Rightarrow> s | _ \<Rightarrow> json_repr v)"

definition json_int :: "json \<Rightarrow> exn + int" where
  "json_int v =
     (case v of
        JInt i \<Rightarrow> Inr i
      | JBool b \<Rightarrow> Inr (if b then 1 else 0)
      | JFloat i r \<Rightarrow> Inr i
      | JNonFinite t \<Rightarrow>
          if t = ''NaN'' then Inl (ValueError ''cannot convert float NaN to integer'')
          else Inl (OverflowError ''cannot convert float infinity to integer'')
      | JStr s \<Rightarrow>
          (case py_int s of
             Some i \<Rightarrow> Inr i
           | None \<Rightarrow> Inl (ValueError (''invalid literal for int() with base 10: '' @ py_repr s)))
      | _ \<Rightarrow> Inl (TypeError ''int() argument must be a string, a bytes-like object or a real number''))"

definition json_uuid :: "json \<Rightarrow> exn + uuid" where
  "json_uuid v =
     (case v of
        JStr s \<Rightarrow> (case uuid_parse s of Some u \<Rightarrow> Inr u | None \<Rightarrow> Inl (ValueError ''badly formed hexadecimal UUID string''))
      | JNull \<Rightarrow> Inl (TypeError ''one of the hex, bytes, bytes_le, fields, or int arguments must be given'')
      | _ \<Rightarrow> Inl (AttributeError ''object has no attribute replace''))"

text \<open>\<open>d[k]\<close>.\<close>

definition dict_item :: "dict \<Rightarrow> string \<Rightarrow> exn + json" where
  "dict_item d k = (case dict_get d k of Some v \<Rightarrow> Inr v | None \<Rightarrow> Inl (KeyError k))"

lemma uuid_str_ascii: "is_ascii (uuid_str u)"
  using uuid_str_parts [of u] hex_fixed_chars [of _ 32 "unat u"] by (fastforce simp: is_ascii_def)

lemma utf8_uuid [simp]: "utf8_ok (map code (uuid_str u))"
  using utf8_decode_ascii [OF uuid_str_ascii [of u]] by (simp add: utf8_decode_def split: if_splits)

lemma json_str_JStr [simp]: "json_str (JStr s) = s"
  by (simp add: json_str_def)

lemma json_uuid_str [simp]: "json_uuid (JStr (uuid_str u)) = Inr u"
  by (simp add: json_uuid_def)

end
