(* ===== verification/Cb_Models.thy ===== *)
theory Cb_Models
  imports Cb_Config
begin

text \<open>
  The database schema (\<open>credbroker/db/models.py\<close>): one record per table, the
  four tables, and the row selections the services make.  A table is the list of
  its committed rows in insertion order; a \<open>SELECT ... WHERE\<close> is a filter,
  \<open>ORDER BY ... LIMIT n\<close> a stable sort and a prefix.
\<close>

section \<open>Timestamps\<close>

text \<open>
  A \<open>datetime\<close> is a number of microseconds since the epoch, timezone-aware (in
  UTC) or naive; SQLite drops the timezone on read.
\<close>

datatype datetime = Aware int | Naive int

fun instant :: "datetime \<Rightarrow> int" where
  "instant (Aware us) = us"
| "instant (Naive us) = us"

fun ensure_aware :: "datetime option \<Rightarrow> datetime option" where
  "ensure_aware None = None"
| "ensure_aware (Some (Naive us)) = Some (Aware us)"
| "ensure_aware (Some (Aware us)) = Some (Aware us)"

text \<open>\<open>dt + timedelta(seconds=s)\<close>, and the instant of a value passed through \<open>ensure_aware\<close>.\<close>

definition add_seconds :: "datetime \<Rightarrow> int \<Rightarrow> datetime" where
  "add_seconds d s = (case d of Aware us \<Rightarrow> Aware (us + s * 1000000) | Naive us \<Rightarrow> Naive (us + s * 1000000))"

text \<open>
  The same with the range of \<open>datetime\<close> checked: a result before year 1 or after
  year 9999 is an \<open>OverflowError\<close>.
\<close>

definition datetime_add :: "datetime \<Rightarrow> int \<Rightarrow> exn + datetime" where
  "datetime_add d s =
     (let us = instant d + s * 1000000 in
      if us < - 62135596800000000 \<or> 253402300800000000 \<le> us then Inl (OverflowError ''date value out of range'')
      else Inr (add_seconds d s))"

text \<open>\<open>int(dt.timestamp())\<close> of an aware timestamp: seconds, truncated towards zero.\<close>

definition epoch_seconds :: "datetime \<Rightarrow> int" where
  "epoch_seconds d = (let us = instant d in if us < 0 then - ((- us) div 1000000) else us div 1000000)"

lemma instant_ensure_aware [simp]: "ensure_aware (Some d) = Some (Aware (instant d))"
  by (cases d) auto

lemma instant_add_seconds [simp]: "instant (add_seconds d s) = instant d + s * 1000000"
  by (cases d) (auto simp: add_seconds_def)

lemma datetime_add_Inr: "datetime_add d s = Inr d' \<Longrightarrow> d' = add_seconds d s"
  by (auto simp: datetime_add_def Let_def split: if_splits)

section \<open>Tables\<close>

record connected_account =
  ca_id :: uuid
  ca_user_id :: uuid
  ca_provider :: string
  ca_encrypted_access_token :: bytes
  ca_encrypted_refresh_token :: "bytes option"
  ca_scopes_granted :: "string list"
  ca_expires_at :: "datetime option"
  ca_created_at :: datetime

record agent_identity =
  ag_id :: uuid
  ag_user_id :: uuid
  ag_name :: string
  ag_allowed_scopes :: "string list"
  ag_created_at :: datetime

record grant =
  gr_id :: uuid
  gr_agent_id :: uuid
  gr_connected_account_id :: uuid
  gr_tool_name :: string
  gr_scope :: string
  gr_token_hash :: string
  gr_issued_at :: datetime
  gr_expires_at :: datetime
  gr_revoked_at :: "datetime option"

record audit_row =
  au_id :: uuid
  au_grant_id :: uuid
  au_tool_name :: string
  au_arguments_hash :: string
  au_status :: string
  au_latency_ms :: int
  au_called_at :: datetime

record database =
  db_accounts :: "connected_account list"
  db_agents :: "agent_identity list"
  db_grants :: "grant list"
  db_audit :: "audit_row list"

definition empty_db :: database where
  "empty_db = \<lparr>db_accounts = [], db_agents = [], db_grants = [], db_audit = []\<rparr>"

section \<open>Selections and updates\<close>

text \<open>\<open>session.get(Model, id)\<close>: by primary key.\<close>

definition get_account :: "database \<Rightarrow> uuid \<Rightarrow> connected_account option" where
  "get_account db i = List.find (\<lambda>a. ca_id a = i) (db_accounts db)"

definition get_agent :: "database \<Rightarrow> uuid \<Rightarrow> agent_identity option" where
  "get_agent db i = List.find (\<lambda>a. ag_id a = i) (db_agents db)"

definition get_grant :: "database \<Rightarrow> uuid \<Rightarrow> grant option" where
  "get_grant db i = List.find (\<lambda>g. gr_id g = i) (db_grants db)"

text \<open>
  \<open>result.scalar_one_or_none()\<close>: no row, one row, or \<open>MultipleResultsFound\<close>.
\<close>

fun scalar_one_or_none :: "'a list \<Rightarrow> exn + 'a option" where
  "scalar_one_or_none [] = Inr None"
| "scalar_one_or_none [x] = Inr (Some x)"
| "scalar_one_or_none (x # y # zs) =
     Inl (OtherException ''MultipleResultsFound'' ''Multiple rows were found when one or none was required'')"

definition grants_by_hash :: "database \<Rightarrow> string \<Rightarrow> grant list" where
  "grants_by_hash db h = filter (\<lambda>g. gr_token_hash g = h) (db_grants db)"

text \<open>\<open>ORDER BY created_at DESC LIMIT 1\<close> over a user's accounts of one provider.\<close>

definition newest_account :: "database \<Rightarrow> uuid \<Rightarrow> string \<Rightarrow> connected_account list" where
  "newest_account db u p =
     take 1 (sort_key (\<lambda>a. - instant (ca_created_at a))
       (filter (\<lambda>a. ca_user_id a = u \<and> ca_provider a = p) (db_accounts db)))"

text \<open>
  Whether a grant counts against the concurrency limit at time \<open>now\<close>: same
  agent, tool and scope, not revoked, not expired.
\<close>

definition is_active :: "int \<Rightarrow> uuid \<Rightarrow> string \<Rightarrow> string \<Rightarrow> grant \<Rightarrow> bool" where
  "is_active now a t sc g \<longleftrightarrow>
     gr_agent_id g = a \<and> gr_tool_name g = t \<and> gr_scope g = sc \<and>
     gr_revoked_at g = None \<and> now < instant (gr_expires_at g)"

definition active_count :: "database \<Rightarrow> int \<Rightarrow> uuid \<Rightarrow> string \<Rightarrow> string \<Rightarrow> nat" where
  "active_count db now a t sc = length (filter (is_active now a t sc) (db_grants db))"

text \<open>
  \<open>INSERT\<close> into each table.  The schema enforces the primary keys, the unique
  token hash and the foreign keys; a violation aborts the transaction with
  \<open>IntegrityError\<close>.
\<close>

abbreviation integrity_error :: exn where
  "integrity_error \<equiv> OtherException ''IntegrityError'' ''a table constraint is violated''"

definition insert_account :: "connected_account \<Rightarrow> database \<Rightarrow> exn + database" where
  "insert_account a db =
     (if \<exists>a' \<in> set (db_accounts db). ca_id a' = ca_id a then Inl integrity_error
      else Inr (db\<lparr>db_accounts := db_accounts db @ [a]\<rparr>))"

definition insert_agent :: "agent_identity \<Rightarrow> database \<Rightarrow> exn + database" where
  "insert_agent a db =
     (if \<exists>a' \<in> set (db_agents db). ag_id a' = ag_id a then Inl integrity_error
      else Inr (db\<lparr>db_agents := db_agents db @ [a]\<rparr>))"

definition insert_grant :: "grant \<Rightarrow> database \<Rightarrow> exn + database" where
  "insert_grant g db =
     (if (\<exists>g' \<in> set (db_grants db). gr_id g' = gr_id g \<or> gr_token_hash g' = gr_token_hash g)
         \<or> get_agent db (gr_agent_id g) = None \<or> get_account db (gr_connected_account_id g) = None
      then Inl integrity_error
      else Inr (db\<lparr>db_grants := db_grants db @ [g]\<rparr>))"

definition insert_audit :: "audit_row \<Rightarrow> database \<Rightarrow> exn + database" where
  "insert_audit r db =
     (if (\<exists>r' \<in> set (db_audit db). au_id r' = au_id r) \<or> get_grant db (au_grant_id r) = None
      then Inl integrity_error
      else Inr (db\<lparr>db_audit := db_audit db @ [r]\<rparr>))"

definition update_grant :: "uuid \<Rightarrow> (grant \<Rightarrow> grant) \<Rightarrow> database \<Rightarrow> exn + database" where
  "update_grant i f db =
     (if get_grant db i = None
      then Inl (OtherException ''StaleDataError'' ''UPDATE statement on table expected to update 1 row(s)'')
      else Inr (db\<lparr>db_grants := map (\<lambda>g. if gr_id g = i then f g else g) (db_grants db)\<rparr>))"

text \<open>
  Assignments to the columns of a loaded account, and the \<open>UPDATE\<close> the next
  commit makes of them: only the assigned columns change, and a row that is gone
  is an error of the unit of work.
\<close>

datatype account_set =
    SetAccessToken bytes
  | SetRefreshToken "bytes option"
  | SetExpiresAt "datetime option"

fun set_column :: "account_set \<Rightarrow> connected_account \<Rightarrow> connected_account" where
  "set_column (SetAccessToken b) a = a\<lparr>ca_encrypted_access_token := b\<rparr>"
| "set_column (SetRefreshToken b) a = a\<lparr>ca_encrypted_refresh_token := b\<rparr>"
| "set_column (SetExpiresAt t) a = a\<lparr>ca_expires_at := t\<rparr>"

definition update_account :: "uuid \<Rightarrow> account_set \<Rightarrow> database \<Rightarrow> exn + database" where
  "update_account i c db =
     (if get_account db i = None
      then Inl (OtherException ''StaleDataError'' ''UPDATE statement on table expected to update 1 row(s)'')
      else Inr (db\<lparr>db_accounts := map (\<lambda>a. if ca_id a = i then set_column c a else a) (db_accounts db)\<rparr>))"

fun update_accounts :: "(uuid \<times> account_set) list \<Rightarrow> database \<Rightarrow> exn + database" where
  "update_accounts [] db = Inr db"
| "update_accounts ((i, c) # cs) db =
     (case update_account i c db of Inl e \<Rightarrow> Inl e | Inr db' \<Rightarrow> update_accounts cs db')"

section \<open>Facts about selections\<close>

lemma get_account_in: "get_account db i = Some a \<Longrightarrow> a \<in> set (db_accounts db) \<and> ca_id a = i"
  by (auto simp: get_account_def dest: find_Some_in)

lemma get_agent_in: "get_agent db i = Some a \<Longrightarrow> a \<in> set (db_agents db) \<and> ag_id a = i"
  by (auto simp: get_agent_def dest: find_Some_in)

lemma get_grant_in: "get_grant db i = Some g \<Longrightarrow> g \<in> set (db_grants db) \<and> gr_id g = i"
  by (auto simp: get_grant_def dest: find_Some_in)

lemma scalar_Some: "scalar_one_or_none xs = Inr (Some x) \<longleftrightarrow> xs = [x]"
  by (cases xs rule: scalar_one_or_none.cases) auto

lemma scalar_None: "scalar_one_or_none xs = Inr None \<longleftrightarrow> xs = []"
  by (cases xs rule: scalar_one_or_none.cases) auto

lemma newest_account_spec:
  assumes "newest_account db u p = a # as"
  shows "as = []" "a \<in> set (db_accounts db)" "ca_user_id a = u" "ca_provider a = p"
    "\<And>b. b \<in> set (db_accounts db) \<Longrightarrow> ca_user_id b = u \<Longrightarrow> ca_provider b = p
       \<Longrightarrow> instant (ca_created_at b) \<le> instant (ca_created_at a)"
proof -
  let ?xs = "filter (\<lambda>a. ca_user_id a = u \<and> ca_provider a = p) (db_accounts db)"
  let ?ys = "sort_key (\<lambda>a. - instant (ca_created_at a)) ?xs"
  obtain zs where ys: "?ys = a # zs" and "as = []"
    using assms by (cases ?ys) (auto simp: newest_account_def)
  then show "as = []" by simp
  have "a \<in> set ?ys" by (simp add: ys)
  then have "a \<in> set ?xs" by simp
  then show "a \<in> set (db_accounts db)" "ca_user_id a = u" "ca_provider a = p" by auto
  fix b assume "b \<in> set (db_accounts db)" "ca_user_id b = u" "ca_provider b = p"
  then have "b \<in> set ?ys" by simp
  moreover have "sorted (map (\<lambda>a. - instant (ca_created_at a)) (a # zs))"
    using sorted_sort_key [of "\<lambda>a. - instant (ca_created_at a)" ?xs] by (simp only: ys)
  ultimately show "instant (ca_created_at b) \<le> instant (ca_created_at a)"
    unfolding ys by auto
qed

text \<open>What each write leaves alone.\<close>

lemma update_accounts_frame:
  "update_accounts cs db = Inr db' \<Longrightarrow>
   db_grants db' = db_grants db \<and> db_agents db' = db_agents db \<and> db_audit db' = db_audit db"
  by (induction cs db rule: update_accounts.induct)
    (auto simp: update_account_def split: sum.splits if_splits)

lemma set_column_id [simp]: "ca_id (set_column c a) = ca_id a"
  by (cases c) auto

lemma insert_grant_frame:
  "insert_grant g db = Inr db' \<Longrightarrow> db' = db\<lparr>db_grants := db_grants db @ [g]\<rparr>"
  by (auto simp: insert_grant_def split: if_splits)

lemma insert_audit_frame:
  "insert_audit r db = Inr db' \<Longrightarrow> db' = db\<lparr>db_audit := db_audit db @ [r]\<rparr>"
  by (auto simp: insert_audit_def split: if_splits)

lemma insert_account_frame:
  "insert_account a db = Inr db' \<Longrightarrow> db' = db\<lparr>db_accounts := db_accounts db @ [a]\<rparr>"
  by (auto simp: insert_account_def split: if_splits)

lemma insert_agent_frame:
  "insert_agent a db = Inr db' \<Longrightarrow> db' = db\<lparr>db_agents := db_agents db @ [a]\<rparr>"
  by (auto simp: insert_agent_def split: if_splits)

lemmas insert_frames = insert_grant_frame insert_audit_frame insert_account_frame insert_agent_frame

end
