(* ===== verification/Cb_Redis.thy ===== *)
theory Cb_Redis
  imports Cb_Models
begin

text \<open>
  The Redis commands the broker issues.  Redis is a service outside the
  repository: its commands are a record of functions, a parameter of the model,
  and the locale \<open>redis_server\<close> states the documented behaviour the broker
  relies on.  Times are microseconds of the server's clock, time-to-live values
  whole seconds.  \<open>mem_redis\<close> is an executable in-memory server that satisfies
  the laws; the concrete runs of the development use it.
\<close>

record 'r redis_ops =
  rd_get :: "int \<Rightarrow> string \<Rightarrow> 'r \<Rightarrow> string option"
  rd_exists :: "int \<Rightarrow> string \<Rightarrow> 'r \<Rightarrow> bool"
  rd_set :: "int \<Rightarrow> string \<Rightarrow> string \<Rightarrow> bool \<Rightarrow> int \<Rightarrow> 'r \<Rightarrow> (exn + bool) \<times> 'r"
  rd_delete :: "int \<Rightarrow> string \<Rightarrow> 'r \<Rightarrow> 'r"
  rd_incr :: "int \<Rightarrow> string \<Rightarrow> 'r \<Rightarrow> (exn + int) \<times> 'r"
  rd_expire :: "int \<Rightarrow> string \<Rightarrow> int \<Rightarrow> 'r \<Rightarrow> 'r"

text \<open>\<open>until t s\<close>: the instant at which a time-to-live of \<open>s\<close> seconds set at \<open>t\<close> runs out.\<close>

definition expiry_at :: "int \<Rightarrow> int \<Rightarrow> int" where
  "expiry_at t s = t + s * 1000000"

section \<open>The contract\<close>

locale redis_server =
  fixes R :: "'r redis_ops"
  assumes exists_get: "rd_exists R t k r \<longleftrightarrow> rd_get R t k r \<noteq> None"
    and get_later: "t \<le> t' \<Longrightarrow> rd_get R t' k r \<noteq> None \<Longrightarrow> rd_get R t' k r = rd_get R t k r"
    and set_result: "0 < ex \<Longrightarrow> fst (rd_set R t k v nx ex r) = Inr (\<not> (nx \<and> rd_get R t k r \<noteq> None))"
    and set_written: "0 < ex \<Longrightarrow> \<not> (nx \<and> rd_get R t k r \<noteq> None) \<Longrightarrow> t \<le> t' \<Longrightarrow>
      rd_get R t' k (snd (rd_set R t k v nx ex r)) = (if t' < expiry_at t ex then Some v else None)"
    and set_kept: "0 < ex \<Longrightarrow> nx \<and> rd_get R t k r \<noteq> None \<Longrightarrow> t \<le> t' \<Longrightarrow>
      rd_get R t' k (snd (rd_set R t k v nx ex r)) = rd_get R t' k r"
    and set_other: "k' \<noteq> k \<Longrightarrow> t \<le> t' \<Longrightarrow>
      rd_get R t' k' (snd (rd_set R t k v nx ex r)) = rd_get R t' k' r"
    and delete_same: "t \<le> t' \<Longrightarrow> rd_get R t' k (rd_delete R t k r) = None"
    and delete_other: "k' \<noteq> k \<Longrightarrow> t \<le> t' \<Longrightarrow> rd_get R t' k' (rd_delete R t k r) = rd_get R t' k' r"
    and incr_missing: "rd_get R t k r = None \<Longrightarrow> t \<le> t' \<Longrightarrow>
      fst (rd_incr R t k r) = Inr 1 \<and> rd_get R t' k (snd (rd_incr R t k r)) = Some (py_str_int 1)"
    and incr_present: "rd_get R t k r = Some (py_str_int n) \<Longrightarrow> n + 1 < 2 ^ 63 \<Longrightarrow> t \<le> t' \<Longrightarrow>
      fst (rd_incr R t k r) = Inr (n + 1) \<and>
      rd_get R t' k (snd (rd_incr R t k r)) =
        (if rd_get R t' k r = None then None else Some (py_str_int (n + 1)))"
    and incr_other: "k' \<noteq> k \<Longrightarrow> t \<le> t' \<Longrightarrow> rd_get R t' k' (snd (rd_incr R t k r)) = rd_get R t' k' r"
    and expire_same: "0 < s \<Longrightarrow> t \<le> t' \<Longrightarrow>
      rd_get R t' k (rd_expire R t k s r) = (if t' < expiry_at t s then rd_get R t k r else None)"
    and expire_other: "k' \<noteq> k \<Longrightarrow> t \<le> t' \<Longrightarrow> rd_get R t' k' (rd_expire R t k s r) = rd_get R t' k' r"
begin

lemma get_gone: "rd_get R t k r = None \<Longrightarrow> t \<le> t' \<Longrightarrow> rd_get R t' k r = None"
  by (cases "rd_get R t' k r") (auto dest: get_later)

lemma set_fresh_result: "0 < ex \<Longrightarrow> fst (rd_set R t k v False ex r) = Inr True"
  by (simp add: set_result)

lemma set_fresh_get:
  "0 < ex \<Longrightarrow> t \<le> t' \<Longrightarrow> t' < expiry_at t ex \<Longrightarrow> rd_get R t' k (snd (rd_set R t k v False ex r)) = Some v"
  by (simp add: set_written)

lemma set_nx_excludes:
  assumes "0 < ex" and "0 < ex'" and "t \<le> t'" and "t' < expiry_at t ex"
    and "fst (rd_set R t k v True ex r) = Inr True"
  shows "fst (rd_set R t' k v' True ex' (snd (rd_set R t k v True ex r))) = Inr False"
  using assms set_result [of ex t k v True r] set_written [of ex True t k r t' v]
  by (simp add: set_result)

end

section \<open>An in-memory server\<close>

type_synonym memory = "string \<Rightarrow> (string \<times> int option) option"

definition mem_get :: "int \<Rightarrow> string \<Rightarrow> memory \<Rightarrow> string option" where
  "mem_get t k r =
     (case r k of None \<Rightarrow> None | Some (v, None) \<Rightarrow> Some v
      | Some (v, Some d) \<Rightarrow> if t < d then Some v else None)"

definition mem_exists :: "int \<Rightarrow> string \<Rightarrow> memory \<Rightarrow> bool" where
  "mem_exists t k r \<longleftrightarrow> mem_get t k r \<noteq> None"

definition mem_set :: "int \<Rightarrow> string \<Rightarrow> string \<Rightarrow> bool \<Rightarrow> int \<Rightarrow> memory \<Rightarrow> (exn + bool) \<times> memory" where
  "mem_set t k v nx ex r =
     (if ex \<le> 0 then (Inl (OtherException ''ResponseError'' ''invalid expire time in 'set' command''), r)
      else if nx \<and> mem_get t k r \<noteq> None then (Inr False, r)
      else (Inr True, r(k \<mapsto> (v, Some (expiry_at t ex)))))"

definition mem_delete :: "int \<Rightarrow> string \<Rightarrow> memory \<Rightarrow> memory" where
  "mem_delete t k r = r(k := None)"

definition mem_incr :: "int \<Rightarrow> string \<Rightarrow> memory \<Rightarrow> (exn + int) \<times> memory" where
  "mem_incr t k r =
     (case mem_get t k r of
        None \<Rightarrow> (Inr 1, r(k \<mapsto> (py_str_int 1, None)))
      | Some v \<Rightarrow>
          (case py_int v of
             None \<Rightarrow> (Inl (OtherException ''ResponseError'' ''value is not an integer or out of range''), r)
           | Some n \<Rightarrow>
               if n + 1 < 2 ^ 63 then (Inr (n + 1), r(k \<mapsto> (py_str_int (n + 1), snd (the (r k)))))
               else (Inl (OtherException ''ResponseError'' ''increment or decrement would overflow''), r)))"

definition mem_expire :: "int \<Rightarrow> string \<Rightarrow> int \<Rightarrow> memory \<Rightarrow> memory" where
  "mem_expire t k s r =
     (case mem_get t k r of None \<Rightarrow> r(k := None) | Some v \<Rightarrow> r(k \<mapsto> (v, Some (expiry_at t s))))"

definition mem_redis :: "memory redis_ops" where
  "mem_redis = \<lparr>rd_get = mem_get, rd_exists = mem_exists, rd_set = mem_set, rd_delete = mem_delete,
     rd_incr = mem_incr, rd_expire = mem_expire\<rparr>"

lemmas mem_defs = mem_get_def mem_exists_def mem_set_def mem_delete_def mem_incr_def mem_expire_def

lemma mem_incr_present:
  assumes "mem_get t k r = Some (py_str_int n)" and "n + 1 < 2 ^ 63" and "t \<le> t'"
  shows "fst (mem_incr t k r) = Inr (n + 1) \<and>
    mem_get t' k (snd (mem_incr t k r)) = (if mem_get t' k r = None then None else Some (py_str_int (n + 1)))"
proof -
  have "mem_incr t k r = (Inr (n + 1), r(k \<mapsto> (py_str_int (n + 1), snd (the (r k)))))"
    using assms by (simp add: mem_incr_def)
  then show ?thesis
    using assms by (auto simp: mem_get_def split: option.splits prod.splits)
qed

lemma mem_get_written:
  "mem_get t k (r(k \<mapsto> (v, Some d))) = (if t < d then Some v else None)"
  by (simp add: mem_get_def)

lemma mem_exists_get: "mem_exists t k r \<longleftrightarrow> mem_get t k r \<noteq> None"
  by (simp add: mem_exists_def)

lemma mem_get_later: "t \<le> t' \<Longrightarrow> mem_get t' k r \<noteq> None \<Longrightarrow> mem_get t' k r = mem_get t k r"
  by (auto simp: mem_get_def split: option.splits if_splits)

lemma mem_set_result: "0 < ex \<Longrightarrow> fst (mem_set t k v nx ex r) = Inr (\<not> (nx \<and> mem_get t k r \<noteq> None))"
  by (auto simp: mem_set_def)

lemma mem_set_written:
  "0 < ex \<Longrightarrow> \<not> (nx \<and> mem_get t k r \<noteq> None) \<Longrightarrow> t \<le> t' \<Longrightarrow>
   mem_get t' k (snd (mem_set t k v nx ex r)) = (if t' < expiry_at t ex then Some v else None)"
  by (auto simp: mem_set_def mem_get_written)

lemma mem_set_kept:
  "0 < ex \<Longrightarrow> nx \<and> mem_get t k r \<noteq> None \<Longrightarrow> t \<le> t' \<Longrightarrow>
   mem_get t' k (snd (mem_set t k v nx ex r)) = mem_get t' k r"
  by (simp add: mem_set_def)

lemma mem_set_other:
  "k' \<noteq> k \<Longrightarrow> t \<le> t' \<Longrightarrow> mem_get t' k' (snd (mem_set t k v nx ex r)) = mem_get t' k' r"
  by (simp add: mem_set_def mem_get_def [of t' k'])

lemma mem_delete_same: "t \<le> t' \<Longrightarrow> mem_get t' k (mem_delete t k r) = None"
  by (simp add: mem_defs)

lemma mem_delete_other: "k' \<noteq> k \<Longrightarrow> t \<le> t' \<Longrightarrow> mem_get t' k' (mem_delete t k r) = mem_get t' k' r"
  by (simp add: mem_defs)

lemma mem_incr_missing:
  "mem_get t k r = None \<Longrightarrow> t \<le> t' \<Longrightarrow>
   fst (mem_incr t k r) = Inr 1 \<and> mem_get t' k (snd (mem_incr t k r)) = Some (py_str_int 1)"
  by (simp add: mem_incr_def) (simp add: mem_get_def)

lemma mem_incr_other:
  "k' \<noteq> k \<Longrightarrow> t \<le> t' \<Longrightarrow> mem_get t' k' (snd (mem_incr t k r)) = mem_get t' k' r"
  by (simp add: mem_incr_def mem_get_def [of t' k'] split: option.split)

lemma mem_expire_same:
  "0 < s \<Longrightarrow> t \<le> t' \<Longrightarrow>
   mem_get t' k (mem_expire t k s r) = (if t' < expiry_at t s then mem_get t k r else None)"
  by (simp add: mem_expire_def mem_get_def [of t' k] split: option.split)

lemma mem_expire_other:
  "k' \<noteq> k \<Longrightarrow> t \<le> t' \<Longrightarrow> mem_get t' k' (mem_expire t k s r) = mem_get t' k' r"
  by (simp add: mem_expire_def mem_get_def [of t' k'] split: option.split)

interpretation mem: redis_server mem_redis
  by (unfold_locales; unfold mem_redis_def redis_ops.select_convs)
    (rule mem_exists_get mem_get_later mem_set_result mem_set_written mem_set_kept mem_set_other
      mem_delete_same mem_delete_other mem_incr_missing mem_incr_present mem_incr_other
      mem_expire_same mem_expire_other; assumption)+

end
