(* ===== verification/Cb_Circuit.thy ===== *)
theory Cb_Circuit
  imports Cb_Errors
begin

text \<open>
  The circuit breaker (\<open>CircuitBreaker\<close> of \<open>credbroker/reliability/retry.py\<close>): the
  object as a record, each method as a function of the reading of the monotonic
  clock, an invariant every method keeps, and an abstract machine the detailed
  one refines.  The clock is in seconds, a real number; a method reads it at one
  instant.
\<close>

section \<open>The object and its methods\<close>

datatype circuit_state = CLOSED | OPEN | HALF_OPEN

record circuit =
  cb_failure_threshold :: int
  cb_reset_seconds :: real
  cb_state :: circuit_state
  cb_consecutive_failures :: int
  cb_opened_at :: "real option"
  cb_probe_in_flight :: bool

definition new_circuit :: "int \<Rightarrow> real \<Rightarrow> exn + circuit" where
  "new_circuit failure_threshold reset_seconds =
     (if failure_threshold < 1 then Inl (ValueError ''failure_threshold must be >= 1'')
      else if reset_seconds < 0 then Inl (ValueError ''reset_seconds must be >= 0'')
      else Inr \<lparr>cb_failure_threshold = failure_threshold, cb_reset_seconds = reset_seconds,
                cb_state = CLOSED, cb_consecutive_failures = 0, cb_opened_at = None,
                cb_probe_in_flight = False\<rparr>)"

definition sync :: "real \<Rightarrow> circuit \<Rightarrow> circuit" where
  "sync now c =
     (case cb_opened_at c of
        None \<Rightarrow> c
      | Some t \<Rightarrow>
          if cb_state c = OPEN \<and> now - t \<ge> cb_reset_seconds c
          then c\<lparr>cb_state := HALF_OPEN, cb_probe_in_flight := False\<rparr> else c)"

definition state_property :: "real \<Rightarrow> circuit \<Rightarrow> circuit_state \<times> circuit" where
  "state_property now c = (let c = sync now c in (cb_state c, c))"

definition allow :: "real \<Rightarrow> circuit \<Rightarrow> bool \<times> circuit" where
  "allow now c =
     (let c = sync now c in
      if cb_state c = OPEN then (False, c)
      else if cb_state c = HALF_OPEN then
        (if cb_probe_in_flight c then (False, c) else (True, c\<lparr>cb_probe_in_flight := True\<rparr>))
      else (True, c))"

definition record_success :: "circuit \<Rightarrow> circuit" where
  "record_success c =
     c\<lparr>cb_state := CLOSED, cb_consecutive_failures := 0, cb_opened_at := None, cb_probe_in_flight := False\<rparr>"

definition trip :: "real \<Rightarrow> circuit \<Rightarrow> circuit" where
  "trip now c = c\<lparr>cb_state := OPEN, cb_opened_at := Some now, cb_probe_in_flight := False\<rparr>"

definition record_failure :: "real \<Rightarrow> circuit \<Rightarrow> circuit" where
  "record_failure now c =
     (let c = sync now c in
      if cb_state c = CLOSED then
        (let c = c\<lparr>cb_consecutive_failures := cb_consecutive_failures c + 1\<rparr> in
         if cb_consecutive_failures c \<ge> cb_failure_threshold c then trip now c else c)
      else trip now c)"

lemmas circuit_defs = sync_def allow_def record_success_def trip_def record_failure_def

section \<open>The invariant\<close>

text \<open>
  A closed circuit has counted fewer failures than its threshold; an open or
  half-open one remembers when it was tripped; only a half-open one has a probe
  in flight.
\<close>

definition circuit_inv :: "circuit \<Rightarrow> bool" where
  "circuit_inv c \<longleftrightarrow>
     1 \<le> cb_failure_threshold c \<and> 0 \<le> cb_reset_seconds c \<and>
     (cb_state c = CLOSED \<longrightarrow>
        0 \<le> cb_consecutive_failures c \<and> cb_consecutive_failures c < cb_failure_threshold c) \<and>
     (cb_state c \<noteq> CLOSED \<longrightarrow> cb_opened_at c \<noteq> None) \<and>
     (cb_probe_in_flight c \<longrightarrow> cb_state c = HALF_OPEN)"

lemma new_circuit_inv: "new_circuit n r = Inr c \<Longrightarrow> circuit_inv c"
  by (auto simp: new_circuit_def circuit_inv_def split: if_splits)

lemma sync_inv: "circuit_inv c \<Longrightarrow> circuit_inv (sync now c)"
  by (auto simp: sync_def circuit_inv_def split: option.splits)

lemma allow_inv: "circuit_inv c \<Longrightarrow> circuit_inv (snd (allow now c))"
  using sync_inv [of c now] by (auto simp: allow_def circuit_inv_def Let_def)

lemma record_success_inv: "circuit_inv c \<Longrightarrow> circuit_inv (record_success c)"
  by (auto simp: record_success_def circuit_inv_def)

lemma trip_inv: "circuit_inv c \<Longrightarrow> circuit_inv (trip now c)"
  by (auto simp: trip_def circuit_inv_def)

lemma record_failure_inv:
  assumes "circuit_inv c"
  shows "circuit_inv (record_failure now c)"
proof -
  have s: "circuit_inv (sync now c)" using assms by (rule sync_inv)
  then show ?thesis
    using trip_inv [OF s, of now] by (auto simp: record_failure_def Let_def circuit_inv_def trip_def)
qed

lemma sync_fields [simp]:
  "cb_failure_threshold (sync now c) = cb_failure_threshold c"
  "cb_reset_seconds (sync now c) = cb_reset_seconds c"
  "cb_consecutive_failures (sync now c) = cb_consecutive_failures c"
  "cb_opened_at (sync now c) = cb_opened_at c"
  by (auto simp: sync_def split: option.splits)

section \<open>The abstract breaker\<close>

text \<open>
  What the breaker promises, without the object's fields: closed with a failure
  count, open since an instant, ready for a probe, or probing.
\<close>

datatype breaker = Closed int | OpenSince real | Ready | Probing

definition spec_sync :: "real \<Rightarrow> real \<Rightarrow> breaker \<Rightarrow> breaker" where
  "spec_sync reset now b =
     (case b of OpenSince t \<Rightarrow> if now - t \<ge> reset then Ready else b | _ \<Rightarrow> b)"

definition spec_allow :: "real \<Rightarrow> real \<Rightarrow> breaker \<Rightarrow> bool \<times> breaker" where
  "spec_allow reset now b =
     (case spec_sync reset now b of
        Closed n \<Rightarrow> (True, Closed n) | Ready \<Rightarrow> (True, Probing)
      | OpenSince t \<Rightarrow> (False, OpenSince t) | Probing \<Rightarrow> (False, Probing))"

definition spec_failure :: "int \<Rightarrow> real \<Rightarrow> breaker \<Rightarrow> breaker" where
  "spec_failure threshold now b =
     (case b of Closed n \<Rightarrow> if n + 1 \<ge> threshold then OpenSince now else Closed (n + 1) | _ \<Rightarrow> OpenSince now)"

definition abs_circuit :: "circuit \<Rightarrow> breaker" where
  "abs_circuit c =
     (case cb_state c of
        CLOSED \<Rightarrow> Closed (cb_consecutive_failures c)
      | OPEN \<Rightarrow> OpenSince (the (cb_opened_at c))
      | HALF_OPEN \<Rightarrow> if cb_probe_in_flight c then Probing else Ready)"

lemma abs_sync:
  "circuit_inv c \<Longrightarrow> abs_circuit (sync now c) = spec_sync (cb_reset_seconds c) now (abs_circuit c)"
  by (cases "cb_state c")
    (auto simp: sync_def abs_circuit_def spec_sync_def circuit_inv_def split: option.splits)

lemma abs_allow:
  assumes "circuit_inv c"
  shows "fst (allow now c) = fst (spec_allow (cb_reset_seconds c) now (abs_circuit c))"
    and "abs_circuit (snd (allow now c)) = snd (spec_allow (cb_reset_seconds c) now (abs_circuit c))"
proof -
  define d where "d = sync now c"
  have s: "spec_sync (cb_reset_seconds c) now (abs_circuit c) = abs_circuit d"
    using abs_sync [OF assms] by (simp add: d_def)
  show "fst (allow now c) = fst (spec_allow (cb_reset_seconds c) now (abs_circuit c))"
    "abs_circuit (snd (allow now c)) = snd (spec_allow (cb_reset_seconds c) now (abs_circuit c))"
    by (cases "cb_state d"; simp add: allow_def d_def [symmetric] spec_allow_def s Let_def; simp add: abs_circuit_def)+
qed

lemma abs_success: "abs_circuit (record_success c) = Closed 0"
  by (simp add: abs_circuit_def record_success_def)

lemma abs_failure:
  assumes "circuit_inv c"
  shows "abs_circuit (record_failure now c) =
    spec_failure (cb_failure_threshold c) now (spec_sync (cb_reset_seconds c) now (abs_circuit c))"
proof -
  define d where "d = sync now c"
  have s: "spec_sync (cb_reset_seconds c) now (abs_circuit c) = abs_circuit d"
    using abs_sync [OF assms] by (simp add: d_def)
  show ?thesis
    by (cases "cb_state d"; simp add: record_failure_def d_def [symmetric] s Let_def spec_failure_def trip_def
        ; simp add: abs_circuit_def d_def)
qed

section \<open>Sequences of calls\<close>

datatype circuit_event = Allow real | Success | Failure real

fun circuit_step :: "circuit \<Rightarrow> circuit_event \<Rightarrow> circuit" where
  "circuit_step c (Allow t) = snd (allow t c)"
| "circuit_step c Success = record_success c"
| "circuit_step c (Failure t) = record_failure t c"

definition circuit_run :: "circuit \<Rightarrow> circuit_event list \<Rightarrow> circuit" where
  "circuit_run c es = foldl circuit_step c es"

fun spec_step :: "int \<Rightarrow> real \<Rightarrow> breaker \<Rightarrow> circuit_event \<Rightarrow> breaker" where
  "spec_step threshold reset b (Allow t) = snd (spec_allow reset t b)"
| "spec_step threshold reset b Success = Closed 0"
| "spec_step threshold reset b (Failure t) = spec_failure threshold t (spec_sync reset t b)"

lemma circuit_step_fields [simp]:
  "cb_failure_threshold (circuit_step c e) = cb_failure_threshold c"
  "cb_reset_seconds (circuit_step c e) = cb_reset_seconds c"
  by (cases e; auto simp: allow_def record_success_def record_failure_def trip_def Let_def)+

lemma circuit_run_fields:
  "cb_failure_threshold (circuit_run c es) = cb_failure_threshold c"
  "cb_reset_seconds (circuit_run c es) = cb_reset_seconds c"
  by (induction es arbitrary: c) (simp_all add: circuit_run_def)

lemma circuit_step_inv: "circuit_inv c \<Longrightarrow> circuit_inv (circuit_step c e)"
  by (cases e) (auto simp: allow_inv record_success_inv record_failure_inv)

lemma circuit_run_inv: "circuit_inv c \<Longrightarrow> circuit_inv (circuit_run c es)"
  by (induction es arbitrary: c) (auto simp: circuit_run_def circuit_step_inv)

lemma abs_step:
  "circuit_inv c \<Longrightarrow>
   abs_circuit (circuit_step c e) = spec_step (cb_failure_threshold c) (cb_reset_seconds c) (abs_circuit c) e"
  by (cases e) (auto simp: abs_allow abs_success abs_failure)

lemma abs_run:
  "circuit_inv c \<Longrightarrow>
   abs_circuit (circuit_run c es) =
     foldl (spec_step (cb_failure_threshold c) (cb_reset_seconds c)) (abs_circuit c) es"
proof (induction es arbitrary: c)
  case (Cons e es)
  then show ?case
    using Cons.IH [of "circuit_step c e"] by (simp add: circuit_run_def circuit_step_inv abs_step)
qed (simp add: circuit_run_def)

text \<open>Times of a sequence of events.\<close>

fun event_time :: "circuit_event \<Rightarrow> real option" where
  "event_time (Allow t) = Some t"
| "event_time Success = None"
| "event_time (Failure t) = Some t"

section \<open>Behaviour of the abstract breaker\<close>

lemma spec_failures_closed:
  "n + int (length ts) < threshold \<Longrightarrow>
   foldl (spec_step threshold reset) (Closed n) (map Failure ts) = Closed (n + int (length ts))"
  by (induction ts arbitrary: n) (auto simp: spec_failure_def spec_sync_def)

lemma spec_failures_trip:
  assumes "n + int (length ts) + 1 = threshold"
  shows "foldl (spec_step threshold reset) (Closed n) (map Failure (ts @ [t])) = OpenSince t"
  using spec_failures_closed [of n ts threshold reset] assms
  by (simp add: spec_failure_def spec_sync_def)

lemma spec_probing_stays:
  "list_all (\<lambda>e. \<exists>t. e = Allow t) es \<Longrightarrow> foldl (spec_step threshold reset) Probing es = Probing"
  by (induction es) (auto simp: spec_allow_def spec_sync_def)

lemma new_circuit_closed:
  "new_circuit n r = Inr c \<Longrightarrow>
   circuit_inv c \<and> abs_circuit c = Closed 0 \<and> cb_failure_threshold c = n \<and> cb_reset_seconds c = r"
  by (auto simp: new_circuit_def circuit_inv_def abs_circuit_def split: if_splits)

section \<open>Properties\<close>

text \<open>
  C13: the breaker object implements the abstract machine.  After any sequence of
  \<open>allow\<close>, \<open>record_success\<close> and \<open>record_failure\<close> calls at any clock readings the
  object abstracts to the state the abstract breaker reaches, its invariant holds,
  and the next \<open>allow\<close> answers what the abstract breaker answers.
\<close>

theorem circuit_refines_breaker:
  assumes "new_circuit n r = Inr c"
  shows "circuit_inv (circuit_run c es) \<and>
    abs_circuit (circuit_run c es) = foldl (spec_step n r) (Closed 0) es \<and>
    fst (allow t (circuit_run c es)) = fst (spec_allow r t (foldl (spec_step n r) (Closed 0) es))"
proof -
  note c = new_circuit_closed [OF assms]
  have inv: "circuit_inv (circuit_run c es)" using circuit_run_inv c by blast
  have "cb_reset_seconds (circuit_run c es) = r" using c by (simp add: circuit_run_fields)
  then show ?thesis using inv abs_run [of c es] c abs_allow(1) [OF inv, of t] by simp
qed

theorem circuit_refines_breaker_witness:
  "abs_circuit (circuit_run \<lparr>cb_failure_threshold = 2, cb_reset_seconds = 30, cb_state = CLOSED,
       cb_consecutive_failures = 0, cb_opened_at = None, cb_probe_in_flight = False\<rparr> [Failure 1, Failure 2, Allow 3])
     = OpenSince 2"
  using circuit_refines_breaker [of 2 30 _ "[Failure 1, Failure 2, Allow 3]"]
  by (simp add: new_circuit_def spec_allow_def spec_sync_def spec_failure_def)

text \<open>
  A new breaker opens on exactly the \<open>failure_threshold\<close>-th consecutive
  failure.  One failure earlier it still lets calls through; from the last failure
  on it refuses every call until \<open>reset_seconds\<close> have passed, then it lets exactly
  one probe through and refuses the next; a success of the probe closes it, a
  failure of the probe opens it for another full period.
\<close>

theorem circuit_trips_at_threshold:
  assumes "new_circuit n r = Inr c" and "int (length ts) + 1 = n"
  shows "fst (allow t0 (circuit_run c (map Failure ts))) \<and>
    (\<forall>t1. t1 - t < r \<longrightarrow> \<not> fst (allow t1 (circuit_run c (map Failure (ts @ [t]))))) \<and>
    (\<forall>t1. r \<le> t1 - t \<longrightarrow>
       fst (allow t1 (circuit_run c (map Failure (ts @ [t])))) \<and>
       (\<forall>t2. \<not> fst (allow t2 (circuit_run c (map Failure (ts @ [t]) @ [Allow t1])))) \<and>
       (\<forall>t2. fst (allow t2 (circuit_run c (map Failure (ts @ [t]) @ [Allow t1, Success])))) \<and>
       (\<forall>t2 t3. t3 - t2 < r \<longrightarrow> \<not> fst (allow t3 (circuit_run c (map Failure (ts @ [t]) @ [Allow t1, Failure t2])))))"
proof -
  have run: "fst (allow t' (circuit_run c es)) = fst (spec_allow r t' (foldl (spec_step n r) (Closed 0) es))" for t' es
    using new_circuit_closed [OF assms(1)] abs_run [of c es] abs_allow(1) [of "circuit_run c es" t'] circuit_run_inv [of c es]
    by (simp add: circuit_run_fields)
  have closed: "foldl (spec_step n r) (Closed 0) (map Failure ts) = Closed (int (length ts))"
    using spec_failures_closed [of 0 ts n r] assms(2) by simp
  have opened: "foldl (spec_step n r) (Closed 0) (map Failure (ts @ [t])) = OpenSince t"
    using spec_failures_trip [of 0 ts n r t] assms(2) by simp
  show ?thesis
    unfolding run foldl_append [of _ _ "map Failure (ts @ [t])"] opened closed
    by (simp add: spec_allow_def spec_sync_def spec_failure_def)
qed

theorem circuit_trips_at_threshold_witness:
  "\<not> fst (allow 31 (circuit_run \<lparr>cb_failure_threshold = 2, cb_reset_seconds = 30, cb_state = CLOSED,
       cb_consecutive_failures = 0, cb_opened_at = None, cb_probe_in_flight = False\<rparr> (map Failure ([1] @ [2]))))"
  using circuit_trips_at_threshold [of 2 30 _ "[1]" 0 2] by (simp add: new_circuit_def)

end
