(* ===== verification/Cb_World.thy ===== *)
theory Cb_World
  imports Cb_Redis Cb_Circuit
begin

text \<open>
  The state a broker process works on and the services it calls.

  \<open>world\<close> holds the committed database, the Redis server, the two clocks, the
  objects of one process (registered secrets, circuit breakers, the HTTP client
  slot, metrics) and the pending work of the current database session.
  \<open>services\<close> collects everything outside the repository: it is the parameter
  of every operation of the model.

  Concurrency.  The process runs on one event loop, so other coroutines, other
  broker processes and the passing of time show only at \<open>await\<close>.  Every
  \<open>await\<close> of the source is \<open>awaiting\<close>: the environment may change the shared
  state before and after the awaited action, and either suspension may end in an
  exception (a lost connection, a cancelled task).  What the environment does is
  the parameter \<open>sv_interfere\<close>; a theorem that needs it restricted says so.
\<close>

section \<open>Requests and observable effects\<close>

datatype http_request =
    HttpGet string "(string \<times> string) list" "(string \<times> string) list"
  | HttpPost string "(string \<times> string) list"

record http_response =
  rs_status_code :: int
  rs_content :: bytes

text \<open>
  The effects of the current operation on the outside, in order: requests sent,
  sleeps started, audit rows and grants committed.  The list is written by the
  primitives below and read by no definition, only by the theorems.
\<close>

datatype event =
    EvHttp http_request
  | EvSleep real
  | EvAudit audit_row
  | EvGrant grant

text \<open>The counters of \<open>credbroker/metrics.py\<close>, one per metric and label values.\<close>

datatype metric =
    GRANTS_ISSUED string string
  | GRANT_DENIALS string
  | GRANTS_REVOKED
  | INVOCATIONS string string
  | OAUTH_ACCOUNTS_CONNECTED string
  | RATE_LIMITED string

section \<open>The world\<close>

text \<open>
  The attributes of an \<open>InvokeService\<close> that change: its breakers, its HTTP client, whether
  it created that client, and the clients it has closed.  A process has two such objects, one behind
  the gRPC server and one behind the console.  The world shows those of the service
  whose operation is running (\<open>w_circuits\<close> and the three fields after it) and keeps the other's
  in \<open>w_peer\<close>.
\<close>

record invoke_objects =
  ob_circuits :: "string \<rightharpoonup> circuit"
  ob_http_client :: "nat option"
  ob_owns_http_client :: bool
  ob_closed_clients :: "nat list"

definition new_objects :: "nat option \<Rightarrow> (string \<rightharpoonup> circuit) option \<Rightarrow> invoke_objects" where
  "new_objects http_client circuits =
     \<lparr>ob_circuits = (case circuits of Some cs \<Rightarrow> cs | None \<Rightarrow> (\<lambda>_. None)), ob_http_client = http_client,
      ob_owns_http_client = False, ob_closed_clients = []\<rparr>"

record ('r, 'x) world =
  w_db :: database
  w_redis :: 'r
  w_now :: int
  w_mono :: real
  w_secrets :: "string list"
  w_circuits :: "string \<rightharpoonup> circuit"
  w_http_client :: "nat option"
  w_owns_http_client :: bool
  w_closed_clients :: "nat list"
  w_peer :: invoke_objects
  w_metrics :: "metric \<Rightarrow> nat"
  w_latencies :: "(string \<times> real) list"
  w_ext :: 'x
  w_dirty :: "(uuid \<times> account_set) list"
  w_locked :: "uuid option"
  w_trace :: "event list"

text \<open>A process that has just started on an empty database, at instant \<open>t\<close>.\<close>

definition fresh_world :: "'r \<Rightarrow> 'x \<Rightarrow> int \<Rightarrow> ('r, 'x) world" where
  "fresh_world r x t = \<lparr>w_db = empty_db, w_redis = r, w_now = t, w_mono = 0, w_secrets = [],
     w_circuits = (\<lambda>_. None), w_http_client = None, w_owns_http_client = False, w_closed_clients = [],
     w_peer = new_objects None None,
     w_metrics = (\<lambda>_. 0), w_latencies = [], w_ext = x, w_dirty = [], w_locked = None, w_trace = []\<rparr>"

section \<open>The services\<close>

datatype await_kind =
    AwaitRedis | AwaitSelect | AwaitCommit | AwaitRollback | AwaitThread | AwaitHttp | AwaitSleep | AwaitClose

datatype phase = Before | After

record ('r, 'x) services =
  sv_redis :: "'r redis_ops"
  sv_interfere :: "('r, 'x) world \<Rightarrow> ('r, 'x) world"
  sv_fault :: "await_kind \<Rightarrow> phase \<Rightarrow> ('r, 'x) world \<Rightarrow> exn option"
  sv_uuid4 :: "'x \<Rightarrow> uuid \<times> 'x"
  sv_token_hex :: "nat \<Rightarrow> 'x \<Rightarrow> string \<times> 'x"
  sv_urandom :: "nat \<Rightarrow> 'x \<Rightarrow> bytes \<times> 'x"
  sv_sha256_hex :: "bytes \<Rightarrow> string"
  sv_hmac_hex :: "bytes \<Rightarrow> bytes \<Rightarrow> string"
  sv_aes_encrypt :: "bytes \<Rightarrow> bytes \<Rightarrow> bytes \<Rightarrow> exn + bytes"
  sv_aes_decrypt :: "bytes \<Rightarrow> bytes \<Rightarrow> bytes \<Rightarrow> exn + bytes option"
  sv_kms_generate :: "string \<Rightarrow> 'x \<Rightarrow> (exn + bytes \<times> bytes) \<times> 'x"
  sv_kms_decrypt :: "string \<Rightarrow> bytes \<Rightarrow> 'x \<Rightarrow> (exn + bytes) \<times> 'x"
  sv_jwt_encode :: "dict \<Rightarrow> string \<Rightarrow> exn + string"
  sv_jwt_decode :: "string \<Rightarrow> string \<Rightarrow> string \<Rightarrow> string list \<Rightarrow> int \<Rightarrow> exn + dict"
  sv_http :: "http_request \<Rightarrow> 'x \<Rightarrow> (exn + http_response) \<times> 'x"
  sv_float :: "string \<Rightarrow> json"

type_synonym ('r, 'x, 'a) io = "(('r, 'x) world, exn, 'a) prog"

section \<open>Awaiting\<close>

text \<open>
  A step of the environment.  It reaches everything but this operation's own
  session and its record of effects.
\<close>

definition env :: "('r, 'x) services \<Rightarrow> ('r, 'x) world \<Rightarrow> ('r, 'x) world" where
  "env S w = (sv_interfere S w)\<lparr>w_dirty := w_dirty w, w_locked := w_locked w, w_trace := w_trace w\<rparr>"

definition suspend :: "('r, 'x) services \<Rightarrow> await_kind \<Rightarrow> phase \<Rightarrow> ('r, 'x, unit) io" where
  "suspend S k p = (\<lambda>w. let w' = env S w in
     case sv_fault S k p w' of None \<Rightarrow> (Inr (), w') | Some e \<Rightarrow> (Inl e, w'))"

definition awaiting :: "('r, 'x) services \<Rightarrow> await_kind \<Rightarrow> ('r, 'x, 'a) io \<Rightarrow> ('r, 'x, 'a) io" where
  "awaiting S k m = (\<lambda>w.
     case suspend S k Before w of
       (Inl e, w1) \<Rightarrow> (Inl e, w1)
     | (Inr _, w1) \<Rightarrow>
         (case m w1 of (r, w2) \<Rightarrow>
            (case suspend S k After w2 of
               (Inl e, w3) \<Rightarrow> (Inl e, w3)
             | (Inr _, w3) \<Rightarrow> (r, w3))))"

text \<open>No interference and no faults: the setting of the functional theorems.\<close>

definition quiet :: "('r, 'x) services \<Rightarrow> bool" where
  "quiet S \<longleftrightarrow> sv_interfere S = (\<lambda>w. w) \<and> sv_fault S = (\<lambda>k p w. None)"

text \<open>A predicate the environment does not falsify.\<close>

definition env_stable :: "('r, 'x) services \<Rightarrow> (('r, 'x) world \<Rightarrow> bool) \<Rightarrow> bool" where
  "env_stable S I \<longleftrightarrow> (\<forall>w. I w \<longrightarrow> I (env S w))"

text \<open>The wall clock does not go back.\<close>

definition clock_forward :: "('r, 'x) services \<Rightarrow> bool" where
  "clock_forward S \<longleftrightarrow> (\<forall>w. w_now w \<le> w_now (env S w))"

lemma env_own [simp]:
  "w_dirty (env S w) = w_dirty w" "w_locked (env S w) = w_locked w" "w_trace (env S w) = w_trace w"
  by (simp_all add: env_def)

lemma awaiting_quiet [prog_simps]: "quiet S \<Longrightarrow> awaiting S k m = m"
  by (rule ext) (simp add: awaiting_def suspend_def quiet_def env_def split: prod.split)

lemma triple_suspend [wp]:
  "env_stable S I \<Longrightarrow> triple I (suspend S k p) (\<lambda>_. I) (\<lambda>_. I)"
  by (simp add: triple_def suspend_def env_stable_def Let_def split: option.split)

lemma triple_awaiting:
  assumes "env_stable S P" and "triple P m Q E"
    and "\<And>x. env_stable S (Q x)" and "\<And>e. env_stable S (E e)"
    and "\<And>e w. P w \<Longrightarrow> E e w" and "\<And>x e w. Q x w \<Longrightarrow> E e w" and "\<And>e e' w. E e w \<Longrightarrow> E e' w"
  shows "triple P (awaiting S k m) Q E"
proof -
  have "case awaiting S k m w of (Inr x, w') \<Rightarrow> Q x w' | (Inl e, w') \<Rightarrow> E e w'" if "P w" for w
  proof -
    have p: "P (env S w)" using assms(1) that by (simp add: env_stable_def)
    obtain r w2 where m: "m (env S w) = (r, w2)" by force
    have "case r of Inr x \<Rightarrow> Q x w2 | Inl e \<Rightarrow> E e w2"
      using assms(2) p m by (fastforce simp: triple_def split: sum.splits)
    then have "case r of Inr x \<Rightarrow> Q x (env S w2) | Inl e \<Rightarrow> E e (env S w2)"
      using assms(3,4) by (auto simp: env_stable_def split: sum.splits)
    then show ?thesis
      using p m assms(5-7) by (auto simp: awaiting_def suspend_def Let_def split: sum.splits option.splits)
  qed
  then show ?thesis by (simp add: triple_def)
qed

lemma keeps_awaiting [wp]: "env_stable S I \<Longrightarrow> keeps I m \<Longrightarrow> keeps I (awaiting S k m)"
  by (rule triple_awaiting)

lemma env_stable_own [simp]:
  "env_stable S (\<lambda>w. P (w_trace w))" "env_stable S (\<lambda>w. Q (w_dirty w))" "env_stable S (\<lambda>w. L (w_locked w))"
  by (simp_all add: env_stable_def)

lemma env_stable_conj: "env_stable S I \<Longrightarrow> env_stable S J \<Longrightarrow> env_stable S (\<lambda>w. I w \<and> J w)"
  by (simp add: env_stable_def)

lemma env_stable_const [simp]: "env_stable S (\<lambda>w. P)"
  by (simp add: env_stable_def)

section \<open>Clocks, randomness and metrics\<close>

definition time_time :: "('r, 'x, int) io" where
  "time_time = getM w_now"

definition monotonic :: "('r, 'x, real) io" where
  "monotonic = getM w_mono"

definition utcnow :: "('r, 'x, datetime) io" where
  "utcnow = getM (\<lambda>w. Aware (w_now w))"

definition draw :: "('x \<Rightarrow> 'a \<times> 'x) \<Rightarrow> ('r, 'x, 'a) io" where
  "draw f = (\<lambda>w. case f (w_ext w) of (a, x) \<Rightarrow> (Inr a, w\<lparr>w_ext := x\<rparr>))"

definition uuid4 :: "('r, 'x) services \<Rightarrow> ('r, 'x, uuid) io" where
  "uuid4 S = draw (sv_uuid4 S)"

definition token_hex :: "('r, 'x) services \<Rightarrow> nat \<Rightarrow> ('r, 'x, string) io" where
  "token_hex S n = draw (sv_token_hex S n)"

definition urandom :: "('r, 'x) services \<Rightarrow> nat \<Rightarrow> ('r, 'x, bytes) io" where
  "urandom S n = draw (sv_urandom S n)"

definition inc :: "metric \<Rightarrow> ('r, 'x, unit) io" where
  "inc m = modM (\<lambda>w. w\<lparr>w_metrics := (w_metrics w)(m := w_metrics w m + 1)\<rparr>)"

definition observe_latency :: "string \<Rightarrow> real \<Rightarrow> ('r, 'x, unit) io" where
  "observe_latency t s = modM (\<lambda>w. w\<lparr>w_latencies := w_latencies w @ [(t, s)]\<rparr>)"

text \<open>\<open>asyncio.sleep(d)\<close>: at least \<open>d\<close> seconds of the monotonic clock pass.\<close>

definition sleep :: "('r, 'x) services \<Rightarrow> real \<Rightarrow> ('r, 'x, unit) io" where
  "sleep S d = bindM (modM (\<lambda>w. w\<lparr>w_trace := w_trace w @ [EvSleep d]\<rparr>)) (\<lambda>_.
     bindM monotonic (\<lambda>t.
     awaiting S AwaitSleep (modM (\<lambda>w. w\<lparr>w_mono := max (w_mono w) (t + d)\<rparr>))))"

section \<open>HTTP, Redis and the database session\<close>

definition http_send :: "('r, 'x) services \<Rightarrow> http_request \<Rightarrow> ('r, 'x, http_response) io" where
  "http_send S q = bindM (modM (\<lambda>w. w\<lparr>w_trace := w_trace w @ [EvHttp q]\<rparr>)) (\<lambda>_.
     awaiting S AwaitHttp (\<lambda>w. case sv_http S q (w_ext w) of (r, x) \<Rightarrow> (r, w\<lparr>w_ext := x\<rparr>)))"

definition redis_get :: "('r, 'x) services \<Rightarrow> string \<Rightarrow> ('r, 'x, string option) io" where
  "redis_get S k = awaiting S AwaitRedis (getM (\<lambda>w. rd_get (sv_redis S) (w_now w) k (w_redis w)))"

definition redis_exists :: "('r, 'x) services \<Rightarrow> string \<Rightarrow> ('r, 'x, bool) io" where
  "redis_exists S k = awaiting S AwaitRedis (getM (\<lambda>w. rd_exists (sv_redis S) (w_now w) k (w_redis w)))"

definition redis_set :: "('r, 'x) services \<Rightarrow> string \<Rightarrow> string \<Rightarrow> bool \<Rightarrow> int \<Rightarrow> ('r, 'x, bool) io" where
  "redis_set S k v nx ex = awaiting S AwaitRedis (\<lambda>w.
     case rd_set (sv_redis S) (w_now w) k v nx ex (w_redis w) of (b, r) \<Rightarrow> (b, w\<lparr>w_redis := r\<rparr>))"

definition redis_delete :: "('r, 'x) services \<Rightarrow> string \<Rightarrow> ('r, 'x, unit) io" where
  "redis_delete S k = awaiting S AwaitRedis
     (modM (\<lambda>w. w\<lparr>w_redis := rd_delete (sv_redis S) (w_now w) k (w_redis w)\<rparr>))"

definition redis_incr :: "('r, 'x) services \<Rightarrow> string \<Rightarrow> ('r, 'x, int) io" where
  "redis_incr S k = awaiting S AwaitRedis (\<lambda>w.
     case rd_incr (sv_redis S) (w_now w) k (w_redis w) of (n, r) \<Rightarrow> (n, w\<lparr>w_redis := r\<rparr>))"

definition redis_expire :: "('r, 'x) services \<Rightarrow> string \<Rightarrow> int \<Rightarrow> ('r, 'x, unit) io" where
  "redis_expire S k s = awaiting S AwaitRedis
     (modM (\<lambda>w. w\<lparr>w_redis := rd_expire (sv_redis S) (w_now w) k s (w_redis w)\<rparr>))"

text \<open>
  A session reads committed rows.  Assignments to a loaded account wait in
  \<open>w_dirty\<close> for the next commit, which writes them together with the rows added
  since; a failed commit, a rollback and the end of the session discard them and
  release the row lock of \<open>SELECT ... FOR UPDATE\<close>.
\<close>

definition select :: "('r, 'x) services \<Rightarrow> (database \<Rightarrow> 'a) \<Rightarrow> ('r, 'x, 'a) io" where
  "select S f = awaiting S AwaitSelect (getM (\<lambda>w. f (w_db w)))"

definition get_for_update :: "('r, 'x) services \<Rightarrow> uuid \<Rightarrow> ('r, 'x, agent_identity option) io" where
  "get_for_update S i = awaiting S AwaitSelect
     (bindM (modM (\<lambda>w. w\<lparr>w_locked := Some i\<rparr>)) (\<lambda>_. getM (\<lambda>w. get_agent (w_db w) i)))"

definition assign :: "uuid \<Rightarrow> account_set \<Rightarrow> ('r, 'x, unit) io" where
  "assign i c = modM (\<lambda>w. w\<lparr>w_dirty := w_dirty w @ [(i, c)]\<rparr>)"

definition end_transaction :: "('r, 'x, unit) io" where
  "end_transaction = modM (\<lambda>w. w\<lparr>w_dirty := [], w_locked := None\<rparr>)"

definition flush_and_commit :: "(database \<Rightarrow> exn + database) \<Rightarrow> event list \<Rightarrow> ('r, 'x, unit) io" where
  "flush_and_commit ins evs = (\<lambda>w.
     case update_accounts (w_dirty w) (w_db w) of
       Inl e \<Rightarrow> (Inl e, w)
     | Inr db \<Rightarrow>
         (case ins db of
            Inl e \<Rightarrow> (Inl e, w)
          | Inr db' \<Rightarrow> (Inr (), w\<lparr>w_db := db', w_trace := w_trace w @ evs, w_dirty := [], w_locked := None\<rparr>)))"

definition commit :: "('r, 'x) services \<Rightarrow> (database \<Rightarrow> exn + database) \<Rightarrow> event list \<Rightarrow> ('r, 'x, unit) io" where
  "commit S ins evs = catchM (awaiting S AwaitCommit (flush_and_commit ins evs))
     (\<lambda>e. bindM end_transaction (\<lambda>_. raise e))"

text \<open>
  \<open>session.flush()\<close> of one new row: the columns with defaults, its id and its time of
  creation, are drawn and the constraints are checked.  The row stays with the
  caller, invisible to everyone else, until the commit inserts it.
\<close>

definition flush_row :: "('r, 'x) services \<Rightarrow> (uuid \<Rightarrow> datetime \<Rightarrow> 'row) \<Rightarrow> ('row \<Rightarrow> database \<Rightarrow> exn + database)
    \<Rightarrow> ('r, 'x, 'row) io" where
  "flush_row S mk ins = awaiting S AwaitSelect
     (bindM (uuid4 S) (\<lambda>i. bindM utcnow (\<lambda>now. bindM (getM w_db) (\<lambda>db.
        bindM (liftE (ins (mk i now) db)) (\<lambda>_. ret (mk i now))))))"

definition rollback :: "('r, 'x) services \<Rightarrow> ('r, 'x, unit) io" where
  "rollback S = bindM end_transaction (\<lambda>_. awaiting S AwaitRollback (ret ()))"

definition with_session :: "('r, 'x, 'a) io \<Rightarrow> ('r, 'x, 'a) io" where
  "with_session m = bindM end_transaction (\<lambda>_.
     bindM (catchM m (\<lambda>e. bindM end_transaction (\<lambda>_. raise e))) (\<lambda>x.
     bindM end_transaction (\<lambda>_. ret x)))"

lemmas world_prim_defs = time_time_def monotonic_def utcnow_def uuid4_def token_hex_def urandom_def
  inc_def observe_latency_def redis_get_def redis_exists_def redis_set_def redis_delete_def
  redis_incr_def redis_expire_def select_def get_for_update_def assign_def end_transaction_def

section \<open>Predicates on the database and the effects\<close>

text \<open>
  Most invariants speak of the committed rows, of the effects and of the wall
  clock only.  Such a predicate survives every primitive that touches none of them.
\<close>

definition core :: "(('r, 'x) world \<Rightarrow> bool) \<Rightarrow> bool" where
  "core I \<longleftrightarrow> (\<forall>w w'. w_db w = w_db w' \<longrightarrow> w_trace w = w_trace w' \<longrightarrow> w_now w = w_now w' \<longrightarrow> I w \<longrightarrow> I w')"

lemma coreD: "core I \<Longrightarrow> I w \<Longrightarrow> w_db w = w_db w' \<Longrightarrow> w_trace w = w_trace w' \<Longrightarrow> w_now w = w_now w' \<Longrightarrow> I w'"
  unfolding core_def by blast

lemma core_intro [simp, intro]:
  "core (\<lambda>w. P (w_db w) (w_trace w) (w_now w))" "core (\<lambda>w. Q (w_db w))" "core (\<lambda>w. T (w_trace w))"
  by (simp_all add: core_def)

lemma core_conj [intro]: "core I \<Longrightarrow> core J \<Longrightarrow> core (\<lambda>w. I w \<and> J w)"
  unfolding core_def by blast

text \<open>
  The same for predicates that speak of the session's pending work and lock too:
  they survive the primitives that touch neither.
\<close>

definition score :: "(('r, 'x) world \<Rightarrow> bool) \<Rightarrow> bool" where
  "score I \<longleftrightarrow> (\<forall>w w'. w_db w = w_db w' \<longrightarrow> w_trace w = w_trace w' \<longrightarrow> w_now w = w_now w' \<longrightarrow>
     w_dirty w = w_dirty w' \<longrightarrow> w_locked w = w_locked w' \<longrightarrow> I w \<longrightarrow> I w')"

lemma core_score [simp]: "core I \<Longrightarrow> score I"
  unfolding core_def score_def by blast

lemma scoreD:
  "score I \<Longrightarrow> I w \<Longrightarrow> w_db w = w_db w' \<Longrightarrow> w_trace w = w_trace w' \<Longrightarrow> w_now w = w_now w' \<Longrightarrow>
   w_dirty w = w_dirty w' \<Longrightarrow> w_locked w = w_locked w' \<Longrightarrow> I w'"
  unfolding score_def by blast

lemma score_intro [simp, intro]:
  "score (\<lambda>w. P (w_db w) (w_trace w) (w_now w) (w_dirty w) (w_locked w))"
  by (simp add: score_def)

lemma score_conj [intro]: "score I \<Longrightarrow> score J \<Longrightarrow> score (\<lambda>w. I w \<and> J w)"
  unfolding score_def by blast

lemma core_modM:
  "core I \<Longrightarrow> (\<And>w. w_db (f w) = w_db w) \<Longrightarrow> (\<And>w. w_trace (f w) = w_trace w) \<Longrightarrow> (\<And>w. w_now (f w) = w_now w) \<Longrightarrow>
   keeps I (modM f)"
  unfolding core_def triple_def by simp

lemma keeps_score:
  assumes "score I" and "\<And>w. w_db (snd (m w)) = w_db w" and "\<And>w. w_trace (snd (m w)) = w_trace w"
    and "\<And>w. w_now (snd (m w)) = w_now w" and "\<And>w. w_dirty (snd (m w)) = w_dirty w"
    and "\<And>w. w_locked (snd (m w)) = w_locked w"
  shows "keeps I m"
  by (rule keepsI, rule scoreD [OF assms(1)], assumption) (simp_all add: assms)

lemma keeps_pure [wp]: "keeps I time_time" "keeps I monotonic" "keeps I utcnow"
  by (auto simp: triple_def world_prim_defs)

lemma keeps_draw [wp]: "score I \<Longrightarrow> keeps I (draw f)"
  by (erule keeps_score) (simp_all add: draw_def split: prod.split)

lemma keeps_random [wp]:
  assumes "score I"
  shows "keeps I (uuid4 S)" "keeps I (token_hex S n)" "keeps I (urandom S n)"
  unfolding uuid4_def token_hex_def urandom_def using keeps_draw [OF assms] by blast+

lemma keeps_local [wp]:
  assumes "score I"
  shows "keeps I (inc m)" "keeps I (observe_latency t s)"
  unfolding inc_def observe_latency_def by (rule keeps_score [OF assms]; simp)+

lemma keeps_session [wp]:
  assumes "core I"
  shows "keeps I (assign i c)" "keeps I end_transaction"
  unfolding assign_def end_transaction_def by (rule core_modM [OF assms]; simp)+

lemma keeps_redis [wp]:
  assumes "score I" and "env_stable S I"
  shows "keeps I (redis_get S k)" "keeps I (redis_exists S k)" "keeps I (redis_set S k v nx ex)"
    "keeps I (redis_delete S k)" "keeps I (redis_incr S k)" "keeps I (redis_expire S k s)"
  unfolding redis_get_def redis_exists_def redis_set_def redis_delete_def redis_incr_def redis_expire_def
  by (rule keeps_awaiting [OF assms(2)], rule keeps_score [OF assms(1)]; simp split: prod.split)+

lemma keeps_select [wp]: "env_stable S I \<Longrightarrow> keeps I (select S f)"
  unfolding select_def by (intro keeps_awaiting keepsI) auto

text \<open>A read returns what some state between the two suspensions holds.\<close>

lemma triple_select:
  assumes "env_stable S I"
  shows "triple I (select S f) (\<lambda>r w. I w \<and> (\<exists>w0. I w0 \<and> r = f (w_db w0))) (\<lambda>_. I)"
  unfolding select_def
  by (rule triple_awaiting) (use assms in \<open>auto simp: triple_def env_stable_def\<close>)

lemma keeps_get_for_update [wp]: "core I \<Longrightarrow> env_stable S I \<Longrightarrow> keeps I (get_for_update S i)"
  unfolding get_for_update_def
  by (intro keeps_awaiting keeps_bindM core_modM) (auto intro: tripleI)

lemma keeps_flush_row [wp]: "score I \<Longrightarrow> env_stable S I \<Longrightarrow> keeps I (flush_row S mk ins)"
  unfolding flush_row_def by (intro wp; simp)

lemma keeps_rollback [wp]: "core I \<Longrightarrow> env_stable S I \<Longrightarrow> keeps I (rollback S)"
  unfolding rollback_def by (intro keeps_bindM keeps_awaiting wp) auto

lemma triple_with_session [wp]:
  assumes "triple (\<lambda>w. P w) m (\<lambda>x w. Q x w) (\<lambda>e w. E e w)"
    and "core P" and "\<And>x. core (Q x)" and "\<And>e. core (E e)"
  shows "triple P (with_session m) Q E"
proof -
  have m: "triple P end_transaction (\<lambda>_. P) E" "\<And>x. triple (Q x) end_transaction (\<lambda>_. Q x) E"
    "\<And>e. triple (E e) (bindM end_transaction (\<lambda>_. raise e)) Q E"
    unfolding end_transaction_def triple_def
    by (auto intro: coreD [OF assms(2)] coreD [OF assms(3)] coreD [OF assms(4)])
  show ?thesis
    unfolding with_session_def
    by (rule triple_bindM [OF m(1)], rule triple_bindM [where R = Q], rule triple_catchM [OF assms(1)])
      (auto intro: m triple_bindM [OF m(2)] wp)
qed

lemma triple_commit:
  assumes "env_stable S P" and "\<And>w. P w \<Longrightarrow> E w" and "\<And>w. Q w \<Longrightarrow> E w"
    and "env_stable S Q" and "env_stable S E" and "core E"
    and "\<And>w db db'. P w \<Longrightarrow> update_accounts (w_dirty w) (w_db w) = Inr db \<Longrightarrow> ins db = Inr db' \<Longrightarrow>
      Q (w\<lparr>w_db := db', w_trace := w_trace w @ evs, w_dirty := [], w_locked := None\<rparr>)"
  shows "triple P (commit S ins evs) (\<lambda>_. Q) (\<lambda>_. E)"
proof -
  have f: "triple P (flush_and_commit ins evs) (\<lambda>_. Q) (\<lambda>_. E)"
    by (rule tripleI) (use assms in \<open>auto simp: flush_and_commit_def split: sum.splits\<close>)
  have "triple P (awaiting S AwaitCommit (flush_and_commit ins evs)) (\<lambda>_. Q) (\<lambda>_. E)"
    by (rule triple_awaiting [OF assms(1) f]) (use assms in auto)
  then show ?thesis
    unfolding commit_def
    by (rule triple_catchM) (auto simp: triple_def end_transaction_def intro: coreD [OF assms(6)])
qed

lemma keeps_commit:
  assumes "env_stable S I" and "core I"
    and "\<And>w db db'. I w \<Longrightarrow> update_accounts (w_dirty w) (w_db w) = Inr db \<Longrightarrow> ins db = Inr db' \<Longrightarrow>
      I (w\<lparr>w_db := db', w_trace := w_trace w @ evs, w_dirty := [], w_locked := None\<rparr>)"
  shows "keeps I (commit S ins evs)"
  using assms by (intro triple_commit) auto

lemma keeps_http_send:
  assumes "env_stable S I" and "score I" and "\<And>w. I w \<Longrightarrow> I (w\<lparr>w_trace := w_trace w @ [EvHttp q]\<rparr>)"
  shows "keeps I (http_send S q)"
  unfolding http_send_def using assms
  by (intro keeps_bindM keeps_awaiting keepsI) (auto split: prod.split intro: scoreD [OF assms(2)])

lemma keeps_sleep:
  assumes "env_stable S I" and "score I" and "\<And>w. I w \<Longrightarrow> I (w\<lparr>w_trace := w_trace w @ [EvSleep d]\<rparr>)"
  shows "keeps I (sleep S d)"
  unfolding sleep_def using assms
  by (intro keeps_bindM keeps_awaiting keepsI) (auto simp: monotonic_def intro: scoreD [OF assms(2)])

text \<open>Every effect added since the trace was \<open>t0\<close> satisfies \<open>ok\<close>.\<close>

definition emits :: "(event \<Rightarrow> bool) \<Rightarrow> event list \<Rightarrow> ('r, 'x) world \<Rightarrow> bool" where
  "emits ok t0 w \<longleftrightarrow> (\<exists>evs. w_trace w = t0 @ evs \<and> list_all ok evs)"

lemma emits_refl [simp]: "emits ok (w_trace w) w"
  by (simp add: emits_def)

lemma emits_step: "emits ok t0 w \<Longrightarrow> ok e \<Longrightarrow> emits ok t0 (w\<lparr>w_trace := w_trace w @ [e]\<rparr>)"
  by (auto simp: emits_def)

lemma emits_stable [simp]: "env_stable S (emits ok t0)"
  by (simp add: env_stable_def emits_def)

lemma emits_core [simp]: "core (emits ok t0)"
  by (simp add: core_def emits_def)

end
