(* ===== verification/Cb_Sample.thy ===== *)
theory Cb_Sample
  imports Cb_World
begin

text \<open>
  Executable stand-ins for the services, for concrete runs of the model: an
  in-memory Redis, counters for randomness, an authenticated toy cipher, tokens
  that carry their payload in clear behind the key, and a provider that answers
  every request with an empty listing.  They satisfy the laws the components
  assume of the real services; nothing else is claimed of them.
\<close>

definition hex_bytes :: "bytes \<Rightarrow> string" where
  "hex_bytes b = concat (map (\<lambda>c. hex_fixed 2 (code c)) b)"

definition sample_tag :: "bytes \<Rightarrow> bytes" where
  "sample_tag key = take 16 (key @ replicate 16 CHR 0x00)"

definition sample_encrypt :: "bytes \<Rightarrow> bytes \<Rightarrow> bytes \<Rightarrow> exn + bytes" where
  "sample_encrypt key nonce p =
     (if length key = 32 then Inr (p @ sample_tag key) else Inl (ValueError ''bad key size''))"

definition sample_decrypt :: "bytes \<Rightarrow> bytes \<Rightarrow> bytes \<Rightarrow> exn + bytes option" where
  "sample_decrypt key nonce c =
     (if length key = 32 then
        Inr (if 16 \<le> length c \<and> drop (length c - 16) c = sample_tag key then Some (take (length c - 16) c) else None)
      else Inl (ValueError ''bad key size''))"

definition sample_jwt_encode :: "dict \<Rightarrow> string \<Rightarrow> exn + string" where
  "sample_jwt_encode d key =
     (if key = [] then Inl (ValueError ''unparseable key'') else Inr (key @ dumps default_opts (JObj d)))"

definition sample_jwt_claims :: "string \<Rightarrow> string list \<Rightarrow> int \<Rightarrow> dict \<Rightarrow> exn + dict" where
  "sample_jwt_claims issuer required now d =
     (if \<exists>c \<in> set required. dict_get d c = None then Inl (PyJWTError ''missing claim'')
      else case dict_get d ''exp'' of
        Some (JInt e) \<Rightarrow>
          if e * 1000000 \<le> now then Inl ExpiredSignatureError
          else if dict_get d ''iss'' \<noteq> Some (JStr issuer) then Inl (PyJWTError ''Invalid issuer'') else Inr d
      | _ \<Rightarrow> Inl (PyJWTError ''bad exp''))"

definition sample_jwt_decode :: "string \<Rightarrow> string \<Rightarrow> string \<Rightarrow> string list \<Rightarrow> int \<Rightarrow> exn + dict" where
  "sample_jwt_decode token key issuer required now =
     (if key = [] \<or> \<not> prefix key token then Inl (PyJWTError ''Signature verification failed'')
      else case loads JNonFinite (drop (length key) token) of
        Some (JObj d) \<Rightarrow> sample_jwt_claims issuer required now d
      | _ \<Rightarrow> Inl (PyJWTError ''Invalid payload''))"

fun sample_http :: "http_request \<Rightarrow> nat \<Rightarrow> (exn + http_response) \<times> nat" where
  "sample_http (HttpGet url ps hs) n =
     (Inr \<lparr>rs_status_code = 200, rs_content = dumps default_opts (JObj [(''files'', JList [])])\<rparr>, n)"
| "sample_http (HttpPost url d) n =
     (Inr \<lparr>rs_status_code = 200,
        rs_content = dumps default_opts (JObj [(''access_token'', JStr ''fresh-access-token''), (''expires_in'', JInt 3600)])\<rparr>, n)"

definition sample_services :: "(memory, nat) services" where
  "sample_services = \<lparr>
     sv_redis = mem_redis,
     sv_interfere = (\<lambda>w. w),
     sv_fault = (\<lambda>k p w. None),
     sv_uuid4 = (\<lambda>n. (of_nat n, n + 1)),
     sv_token_hex = (\<lambda>k n. (hex_fixed (2 * k) n, n + 1)),
     sv_urandom = (\<lambda>k n. (replicate k (char_of (n mod 256)), n + 1)),
     sv_sha256_hex = hex_bytes,
     sv_hmac_hex = (\<lambda>k m. hex_bytes (k @ m)),
     sv_aes_encrypt = sample_encrypt,
     sv_aes_decrypt = sample_decrypt,
     sv_kms_generate = (\<lambda>key n. let k = replicate 32 (char_of (n mod 256)) in (Inr (k, key @ k), n + 1)),
     sv_kms_decrypt = (\<lambda>key b n. (Inr (drop (length key) b), n)),
     sv_jwt_encode = sample_jwt_encode,
     sv_jwt_decode = sample_jwt_decode,
     sv_http = sample_http,
     sv_float = JNonFinite\<rparr>"

definition sample_world :: "(memory, nat) world" where
  "sample_world = fresh_world (\<lambda>_. None) 1 1700000000000000"

lemma sample_quiet [simp]: "quiet sample_services"
  by (simp add: quiet_def sample_services_def)

lemma sample_sel [simp]:
  "sv_redis sample_services = mem_redis"
  "sv_uuid4 sample_services n = (of_nat n, n + 1)"
  "sv_token_hex sample_services k n = (hex_fixed (2 * k) n, n + 1)"
  "sv_urandom sample_services k n = (replicate k (char_of (n mod 256)), n + 1)"
  "sv_sha256_hex sample_services = hex_bytes"
  "sv_hmac_hex sample_services k' m = hex_bytes (k' @ m)"
  "sv_aes_encrypt sample_services = sample_encrypt"
  "sv_aes_decrypt sample_services = sample_decrypt"
  "sv_jwt_encode sample_services = sample_jwt_encode"
  "sv_jwt_decode sample_services = sample_jwt_decode"
  "sv_http sample_services = sample_http"
  "sv_float sample_services = JNonFinite"
  by (simp_all add: sample_services_def)

lemma sample_world_sel [simp]:
  "w_now sample_world = 1700000000000000" "w_ext sample_world = 1" "w_db sample_world = empty_db"
  "w_secrets sample_world = []" "w_circuits sample_world = (\<lambda>_. None)" "w_mono sample_world = 0"
  "w_dirty sample_world = []" "w_trace sample_world = []" "w_locked sample_world = None"
  "w_http_client sample_world = None" "w_owns_http_client sample_world = False"
  "w_closed_clients sample_world = []"
  by (simp_all add: sample_world_def fresh_world_def)

lemma sample_redis_server [simp]: "redis_server mem_redis"
  by (rule mem.redis_server_axioms)

lemma sample_redis_empty [simp]: "rd_get mem_redis t k (w_redis sample_world) = None"
  by (simp add: sample_world_def fresh_world_def mem_redis_def mem_get_def)

lemma length_hex_bytes [simp]: "length (hex_bytes b) = 2 * length b"
  by (induction b) (simp_all add: hex_bytes_def)

lemma hex_bytes_chars: "c \<in> set (hex_bytes b) \<Longrightarrow> c \<noteq> CHR ''|'' \<and> c \<noteq> CHR '':'' \<and> code c < 128"
  unfolding hex_bytes_def using hex_fixed_chars by fastforce

end
