(* ===== verification/Cb_Tokens.thy ===== *)
theory Cb_Tokens
  imports Cb_Values Cb_Sample
begin

text \<open>
  Grant tokens (\<open>credbroker/grants/tokens.py\<close>): signing, offline verification and
  the hash that is stored.  PyJWT is a service; the locale \<open>jwt_library\<close> states
  what its documentation promises of \<open>encode\<close> and \<open>decode\<close>.
\<close>

definition REQUIRED_CLAIMS :: "string list" where
  "REQUIRED_CLAIMS = [''iss'', ''sub'', ''jti'', ''iat'', ''exp'']"

record grant_claims =
  cl_grant_id :: uuid
  cl_agent_id :: uuid
  cl_tool_name :: string
  cl_scope :: string

definition hash_token :: "('r, 'x) services \<Rightarrow> string \<Rightarrow> string" where
  "hash_token S token = sv_sha256_hex S token"

definition token_payload :: "settings \<Rightarrow> uuid \<Rightarrow> uuid \<Rightarrow> string \<Rightarrow> string \<Rightarrow> datetime \<Rightarrow> datetime \<Rightarrow> dict" where
  "token_payload st grant_id agent_id tool_name scope issued_at expires_at =
     [(''iss'', JStr (jwt_issuer st)),
      (''sub'', JStr (uuid_str agent_id)),
      (''jti'', JStr (uuid_str grant_id)),
      (''tool'', JStr tool_name),
      (''scope'', JStr scope),
      (''iat'', JInt (epoch_seconds issued_at)),
      (''exp'', JInt (epoch_seconds expires_at))]"

definition sign_grant_token :: "('r, 'x) services \<Rightarrow> settings \<Rightarrow> uuid \<Rightarrow> uuid \<Rightarrow> string \<Rightarrow> string
    \<Rightarrow> datetime \<Rightarrow> datetime \<Rightarrow> exn + string" where
  "sign_grant_token S st grant_id agent_id tool_name scope issued_at expires_at =
     sv_jwt_encode S (token_payload st grant_id agent_id tool_name scope issued_at expires_at) (jwt_private_key_pem st)"

definition claims_of :: "dict \<Rightarrow> exn + grant_claims" where
  "claims_of payload =
     (case dict_item payload ''jti'' of Inl e \<Rightarrow> Inl e | Inr j \<Rightarrow>
      case json_uuid j of Inl e \<Rightarrow> Inl e | Inr grant_id \<Rightarrow>
      case dict_item payload ''sub'' of Inl e \<Rightarrow> Inl e | Inr s \<Rightarrow>
      case json_uuid s of Inl e \<Rightarrow> Inl e | Inr agent_id \<Rightarrow>
      case dict_item payload ''tool'' of Inl e \<Rightarrow> Inl e | Inr t \<Rightarrow>
      case dict_item payload ''scope'' of Inl e \<Rightarrow> Inl e | Inr sc \<Rightarrow>
      Inr \<lparr>cl_grant_id = grant_id, cl_agent_id = agent_id, cl_tool_name = json_str t, cl_scope = json_str sc\<rparr>)"

fun is_claims_error :: "exn \<Rightarrow> bool" where
  "is_claims_error (KeyError _) = True"
| "is_claims_error (TypeError _) = True"
| "is_claims_error e = is_ValueError e"

definition verify_at :: "('r, 'x) services \<Rightarrow> string \<Rightarrow> settings \<Rightarrow> int \<Rightarrow> exn + grant_claims" where
  "verify_at S token st now =
     (case sv_jwt_decode S token (jwt_public_key_pem st) (jwt_issuer st) REQUIRED_CLAIMS now of
        Inl e \<Rightarrow>
          if e = ExpiredSignatureError then Inl (broker_error GrantExpiredError ''grant token has expired'')
          else if is_PyJWTError e \<or> is_ValueError e then Inl (broker_error GrantTokenInvalidError ''grant token is invalid'')
          else Inl e
      | Inr payload \<Rightarrow>
          (case claims_of payload of
             Inl e \<Rightarrow>
               if is_claims_error e then Inl (broker_error GrantTokenInvalidError ''grant token claims are malformed'')
               else Inl e
           | Inr c \<Rightarrow> Inr c))"

definition verify_grant_token :: "('r, 'x) services \<Rightarrow> string \<Rightarrow> settings \<Rightarrow> ('r, 'x, grant_claims) io" where
  "verify_grant_token S token st = bindM time_time (\<lambda>now. liftE (verify_at S token st now))"

lemma verify_run [prog_simps]: "verify_grant_token S token st w = (verify_at S token st (w_now w), w)"
  by (simp add: verify_grant_token_def time_time_def bindM_def)

lemma keeps_verify [wp]: "keeps I (verify_grant_token S token st)"
  by (rule keepsI) (simp add: verify_run)

section \<open>The JWT library\<close>

text \<open>
  A token signed with one half of a key pair is accepted under the other half, if its
  registered claims are of the types the library wants, for the issuer it names, from its \<open>iat\<close> to just before its \<open>exp\<close>, and yields the
  payload it was signed with; from \<open>exp\<close> on it is reported as expired.  An accepted
  token carries every required claim and the expected issuer and has not expired.
\<close>

definition plain_claims :: "dict \<Rightarrow> bool" where
  "plain_claims d \<longleftrightarrow> (\<exists>s. dict_get d ''sub'' = Some (JStr s)) \<and> (\<exists>j. dict_get d ''jti'' = Some (JStr j)) \<and>
     dict_get d ''nbf'' = None \<and> dict_get d ''aud'' = None"

locale jwt_library =
  fixes S :: "('r, 'x) services"
    and keypair :: "string \<Rightarrow> string \<Rightarrow> bool"
  assumes jwt_accept:
    "keypair priv pub \<Longrightarrow> sv_jwt_encode S d priv = Inr t \<Longrightarrow> wf_json (sv_float S) (JObj d) \<Longrightarrow> plain_claims d \<Longrightarrow>
     \<forall>c \<in> set req. dict_get d c \<noteq> None \<Longrightarrow> dict_get d ''iss'' = Some (JStr issuer) \<Longrightarrow>
     dict_get d ''iat'' = Some (JInt iat) \<Longrightarrow> iat * 1000000 \<le> now \<Longrightarrow>
     dict_get d ''exp'' = Some (JInt e) \<Longrightarrow> now < e * 1000000 \<Longrightarrow>
     sv_jwt_decode S t pub issuer req now = Inr d"
    and jwt_expired:
    "keypair priv pub \<Longrightarrow> sv_jwt_encode S d priv = Inr t \<Longrightarrow> wf_json (sv_float S) (JObj d) \<Longrightarrow> plain_claims d \<Longrightarrow>
     \<forall>c \<in> set req. dict_get d c \<noteq> None \<Longrightarrow> dict_get d ''iss'' = Some (JStr issuer) \<Longrightarrow>
     dict_get d ''iat'' = Some (JInt iat) \<Longrightarrow> iat * 1000000 \<le> now \<Longrightarrow>
     dict_get d ''exp'' = Some (JInt e) \<Longrightarrow> e * 1000000 \<le> now \<Longrightarrow>
     sv_jwt_decode S t pub issuer req now = Inl ExpiredSignatureError"
    and jwt_valid:
    "sv_jwt_decode S t pub issuer req now = Inr d \<Longrightarrow>
     (\<forall>c \<in> set req. dict_get d c \<noteq> None) \<and> dict_get d ''iss'' = Some (JStr issuer) \<and>
     (\<forall>e. dict_get d ''exp'' = Some (JInt e) \<longrightarrow> now < e * 1000000)"
begin

lemma payload_wf:
  assumes "utf8_ok (map code (jwt_issuer st))" and "utf8_ok (map code tool)" and "utf8_ok (map code scope)"
  shows "wf_json (sv_float S) (JObj (token_payload st g a tool scope i e))"
proof -
  have k: "list_all (\<lambda>k. utf8_ok (map code k)) [''iss'', ''sub'', ''jti'', ''tool'', ''scope'', ''iat'', ''exp'']"
    by code_simp
  show ?thesis using assms k by (simp add: token_payload_def)
qed

lemma payload_plain: "plain_claims (token_payload st g a tool scope i e)"
  by (simp add: plain_claims_def token_payload_def)

lemma signed_accepted:
  assumes "keypair (jwt_private_key_pem st) (jwt_public_key_pem st)"
    and "sign_grant_token S st g a tool scope i e = Inr t"
    and "utf8_ok (map code (jwt_issuer st))" "utf8_ok (map code tool)" "utf8_ok (map code scope)"
    and "epoch_seconds i * 1000000 \<le> now" and "now < epoch_seconds e * 1000000"
  shows "verify_at S t st now = Inr \<lparr>cl_grant_id = g, cl_agent_id = a, cl_tool_name = tool, cl_scope = scope\<rparr>"
proof -
  have "sv_jwt_decode S t (jwt_public_key_pem st) (jwt_issuer st) REQUIRED_CLAIMS now = Inr (token_payload st g a tool scope i e)"
    by (rule jwt_accept [OF assms(1) assms(2) [unfolded sign_grant_token_def] payload_wf [OF assms(3-5)] payload_plain,
        where iat = "epoch_seconds i" and e = "epoch_seconds e"])
      (use assms(6,7) in \<open>auto simp: token_payload_def REQUIRED_CLAIMS_def\<close>)
  then show ?thesis by (simp add: verify_at_def claims_of_def dict_item_def token_payload_def)
qed

lemma signed_expired:
  assumes "keypair (jwt_private_key_pem st) (jwt_public_key_pem st)"
    and "sign_grant_token S st g a tool scope i e = Inr t"
    and "utf8_ok (map code (jwt_issuer st))" "utf8_ok (map code tool)" "utf8_ok (map code scope)"
    and "epoch_seconds i * 1000000 \<le> now" and "epoch_seconds e * 1000000 \<le> now"
  shows "verify_at S t st now = Inl (broker_error GrantExpiredError ''grant token has expired'')"
proof -
  have "sv_jwt_decode S t (jwt_public_key_pem st) (jwt_issuer st) REQUIRED_CLAIMS now = Inl ExpiredSignatureError"
    by (rule jwt_expired [OF assms(1) assms(2) [unfolded sign_grant_token_def] payload_wf [OF assms(3-5)] payload_plain,
        where iat = "epoch_seconds i" and e = "epoch_seconds e"])
      (use assms(6,7) in \<open>auto simp: token_payload_def REQUIRED_CLAIMS_def\<close>)
  then show ?thesis by (simp add: verify_at_def)
qed

end

interpretation sample_jwt: jwt_library sample_services "\<lambda>priv pub. priv = pub"
proof unfold_locales
  fix priv pub t issuer :: string and d :: dict and req :: "string list" and iat now e :: int
  assume d: "priv = pub" "sv_jwt_encode sample_services d priv = Inr t" "wf_json (sv_float sample_services) (JObj d)"
  have t: "priv \<noteq> []" "t = priv @ dumps default_opts (JObj d)"
    using d(2) by (auto simp: sample_jwt_encode_def split: if_splits)
  have "loads JNonFinite (dumps default_opts (JObj d)) = Some (JObj d)"
    using d(3) by (intro loads_dumps) simp
  then have dec: "sv_jwt_decode sample_services t pub issuer req now = sample_jwt_claims issuer req now d"
    using t d(1) by (simp add: sample_jwt_decode_def)
  assume c: "\<forall>c \<in> set req. dict_get d c \<noteq> None" "dict_get d ''iss'' = Some (JStr issuer)"
    "dict_get d ''exp'' = Some (JInt e)"
  show "sv_jwt_decode sample_services t pub issuer req now = Inr d" if "now < e * 1000000"
    using dec c that by (auto simp: sample_jwt_claims_def)
  show "sv_jwt_decode sample_services t pub issuer req now = Inl ExpiredSignatureError" if "e * 1000000 \<le> now"
    using dec c that by (auto simp: sample_jwt_claims_def)
next
  fix t pub issuer :: string and req :: "string list" and now :: int and d :: dict
  assume "sv_jwt_decode sample_services t pub issuer req now = Inr d"
  then show "(\<forall>c \<in> set req. dict_get d c \<noteq> None) \<and> dict_get d ''iss'' = Some (JStr issuer) \<and>
     (\<forall>e. dict_get d ''exp'' = Some (JInt e) \<longrightarrow> now < e * 1000000)"
    by (auto simp: sample_jwt_decode_def sample_jwt_claims_def split: if_splits option.splits json.splits)
qed

section \<open>Properties\<close>

lemma epoch_floor: "0 \<le> instant d \<Longrightarrow> epoch_seconds d * 1000000 \<le> instant d"
  by (simp add: epoch_seconds_def Let_def)

text \<open>
  C21: a grant token verifies to exactly the grant, agent, tool and scope it was
  signed for from its issue to its expiry, reports expiry from then on, and is never
  accepted at or after the instant the grant row expires.
\<close>

theorem grant_token_roundtrip:
  assumes "jwt_library S keypair" and "keypair (jwt_private_key_pem st) (jwt_public_key_pem st)"
    and "sign_grant_token S st g a tool scope i e = Inr t"
    and "utf8_ok (map code (jwt_issuer st))" "utf8_ok (map code tool)" "utf8_ok (map code scope)"
    and "0 \<le> instant i" and "0 \<le> instant e" and "instant i \<le> w_now w"
  shows "verify_grant_token S t st w =
    (if w_now w < epoch_seconds e * 1000000
     then Inr \<lparr>cl_grant_id = g, cl_agent_id = a, cl_tool_name = tool, cl_scope = scope\<rparr>
     else Inl (broker_error GrantExpiredError ''grant token has expired''), w) \<and>
    epoch_seconds e * 1000000 \<le> instant e"
proof -
  have i: "epoch_seconds i * 1000000 \<le> w_now w" using epoch_floor [OF assms(7)] assms(9) by linarith
  show ?thesis
    using jwt_library.signed_accepted [OF assms(1-6) i] jwt_library.signed_expired [OF assms(1-6) i]
      epoch_floor [OF assms(8)] by (simp add: verify_run not_less)
qed

abbreviation sample_settings :: settings where
  "sample_settings \<equiv> default_settings\<lparr>jwt_private_key_pem := ''key'', jwt_public_key_pem := ''key''\<rparr>"

theorem grant_token_roundtrip_witness:
  "\<exists>t. sign_grant_token sample_services sample_settings 7 8 ''drive.read'' ''read''
        (Aware 1700000000000000) (Aware 1700000300000000) = Inr t \<and>
     fst (verify_grant_token sample_services t sample_settings sample_world) =
       Inr \<lparr>cl_grant_id = 7, cl_agent_id = 8, cl_tool_name = ''drive.read'', cl_scope = ''read''\<rparr>"
proof -
  obtain t where t: "sign_grant_token sample_services sample_settings 7 8 ''drive.read'' ''read''
        (Aware 1700000000000000) (Aware 1700000300000000) = Inr t"
    by (simp add: sign_grant_token_def sample_jwt_encode_def)
  have "list_all (\<lambda>k. utf8_ok (map code k)) [''credbroker'', ''drive.read'', ''read'']" by code_simp
  then have u: "utf8_ok (map code (jwt_issuer sample_settings))" "utf8_ok (map code ''drive.read'')" "utf8_ok (map code ''read'')"
    by (simp_all add: default_settings_def)
  have "fst (verify_grant_token sample_services t sample_settings sample_world) =
       Inr \<lparr>cl_grant_id = 7, cl_agent_id = 8, cl_tool_name = ''drive.read'', cl_scope = ''read''\<rparr>"
    using grant_token_roundtrip [OF sample_jwt.jwt_library_axioms _ t u, of sample_world]
    by (simp add: epoch_seconds_def)
  then show ?thesis using t by blast
qed

text \<open>
  Verification fails closed with one of the two errors the invoke path denies
  on.  As long as PyJWT raises only its own errors or \<open>ValueError\<close>, and the subject
  and id claims of a signed payload are text, a token that is not accepted raises
  \<open>GrantExpiredError\<close> or \<open>GrantTokenInvalidError\<close>, and nothing else.
\<close>

theorem verify_errors:
  assumes "\<And>e. sv_jwt_decode S t (jwt_public_key_pem st) (jwt_issuer st) REQUIRED_CLAIMS (w_now w) = Inl e \<Longrightarrow>
      is_PyJWTError e \<or> is_ValueError e"
    and "\<And>d c v. sv_jwt_decode S t (jwt_public_key_pem st) (jwt_issuer st) REQUIRED_CLAIMS (w_now w) = Inr d \<Longrightarrow>
      c \<in> {''jti'', ''sub''} \<Longrightarrow> dict_get d c = Some v \<Longrightarrow> \<exists>s. v = JStr s"
    and "verify_grant_token S t st w = (Inl e, w')"
  shows "w' = w \<and> (broker_class e = Some GrantExpiredError \<or> broker_class e = Some GrantTokenInvalidError)"
proof -
  have v: "verify_at S t st (w_now w) = Inl e" "w' = w" using assms(3) by (auto simp: verify_run)
  show ?thesis
  proof (cases "sv_jwt_decode S t (jwt_public_key_pem st) (jwt_issuer st) REQUIRED_CLAIMS (w_now w)")
    case (Inl x)
    then show ?thesis using v assms(1) [OF Inl] by (auto simp: verify_at_def split: if_splits)
  next
    case (Inr d)
    have uuid_err: "is_claims_error x" if "dict_get d c = Some y" "c \<in> {''jti'', ''sub''}" "json_uuid y = Inl x" for c y x
      using assms(2) [OF Inr that(2,1)] that(3) by (auto simp: json_uuid_def split: option.splits)
    have "is_claims_error x" if "claims_of d = Inl x" for x
      using that uuid_err by (auto simp: claims_of_def dict_item_def split: sum.splits option.splits)
    then show ?thesis using v Inr by (auto simp: verify_at_def split: sum.splits if_splits)
  qed
qed

theorem verify_errors_witness:
  "broker_class (case fst (verify_grant_token sample_services ''forged'' sample_settings sample_world) of Inl e \<Rightarrow> e)
     \<in> {Some GrantExpiredError, Some GrantTokenInvalidError}"
proof -
  have d: "sv_jwt_decode sample_services ''forged'' (jwt_public_key_pem sample_settings) (jwt_issuer sample_settings)
      REQUIRED_CLAIMS (w_now sample_world) = Inl (PyJWTError ''Signature verification failed'')"
    by (simp add: sample_jwt_decode_def)
  obtain e where e: "verify_grant_token sample_services ''forged'' sample_settings sample_world = (Inl e, sample_world)"
    using d by (simp add: verify_run verify_at_def)
  have "broker_class e = Some GrantExpiredError \<or> broker_class e = Some GrantTokenInvalidError"
    using verify_errors [of sample_services "''forged''" sample_settings sample_world e sample_world] d e by simp
  then show ?thesis using e by auto
qed

end
