(* ===== verification/Cb_Retry.thy ===== *)
theory Cb_Retry
  imports Cb_Sample
begin

text \<open>
  Retries with backoff around an outbound call (\<open>default_retryable\<close> and
  \<open>call_with_retries\<close> of \<open>credbroker/reliability/retry.py\<close>).  The breaker a call
  is guarded by is an object the caller passes: here its three methods as
  computations.  \<open>circuit_object p\<close> is the breaker the invoke service keeps for
  provider \<open>p\<close>.
\<close>

section \<open>Capturing an exception\<close>

definition tryM :: "('s, 'e, 'a) prog \<Rightarrow> ('s, 'e, 'e + 'a) prog" where
  "tryM m = (\<lambda>s. case m s of (r, s') \<Rightarrow> (Inr r, s'))"

lemma tryM_run [simp, prog_simps]: "m s = (r, s') \<Longrightarrow> tryM m s = (Inr r, s')"
  by (simp add: tryM_def)

lemma triple_tryM:
  "triple P m Q E \<Longrightarrow> triple P (tryM m) (\<lambda>r s. case r of Inl e \<Rightarrow> E e s | Inr x \<Rightarrow> Q x s) E'"
  by (auto simp: triple_def tryM_def split: prod.splits sum.splits)

lemma snd_tryM: "snd (tryM m s) = snd (m s)"
  by (simp add: tryM_def split: prod.split)

lemma keeps_tryM [wp]: "keeps I m \<Longrightarrow> keeps I (tryM m)"
  by (rule keepsI) (simp add: snd_tryM keepsD)

section \<open>The source\<close>

definition default_retryable :: "exn \<Rightarrow> bool" where
  "default_retryable exc =
     (if is_TimeoutException exc \<or> is_TransportError exc then True
      else if broker_class exc = Some ProviderCallError
      then (case status_code exc of None \<Rightarrow> False | Some c \<Rightarrow> c \<ge> 500)
      else False)"

record ('r, 'x) circuit_ops =
  co_allow :: "('r, 'x, bool) io"
  co_record_success :: "('r, 'x, unit) io"
  co_record_failure :: "('r, 'x, unit) io"

definition unavailable :: exn where
  "unavailable = broker_error ProviderUnavailableError ''provider temporarily unavailable (circuit breaker open)''"

fun attempts :: "('r, 'x) services \<Rightarrow> ('r, 'x, 'a) io \<Rightarrow> nat \<Rightarrow> real \<Rightarrow> ('r, 'x) circuit_ops option
    \<Rightarrow> (exn \<Rightarrow> bool) \<Rightarrow> nat \<Rightarrow> nat \<Rightarrow> ('r, 'x, 'a) io" where
  "attempts S fn max_retries base_delay circuit retryable attempt 0 =
     raise (OtherException ''AssertionError'' ''unreachable'')"
| "attempts S fn max_retries base_delay circuit retryable attempt (Suc n) =
     bindM (case circuit of None \<Rightarrow> ret True | Some c \<Rightarrow> co_allow c) (\<lambda>allowed.
     if \<not> allowed then raise unavailable
     else
       bindM (tryM fn) (\<lambda>outcome.
       case outcome of
         Inl exc \<Rightarrow>
           if \<not> is_Exception exc \<or> \<not> retryable exc then raise exc
           else
             bindM (case circuit of None \<Rightarrow> ret () | Some c \<Rightarrow> co_record_failure c) (\<lambda>_.
             if attempt \<ge> max_retries then raise exc
             else
               bindM (sleep S (base_delay * 2 ^ attempt)) (\<lambda>_.
               attempts S fn max_retries base_delay circuit retryable (attempt + 1) n))
       | Inr result \<Rightarrow>
           bindM (case circuit of None \<Rightarrow> ret () | Some c \<Rightarrow> co_record_success c) (\<lambda>_.
           ret result)))"

definition call_with_retries :: "('r, 'x) services \<Rightarrow> ('r, 'x, 'a) io \<Rightarrow> int \<Rightarrow> real
    \<Rightarrow> ('r, 'x) circuit_ops option \<Rightarrow> (exn \<Rightarrow> bool) \<Rightarrow> ('r, 'x, 'a) io" where
  "call_with_retries S fn max_retries base_delay circuit retryable =
     (if max_retries < 0 then raise (ValueError ''max_retries must be >= 0'')
      else if base_delay < 0 then raise (ValueError ''base_delay must be >= 0'')
      else attempts S fn (nat max_retries) base_delay circuit retryable 0 (nat max_retries + 1))"

section \<open>The breaker of a provider\<close>

text \<open>
  A method call on the breaker object stored for a provider: it reads the clock,
  updates the object and returns.
\<close>

definition on_circuit :: "string \<Rightarrow> (real \<Rightarrow> circuit \<Rightarrow> 'a \<times> circuit) \<Rightarrow> ('r, 'x, 'a) io" where
  "on_circuit p f = (\<lambda>w.
     case w_circuits w p of
       None \<Rightarrow> (Inl (AttributeError ''no circuit''), w)
     | Some c \<Rightarrow> (case f (w_mono w) c of (a, c') \<Rightarrow> (Inr a, w\<lparr>w_circuits := (w_circuits w)(p \<mapsto> c')\<rparr>)))"

definition circuit_object :: "string \<Rightarrow> ('r, 'x) circuit_ops" where
  "circuit_object p = \<lparr>
     co_allow = on_circuit p allow,
     co_record_success = on_circuit p (\<lambda>_ c. ((), record_success c)),
     co_record_failure = on_circuit p (\<lambda>now c. ((), record_failure now c))\<rparr>"

lemma keeps_on_circuit [wp]: "score I \<Longrightarrow> keeps I (on_circuit p f)"
  by (erule keeps_score) (simp_all add: on_circuit_def split: option.split prod.split)

section \<open>The contract of a breaker and what a call does under it\<close>

text \<open>
  \<open>blocks w\<close>: the breaker refuses calls in state \<open>w\<close>.  Asking it then answers no
  and touches nothing but the breaker itself; recording an outcome never fails.
\<close>

locale breaker_object =
  fixes c :: "('r, 'x) circuit_ops"
    and blocks :: "('r, 'x) world \<Rightarrow> bool"
    and present :: "('r, 'x) world \<Rightarrow> bool"
  assumes blocked: "present w \<Longrightarrow> blocks w \<Longrightarrow> fst (co_allow c w) = Inr False"
    and open_way: "present w \<Longrightarrow> \<not> blocks w \<Longrightarrow> fst (co_allow c w) = Inr True"
    and allow_frame: "\<exists>cs. snd (co_allow c w) = w\<lparr>w_circuits := cs\<rparr>"
    and allow_present: "present w \<Longrightarrow> present (snd (co_allow c w))"
    and success_ok: "present w \<Longrightarrow> fst (co_record_success c w) = Inr ()"
    and success_frame: "\<exists>cs. snd (co_record_success c w) = w\<lparr>w_circuits := cs\<rparr>"
    and failure_frame: "\<exists>cs. snd (co_record_failure c w) = w\<lparr>w_circuits := cs\<rparr>"
    and success_unblocks: "present w \<Longrightarrow> \<not> blocks (snd (co_record_success c w))"
begin

lemma blocked_call:
  assumes "present w" and "blocks w" and "0 \<le> max_retries" and "0 \<le> base_delay"
  shows "\<exists>cs. call_with_retries S fn max_retries base_delay (Some c) retryable w = (Inl unavailable, w\<lparr>w_circuits := cs\<rparr>)"
proof -
  obtain cs where "co_allow c w = (Inr False, w\<lparr>w_circuits := cs\<rparr>)"
    using blocked [OF assms(1,2)] allow_frame [of w] by (metis prod.collapse)
  then show ?thesis using assms(3,4) by (auto simp: call_with_retries_def bindM_def)
qed

lemma rejected_call:
  assumes "present w" and "\<not> blocks w" and "0 \<le> max_retries" and "0 \<le> base_delay"
    and "fn (snd (co_allow c w)) = (Inl e, w')" and "\<not> is_Exception e \<or> \<not> retryable e"
  shows "call_with_retries S fn max_retries base_delay (Some c) retryable w = (Inl e, w')"
proof -
  obtain w1 where "co_allow c w = (Inr True, w1)"
    using open_way [OF assms(1,2)] by (cases "co_allow c w") auto
  then show ?thesis using assms(3-6) by (auto simp: call_with_retries_def bindM_def tryM_def)
qed

lemma accepted_call:
  assumes "present w" and "\<not> blocks w" and "0 \<le> max_retries" and "0 \<le> base_delay"
    and "fn (snd (co_allow c w)) = (Inr x, w')" and "present w'"
  shows "call_with_retries S fn max_retries base_delay (Some c) retryable w = (Inr x, snd (co_record_success c w'))"
    and "\<not> blocks (snd (co_record_success c w'))"
proof -
  obtain w1 where "co_allow c w = (Inr True, w1)"
    using open_way [OF assms(1,2)] by (cases "co_allow c w") auto
  moreover obtain w2 where "co_record_success c w' = (Inr (), w2)"
    using success_ok [OF assms(6)] by (cases "co_record_success c w'") auto
  ultimately show "call_with_retries S fn max_retries base_delay (Some c) retryable w = (Inr x, snd (co_record_success c w'))"
    using assms(3-5) by (simp add: call_with_retries_def bindM_def tryM_def)
  show "\<not> blocks (snd (co_record_success c w'))" by (rule success_unblocks [OF assms(6)])
qed

end

text \<open>The provider's breaker refuses while it is open or probing.\<close>

definition circuit_blocks :: "string \<Rightarrow> ('r, 'x) world \<Rightarrow> bool" where
  "circuit_blocks p w \<longleftrightarrow> (\<exists>c. w_circuits w p = Some c \<and> \<not> fst (allow (w_mono w) c))"

definition has_circuit :: "string \<Rightarrow> ('r, 'x) world \<Rightarrow> bool" where
  "has_circuit p w \<longleftrightarrow> w_circuits w p \<noteq> None"

lemma allow_after_success: "fst (allow t (record_success c))"
  by (simp add: allow_def record_success_def sync_def Let_def)

lemma circuits_same: "\<exists>cs. w = w\<lparr>w_circuits := cs\<rparr>"
  by (rule exI [of _ "w_circuits w"]) simp

interpretation po: breaker_object "circuit_object p" "circuit_blocks p" "has_circuit p"
  by unfold_locales
    (auto simp: circuit_object_def on_circuit_def circuit_blocks_def has_circuit_def allow_after_success
      split: option.splits prod.splits intro: circuits_same)

section \<open>Attempts, sleeps and their number\<close>

fun is_sleep :: "event \<Rightarrow> bool" where
  "is_sleep (EvSleep d) = True"
| "is_sleep _ = False"

text \<open>A call that has at most one effect, and does not sleep itself.\<close>

definition one_effect :: "('r, 'x, 'a) io \<Rightarrow> bool" where
  "one_effect fn \<longleftrightarrow>
     (\<forall>w. \<exists>evs. w_trace (snd (fn w)) = w_trace w @ evs \<and> length evs \<le> 1 \<and> list_all (\<lambda>e. \<not> is_sleep e) evs)"

lemma suspend_trace [simp]: "w_trace (snd (suspend S k ph w)) = w_trace w"
  by (simp add: suspend_def Let_def split: option.split)

lemma awaiting_trace:
  assumes "\<And>w. w_trace (snd (m w)) = w_trace w"
  shows "w_trace (snd (awaiting S k m w)) = w_trace w"
proof -
  obtain a w1 where 1: "suspend S k Before w = (a, w1)" by force
  obtain r w2 where 2: "m w1 = (r, w2)" by force
  obtain b w3 where 3: "suspend S k After w2 = (b, w3)" by force
  have "w_trace w1 = w_trace w" "w_trace w2 = w_trace w1" "w_trace w3 = w_trace w2"
    using suspend_trace [of S k Before w] suspend_trace [of S k After w2] assms [of w1] 1 2 3 by simp_all
  then show ?thesis using 1 2 3 by (simp add: awaiting_def split: sum.split)
qed

lemma sleep_trace: "w_trace (snd (sleep S d w)) = w_trace w @ [EvSleep d]"
  by (simp add: sleep_def monotonic_def bindM_def awaiting_trace)

lemma on_circuit_trace [simp]: "w_trace (snd (on_circuit p f w)) = w_trace w"
  by (simp add: on_circuit_def split: option.split prod.split)

lemma circuit_object_trace [simp]:
  "w_trace (snd (co_allow (circuit_object p) w)) = w_trace w"
  "w_trace (snd (co_record_success (circuit_object p) w)) = w_trace w"
  "w_trace (snd (co_record_failure (circuit_object p) w)) = w_trace w"
  by (simp_all add: circuit_object_def)

text \<open>
  The effects of a run of attempts from number \<open>i\<close> on: sleeps of doubling
  length, at most one call before each and one after the last.
\<close>

definition backoff_trace :: "real \<Rightarrow> nat \<Rightarrow> nat \<Rightarrow> event list \<Rightarrow> bool" where
  "backoff_trace base i n evs \<longleftrightarrow>
     (\<exists>k \<le> n. filter is_sleep evs = map (\<lambda>j. EvSleep (base * 2 ^ j)) [i..<i + k] \<and>
        length (filter (\<lambda>e. \<not> is_sleep e) evs) \<le> k + 1)"

lemma backoff_once: "length evs \<le> 1 \<Longrightarrow> list_all (\<lambda>e. \<not> is_sleep e) evs \<Longrightarrow> backoff_trace base i n evs"
  unfolding backoff_trace_def by (rule exI [of _ 0]) (auto simp: list_all_iff filter_empty_conv le_trans [OF length_filter_le])

lemma backoff_more:
  assumes "length evs \<le> 1" and "list_all (\<lambda>e. \<not> is_sleep e) evs" and "backoff_trace base (Suc i) n evs'"
  shows "backoff_trace base i (Suc n) (evs @ EvSleep (base * 2 ^ i) # evs')"
proof -
  obtain k where k: "k \<le> n" "filter is_sleep evs' = map (\<lambda>j. EvSleep (base * 2 ^ j)) [Suc i..<Suc i + k]"
    "length (filter (\<lambda>e. \<not> is_sleep e) evs') \<le> k + 1"
    using assms(3) by (auto simp: backoff_trace_def)
  have "filter is_sleep evs = []" using assms(2) by (simp add: list_all_iff filter_empty_conv)
  moreover have "length (filter (\<lambda>e. \<not> is_sleep e) evs) \<le> 1"
    using assms(1) by (rule order_trans [OF length_filter_le])
  ultimately show ?thesis
    using k unfolding backoff_trace_def by (intro exI [of _ "Suc k"]) (auto simp: upt_conv_Cons)
qed

lemma attempts_trace:
  assumes "one_effect fn" and "circuit = None \<or> (\<exists>p. circuit = Some (circuit_object p))"
  shows "i + n = m + 1 \<Longrightarrow>
    \<exists>evs. w_trace (snd (attempts S fn m base circuit retryable i n w)) = w_trace w @ evs \<and> backoff_trace base i (n - 1) evs"
proof (induction n arbitrary: i w)
  case 0
  then show ?case by (simp add: backoff_once)
next
  case (Suc n)
  let ?allow = "case circuit of None \<Rightarrow> ret True | Some c \<Rightarrow> co_allow c"
  let ?fail = "case circuit of None \<Rightarrow> ret () | Some c \<Rightarrow> co_record_failure c"
  let ?succ = "case circuit of None \<Rightarrow> ret () | Some c \<Rightarrow> co_record_success c"
  have tr: "w_trace (snd (?allow v)) = w_trace v" "w_trace (snd (?fail v)) = w_trace v" "w_trace (snd (?succ v)) = w_trace v" for v
    using assms(2) by auto
  obtain a w1 where 1: "?allow w = (a, w1)" by force
  have t1: "w_trace w1 = w_trace w" using tr(1) [of w] 1 by simp
  obtain r w2 where 2: "fn w1 = (r, w2)" by force
  obtain evs where e: "w_trace w2 = w_trace w @ evs" "length evs \<le> 1" "list_all (\<lambda>e. \<not> is_sleep e) evs"
    using assms(1) 2 t1 unfolding one_effect_def by (metis snd_conv)
  obtain b w3 where 3: "?fail w2 = (b, w3)" by force
  have t3: "w_trace w3 = w_trace w2" using tr(2) [of w2] 3 by simp
  obtain c w4 where 4: "sleep S (base * 2 ^ i) w3 = (c, w4)" by force
  have t4: "w_trace w4 = w_trace w3 @ [EvSleep (base * 2 ^ i)]" using sleep_trace [of S "base * 2 ^ i" w3] 4 by simp
  obtain d w5 where 5: "?succ w2 = (d, w5)" by force
  have t5: "w_trace w5 = w_trace w2" using tr(3) [of w2] 5 by simp
  let ?fin = "snd (attempts S fn m base circuit retryable i (Suc n) w)"
  let ?next = "snd (attempts S fn m base circuit retryable (i + 1) n w4)"
  have ends: "?fin = w1 \<or> ?fin = w2 \<or> ?fin = w3 \<or> ?fin = w5 \<or> i < m \<and> (?fin = w4 \<or> ?fin = ?next)"
    using 1 2 3 4 5 by (simp add: bindM_def tryM_def split: sum.split)
  have now: "\<exists>evs'. w_trace v = w_trace w @ evs' \<and> backoff_trace base i n evs'"
    if "w_trace v = w_trace w \<or> w_trace v = w_trace w @ evs" for v :: "('a, 'b) world"
    using that backoff_once [OF e(2,3)] backoff_once [of "[]"] by auto
  have later: "\<exists>evs'. w_trace v = w_trace w @ evs' \<and> backoff_trace base i n evs'" if im: "i < m" and v: "v = w4 \<or> v = ?next" for v
  proof -
    have n: "n = Suc (n - 1)" using Suc.prems im by simp
    obtain evs2 where "w_trace v = w_trace w4 @ evs2" "backoff_trace base (Suc i) (n - 1) evs2"
      using v Suc.IH [of "i + 1" w4] Suc.prems backoff_once [of "[]" base "Suc i" "n - 1"] by auto
    then show ?thesis
      using backoff_more [OF e(2,3), of base i "n - 1" evs2] t4 t3 e(1) n by auto
  qed
  show ?case
    using ends now [of ?fin] later [of ?fin] t1 t3 t5 e(1) by auto
qed

section \<open>Properties\<close>

text \<open>
  C24: an outbound call is made at most \<open>1 + max_retries\<close> times, with a sleep of
  \<open>base_delay * 2 ** attempt\<close> between consecutive attempts and no other sleep,
  whatever the call, the breaker and the environment do.
\<close>

theorem call_with_retries_backoff:
  assumes "one_effect fn" and "circuit = None \<or> (\<exists>p. circuit = Some (circuit_object p))"
    and "call_with_retries S fn max_retries base_delay circuit retryable w = (r, w')"
  shows "\<exists>evs. w_trace w' = w_trace w @ evs \<and>
    (\<exists>k. int k \<le> max 0 max_retries \<and>
       filter is_sleep evs = map (\<lambda>j. EvSleep (base_delay * 2 ^ j)) [0..<k] \<and>
       length (filter (\<lambda>e. \<not> is_sleep e) evs) \<le> k + 1)"
proof (cases "max_retries < 0 \<or> base_delay < 0")
  case True
  then have "w' = w" using assms(3) by (auto simp: call_with_retries_def split: if_splits)
  then show ?thesis by (intro exI [of _ "[]"]) (auto intro: exI [of _ 0])
next
  case False
  then have w': "w' = snd (attempts S fn (nat max_retries) base_delay circuit retryable 0 (nat max_retries + 1) w)"
    using assms(3) by (simp add: call_with_retries_def)
  obtain evs where "w_trace w' = w_trace w @ evs" and b: "backoff_trace base_delay 0 (nat max_retries) evs"
    using attempts_trace [OF assms(1,2), of 0 "nat max_retries + 1" "nat max_retries" S base_delay retryable w] w' by auto
  moreover have "\<exists>k. int k \<le> max 0 max_retries \<and> filter is_sleep evs = map (\<lambda>j. EvSleep (base_delay * 2 ^ j)) [0..<k] \<and>
      length (filter (\<lambda>e. \<not> is_sleep e) evs) \<le> k + 1"
  proof -
    obtain k where "k \<le> nat max_retries" and "filter is_sleep evs = map (\<lambda>j. EvSleep (base_delay * 2 ^ j)) [0..<k]"
      and "length (filter (\<lambda>e. \<not> is_sleep e) evs) \<le> k + 1"
      using b unfolding backoff_trace_def by auto
    moreover from this(1) have "int k \<le> max 0 max_retries" by linarith
    ultimately show ?thesis by blast
  qed
  ultimately show ?thesis by blast
qed

lemma one_effect_http: "one_effect (http_send S q)"
  unfolding one_effect_def http_send_def
  by (auto simp: bindM_def awaiting_trace split: prod.split)

theorem call_with_retries_backoff_witness:
  "\<exists>evs. w_trace (snd (call_with_retries sample_services (http_send sample_services (HttpPost ''u'' [])) 3 (1/5) None
      default_retryable sample_world)) = evs \<and> length (filter (\<lambda>e. \<not> is_sleep e) evs) \<le> 4"
  using call_with_retries_backoff [OF one_effect_http, where circuit = None and max_retries = 3 and w = sample_world
      and w' = "snd (call_with_retries sample_services (http_send sample_services (HttpPost ''u'' [])) 3 (1/5) None
      default_retryable sample_world)", OF _ prod.collapse [symmetric]]
  by force

text \<open>
  While the provider's breaker is open or its probe is out, a guarded call
  answers \<open>ProviderUnavailableError\<close> without running the call at all: nothing
  changes but the breaker object.
\<close>

theorem open_circuit_blocks_call:
  assumes "circuit_blocks p w" and "0 \<le> max_retries" and "0 \<le> base_delay"
  shows "\<exists>cs. call_with_retries S fn max_retries base_delay (Some (circuit_object p)) retryable w
    = (Inl unavailable, w\<lparr>w_circuits := cs\<rparr>)"
proof (rule po.blocked_call [OF _ assms])
  show "has_circuit p w" using assms(1) by (auto simp: circuit_blocks_def has_circuit_def)
qed

definition tripped :: circuit where
  "tripped = \<lparr>cb_failure_threshold = 5, cb_reset_seconds = 30, cb_state = OPEN, cb_consecutive_failures = 5,
     cb_opened_at = Some 0, cb_probe_in_flight = False\<rparr>"

theorem open_circuit_blocks_call_witness:
  "\<exists>cs. call_with_retries sample_services (http_send sample_services (HttpPost ''u'' [])) 3 (1/5)
      (Some (circuit_object ''google'')) default_retryable (sample_world\<lparr>w_circuits := [''google'' \<mapsto> tripped]\<rparr>)
    = (Inl unavailable, sample_world\<lparr>w_circuits := cs\<rparr>)"
  using open_circuit_blocks_call [of "''google''" "sample_world\<lparr>w_circuits := [''google'' \<mapsto> tripped]\<rparr>" 3 "1/5"]
  by (simp add: circuit_blocks_def tripped_def allow_def sync_def Let_def)

text \<open>
  C25: a half-open breaker whose probe ends in a failure that is not retried, such
  as a provider 4xx, is never released.  The call raises the failure, nothing is
  recorded, the probe slot stays taken, and from then on every \<open>allow()\<close> answers
  no, however much time passes: only a recorded outcome would free the slot, and
  no call gets through to record one.
\<close>

theorem probe_client_error_wedges:
  assumes "w_circuits w p = Some c" and "circuit_inv c"
    and "abs_circuit (sync (w_mono w) c) = Ready" and "0 \<le> max_retries" and "0 \<le> base_delay"
    and "\<And>v. fst (fn v) = Inl e \<and> w_circuits (snd (fn v)) = w_circuits v" and "\<not> retryable e"
    and "call_with_retries S fn max_retries base_delay (Some (circuit_object p)) retryable w = (r, w')"
    and "w_circuits w' p = Some c'"
  shows "r = Inl e \<and> (\<forall>ts t. \<not> fst (allow t (circuit_run c' (map Allow ts))))"
proof -
  have ready: "spec_sync (cb_reset_seconds c) (w_mono w) (abs_circuit c) = Ready"
    using abs_sync [OF assms(2)] assms(3) by simp
  have ok: "fst (allow (w_mono w) c)" "abs_circuit (snd (allow (w_mono w) c)) = Probing"
    using abs_allow [OF assms(2), of "w_mono w"] ready by (simp_all add: spec_allow_def)
  let ?c = "snd (allow (w_mono w) c)"
  have a: "co_allow (circuit_object p) w = (Inr True, w\<lparr>w_circuits := (w_circuits w)(p \<mapsto> ?c)\<rparr>)"
    using assms(1) ok(1) by (cases "allow (w_mono w) c") (simp add: circuit_object_def on_circuit_def)
  obtain w1 where fn: "fn (w\<lparr>w_circuits := (w_circuits w)(p \<mapsto> ?c)\<rparr>) = (Inl e, w1)"
    and w1: "w_circuits w1 = (w_circuits w)(p \<mapsto> ?c)"
    using assms(6) [of "w\<lparr>w_circuits := (w_circuits w)(p \<mapsto> ?c)\<rparr>"]
    by (cases "fn (w\<lparr>w_circuits := (w_circuits w)(p \<mapsto> ?c)\<rparr>)") auto
  have "(r, w') = (Inl e, w1)"
    using po.rejected_call [of p w max_retries base_delay fn e w1 retryable S] assms(1,4,5,7,8) a ok(1) fn
    by (simp add: has_circuit_def circuit_blocks_def)
  then have r: "r = Inl e" and c': "c' = ?c" using assms(9) w1 by auto
  have inv: "circuit_inv c'" using allow_inv [OF assms(2)] c' by simp
  have run: "abs_circuit (circuit_run c' (map Allow ts)) = Probing" for ts
    using abs_run [OF inv, of "map Allow ts"] ok(2) c' spec_probing_stays [of "map Allow ts"]
    by (simp add: list_all_iff)
  have "\<not> fst (allow t (circuit_run c' (map Allow ts)))" for t ts
    using abs_allow(1) [OF circuit_run_inv [OF inv], of t "map Allow ts"] run [of ts]
    by (simp add: spec_allow_def spec_sync_def)
  then show ?thesis using r by blast
qed

theorem probe_client_error_wedges_witness:
  "\<exists>c'. w_circuits (snd (call_with_retries sample_services (raise (Broker ProviderCallError ''HTTP 404'' (Some 404)) :: (memory, nat, unit) io)
        3 (1/5) (Some (circuit_object ''google'')) default_retryable
        (sample_world\<lparr>w_circuits := [''google'' \<mapsto> tripped], w_mono := 31\<rparr>))) ''google'' = Some c' \<and>
     (\<forall>ts t. \<not> fst (allow t (circuit_run c' (map Allow ts))))"
proof -
  let ?w = "sample_world\<lparr>w_circuits := [''google'' \<mapsto> tripped], w_mono := 31\<rparr>"
  let ?fn = "raise (Broker ProviderCallError ''HTTP 404'' (Some 404)) :: (memory, nat, unit) io"
  let ?run = "call_with_retries sample_services ?fn 3 (1/5) (Some (circuit_object ''google'')) default_retryable ?w"
  have "\<exists>c'. w_circuits (snd ?run) ''google'' = Some c'"
    by (simp add: call_with_retries_def eval_nat_numeral bindM_def tryM_def circuit_object_def on_circuit_def
        default_retryable_def split: prod.split)
  then show ?thesis
    using probe_client_error_wedges [of ?w "''google''" tripped 3 "1/5" ?fn
        "Broker ProviderCallError ''HTTP 404'' (Some 404)" default_retryable sample_services "fst ?run" "snd ?run"]
    by (auto simp: tripped_def circuit_inv_def abs_circuit_def sync_def default_retryable_def)
qed

end
