(* ===== verification/Cb_Tools.thy ===== *)
theory Cb_Tools
  imports Cb_Values Cb_Retry
begin

text \<open>
  Tool adapters and their registry (\<open>credbroker/tools\<close>).  The registry is a
  dictionary of adapters, filled when the package is imported; the one adapter of
  the program lists Google Drive files.  A response is parsed with \<open>response.json()\<close>.
\<close>

section \<open>Adapters and registry\<close>

record tool =
  tl_name :: string
  tl_provider :: string
  tl_scope :: string
  tl_side_effectful :: bool
  tl_base_url :: string

type_synonym registry = "(string \<times> tool) list"

definition DRIVE_API_DEFAULT :: string where
  "DRIVE_API_DEFAULT = ''https://www.googleapis.com/drive/v3''"

definition DriveListFilesTool :: tool where
  "DriveListFilesTool = \<lparr>tl_name = ''drive.read'', tl_provider = ''google'', tl_scope = ''read'',
     tl_side_effectful = False, tl_base_url = DRIVE_API_DEFAULT\<rparr>"

definition configure :: "settings \<Rightarrow> tool \<Rightarrow> tool" where
  "configure st tool =
     tool\<lparr>tl_base_url := (if drive_api_base_url st \<noteq> [] then drive_api_base_url st else DRIVE_API_DEFAULT)\<rparr>"

definition register_tool :: "tool \<Rightarrow> registry \<Rightarrow> registry" where
  "register_tool tool reg = dict_put (tl_name tool) tool reg"

definition TOOL_REGISTRY :: registry where
  "TOOL_REGISTRY = register_tool DriveListFilesTool []"

definition get_tool :: "registry \<Rightarrow> string \<Rightarrow> exn + tool" where
  "get_tool reg tool_name =
     (case dict_get reg tool_name of
        Some tool \<Rightarrow> Inr tool
      | None \<Rightarrow> Inl (broker_error UnknownToolError (''unknown tool: '' @ tool_name)))"

definition configure_tools :: "settings \<Rightarrow> registry \<Rightarrow> registry" where
  "configure_tools st reg = map (\<lambda>(n, tool). (n, configure st tool)) reg"

section \<open>The Drive call\<close>

definition response_json :: "(string \<Rightarrow> json) \<Rightarrow> http_response \<Rightarrow> exn + json" where
  "response_json fl response =
     (case utf8_decode (rs_content response) of
        None \<Rightarrow> Inl UnicodeDecodeError
      | Some t \<Rightarrow> (case loads fl t of None \<Rightarrow> Inl JSONDecodeError | Some v \<Rightarrow> Inr v))"

definition optional_param :: "string \<Rightarrow> string \<Rightarrow> dict \<Rightarrow> (string \<times> string) list" where
  "optional_param param key arguments =
     (case dict_get arguments key of
        Some v \<Rightarrow> if json_truthy v then [(param, json_str v)] else []
      | None \<Rightarrow> [])"

definition drive_params :: "dict \<Rightarrow> exn + (string \<times> string) list" where
  "drive_params arguments =
     (case json_int (case dict_get arguments ''page_size'' of Some v \<Rightarrow> v | None \<Rightarrow> JInt 25) of
        Inl e \<Rightarrow> Inl e
      | Inr n \<Rightarrow>
          Inr ([(''pageSize'', py_str_int n),
                (''fields'', ''nextPageToken,files(id,name,mimeType,modifiedTime)'')]
               @ optional_param ''q'' ''query'' arguments
               @ optional_param ''pageToken'' ''page_token'' arguments))"

definition drive_request :: "tool \<Rightarrow> string \<Rightarrow> (string \<times> string) list \<Rightarrow> http_request" where
  "drive_request tool access_token params =
     HttpGet (tl_base_url tool @ ''/files'') params [(''Authorization'', ''Bearer '' @ access_token)]"

definition drive_result :: "(string \<Rightarrow> json) \<Rightarrow> http_response \<Rightarrow> exn + json" where
  "drive_result fl response =
     (if rs_status_code response \<ge> 400
      then Inl (Broker ProviderCallError (''drive.read failed with HTTP '' @ py_str_int (rs_status_code response))
                 (Some (rs_status_code response)))
      else response_json fl response)"

definition tool_call :: "('r, 'x) services \<Rightarrow> tool \<Rightarrow> string \<Rightarrow> dict \<Rightarrow> ('r, 'x, json) io" where
  "tool_call S tool access_token arguments =
     bindM (liftE (drive_params arguments)) (\<lambda>params.
     bindM (http_send S (drive_request tool access_token params)) (\<lambda>response.
     liftE (drive_result (sv_float S) response)))"

section \<open>Facts\<close>

lemma registered_tool:
  "dict_get (configure_tools st TOOL_REGISTRY) n = Some tool \<Longrightarrow>
   n = ''drive.read'' \<and> tl_name tool = n \<and> tl_scope tool = ''read'' \<and> tl_provider tool = ''google''"
  by (auto simp: configure_tools_def TOOL_REGISTRY_def register_tool_def DriveListFilesTool_def configure_def
      split: if_splits)

text \<open>
  Looking up a registered tool returns it, registering another leaves it in
  place, an unknown name is \<open>UnknownToolError\<close>, and configuring the registry
  changes nothing of an adapter but its base URL.
\<close>

lemma registry_lookup:
  "get_tool (register_tool tool reg) (tl_name tool) = Inr tool \<and>
    (n \<noteq> tl_name tool \<longrightarrow> get_tool (register_tool tool reg) n = get_tool reg n) \<and>
    (dict_get reg n = None \<longrightarrow> get_tool reg n = Inl (broker_error UnknownToolError (''unknown tool: '' @ n))) \<and>
    get_tool (configure_tools st reg) n =
      (case get_tool reg n of Inl e \<Rightarrow> Inl e | Inr tool \<Rightarrow> Inr (configure st tool))"
proof -
  have put: "map_of (dict_put k v d) = (map_of d)(k \<mapsto> v)" for k and v :: tool and d
    by (induction d) (auto simp: fun_eq_iff)
  have conf: "map_of (configure_tools st reg) n = map_option (configure st) (map_of reg n)"
    unfolding configure_tools_def by (induction reg) auto
  show ?thesis by (auto simp: get_tool_def register_tool_def put conf split: option.split)
qed

lemma http_send_trace: "w_trace (snd (http_send S q w)) = w_trace w @ [EvHttp q]"
  unfolding http_send_def by (simp add: bindM_def awaiting_trace split: prod.split)

lemma tool_call_trace:
  "\<exists>evs. w_trace (snd (tool_call S tool tok args w)) = w_trace w @ evs \<and>
     (evs = [] \<or> (\<exists>params. evs = [EvHttp (drive_request tool tok params)]))"
proof (cases "drive_params args")
  case (Inl e)
  then show ?thesis by (simp add: tool_call_def bindM_def)
next
  case (Inr params)
  obtain r w' where h: "http_send S (drive_request tool tok params) w = (r, w')" by force
  then have "w_trace w' = w_trace w @ [EvHttp (drive_request tool tok params)]"
    using http_send_trace [of S "drive_request tool tok params" w] by simp
  then show ?thesis using Inr h by (auto simp: tool_call_def bindM_def split: sum.split)
qed

lemma tool_call_one_effect: "one_effect (tool_call S tool tok args)"
  unfolding one_effect_def using tool_call_trace [of S tool tok args] by fastforce

lemma keeps_tool_call:
  assumes "env_stable S I" and "score I"
    and "\<And>w params. I w \<Longrightarrow> I (w\<lparr>w_trace := w_trace w @ [EvHttp (drive_request tool tok params)]\<rparr>)"
  shows "keeps I (tool_call S tool tok args)"
  unfolding tool_call_def using assms by (intro wp keeps_http_send; simp)

text \<open>The exceptions of a call: those of the argument conversion, of the transport and of the response.\<close>

lemma drive_result_errors:
  "drive_result fl r = Inl e \<Longrightarrow> is_ValueError e \<or> (\<exists>m c. e = Broker ProviderCallError m (Some c) \<and> 400 \<le> c)"
  by (auto simp: drive_result_def response_json_def split: if_splits option.splits)

end
