(* ===== verification/Cb_Logging.thy ===== *)
theory Cb_Logging
  imports Cb_World
begin

text \<open>
  Log redaction (\<open>credbroker/logging_config.py\<close>): the registry of secrets,
  \<open>scrub\<close>, and the logging filter.  The registry is a Python set, iterated in
  no particular order; it is a list here and every theorem holds for any order.
  A log record is what its message, its traceback and its stack text format to.
\<close>

section \<open>The registry\<close>

definition MIN_SECRET_LEN :: nat where
  "MIN_SECRET_LEN = 8"

definition REDACTED :: string where
  "REDACTED = ''[REDACTED]''"

datatype secret_value = SecretStr string | SecretBytes bytes

definition add_secret :: "string \<Rightarrow> string list \<Rightarrow> string list" where
  "add_secret v reg = (if v \<in> set reg then reg else reg @ [v])"

definition registered :: "secret_value option \<Rightarrow> string list \<Rightarrow> string list" where
  "registered v reg =
     (case v of
        None \<Rightarrow> reg
      | Some (SecretStr s) \<Rightarrow> if s = [] then reg else if py_len s < MIN_SECRET_LEN then reg else add_secret s reg
      | Some (SecretBytes b) \<Rightarrow>
          if b = [] then reg
          else (case utf8_decode b of
                  None \<Rightarrow> reg
                | Some s \<Rightarrow> if py_len s < MIN_SECRET_LEN then reg else add_secret s reg))"

definition register_secret :: "secret_value option \<Rightarrow> ('r, 'x, unit) io" where
  "register_secret v = modM (\<lambda>w. w\<lparr>w_secrets := registered v (w_secrets w)\<rparr>)"

definition clear_registry :: "('r, 'x, unit) io" where
  "clear_registry = modM (\<lambda>w. w\<lparr>w_secrets := []\<rparr>)"

section \<open>scrub\<close>

definition scrub_one :: "string \<Rightarrow> string \<Rightarrow> string" where
  "scrub_one secret msg = (if sublist secret msg then py_replace secret REDACTED msg else msg)"

definition scrub_with :: "string list \<Rightarrow> string \<Rightarrow> string" where
  "scrub_with secrets msg = fold scrub_one secrets msg"

definition scrub :: "string \<Rightarrow> ('r, 'x, string) io" where
  "scrub msg = getM (\<lambda>w. scrub_with (w_secrets w) msg)"

section \<open>The filter\<close>

record log_record =
  lr_message :: "exn + string"
  lr_exc_info :: "(exn + string) option"
  lr_exc_text :: "string option"
  lr_stack_info :: "string option"

abbreviation truthy_text :: "string option \<Rightarrow> bool" where
  "truthy_text t \<equiv> t \<noteq> None \<and> t \<noteq> Some []"

definition filter_exc :: "string list \<Rightarrow> log_record \<Rightarrow> log_record" where
  "filter_exc reg r =
     (case lr_exc_info r of
        Some f \<Rightarrow>
          if \<not> truthy_text (lr_exc_text r)
          then (case f of Inr t \<Rightarrow> r\<lparr>lr_exc_text := Some (scrub_with reg t)\<rparr> | Inl _ \<Rightarrow> r\<lparr>lr_exc_info := None\<rparr>)
          else r\<lparr>lr_exc_text := map_option (scrub_with reg) (lr_exc_text r)\<rparr>
      | None \<Rightarrow>
          if truthy_text (lr_exc_text r)
          then r\<lparr>lr_exc_text := map_option (scrub_with reg) (lr_exc_text r)\<rparr> else r)"

definition redaction_filter :: "string list \<Rightarrow> log_record \<Rightarrow> log_record" where
  "redaction_filter reg r =
     (case lr_message r of
        Inl _ \<Rightarrow> r
      | Inr message \<Rightarrow>
          (let scrubbed = scrub_with reg message;
               r1 = (if scrubbed \<noteq> message then r\<lparr>lr_message := Inr scrubbed\<rparr> else r);
               r2 = filter_exc reg r1
           in if truthy_text (lr_stack_info r2)
              then r2\<lparr>lr_stack_info := map_option (scrub_with reg) (lr_stack_info r2)\<rparr> else r2))"

text \<open>
  What \<open>logging.Formatter.format\<close> writes of a record after its prefix: the
  message, then the traceback, taken from \<open>exc_text\<close> when it is set, then the
  stack.
\<close>

definition exc_line :: "log_record \<Rightarrow> string" where
  "exc_line r =
     (if truthy_text (lr_exc_text r) then the (lr_exc_text r)
      else case lr_exc_info r of Some (Inr t) \<Rightarrow> t | _ \<Rightarrow> [])"

definition written_parts :: "log_record \<Rightarrow> string list" where
  "written_parts r =
     (case lr_message r of Inr m \<Rightarrow> [m] | Inl _ \<Rightarrow> []) @ [exc_line r] @
     (case lr_stack_info r of Some t \<Rightarrow> [t] | None \<Rightarrow> [])"

section \<open>Scrubbing removes every secret\<close>

text \<open>
  A secret the marker cannot hide: no bracket in it, and not the word inside the
  marker.
\<close>

definition scrubbable :: "string \<Rightarrow> bool" where
  "scrubbable s \<longleftrightarrow> MIN_SECRET_LEN \<le> length s \<and> CHR ''['' \<notin> set s \<and> CHR '']'' \<notin> set s \<and> s \<noteq> ''REDACTED''"

lemma sublist_separator:
  assumes "sublist s (xs @ c # ys)" and "c \<notin> set s"
  shows "sublist s xs \<or> sublist s ys"
proof -
  from assms(1) consider "sublist s xs" | "sublist s (c # ys)"
    | a b where "s = a @ b" "suffix a xs" "prefix b (c # ys)"
    by (auto simp: sublist_append)
  then show ?thesis
  proof cases
    case 2
    then show ?thesis using assms(2) by (auto simp: sublist_Cons_right prefix_Cons)
  next
    case 3
    then have "b = []" using assms(2) by (auto simp: prefix_Cons)
    then show ?thesis using 3 by (auto simp: suffix_imp_sublist)
  qed simp
qed

lemma REDACTED_split: "REDACTED = [] @ CHR ''['' # (''REDACTED'' @ CHR '']'' # [])"
  by (simp add: REDACTED_def)

lemma scrubbable_not_in_marker: "scrubbable s \<Longrightarrow> \<not> sublist s ''REDACTED''"
proof
  assume s: "scrubbable s" and "sublist s ''REDACTED''"
  then obtain a b where "''REDACTED'' = a @ s @ b" by (auto simp: sublist_def)
  then have "length ''REDACTED'' = length (a @ s @ b)" by (rule arg_cong)
  then have "length a + length s + length b = 8" by simp
  then have "length a = 0 \<and> length b = 0" using s unfolding scrubbable_def MIN_SECRET_LEN_def by linarith
  then show False using s \<open>''REDACTED'' = a @ s @ b\<close> by (simp add: scrubbable_def)
qed

lemma sublist_marker:
  assumes "scrubbable s" and "sublist s (REDACTED @ xs)"
  shows "sublist s xs"
proof -
  have "sublist s ([] @ CHR ''['' # (''REDACTED'' @ CHR '']'' # xs))"
    using assms(2) by (simp add: REDACTED_def)
  then have "sublist s [] \<or> sublist s ''REDACTED'' \<or> sublist s xs"
    using assms(1) sublist_separator by (metis scrubbable_def)
  then show ?thesis using assms(1) scrubbable_not_in_marker by (auto simp: scrubbable_def MIN_SECRET_LEN_def)
qed

lemma prefix_replaced:
  "CHR ''['' \<notin> set s \<Longrightarrow> prefix s (py_replace old REDACTED msg) \<Longrightarrow> prefix s msg"
proof (induction old REDACTED msg arbitrary: s rule: py_replace.induct)
  case (1 old msg)
  show ?case
  proof (cases "old = [] \<or> msg = []")
    case True
    then show ?thesis using "1.prems" by (simp add: py_replace.simps)
  next
    case nonempty: False
    show ?thesis
    proof (cases "prefix old msg")
      case True
      then have "prefix s (REDACTED @ py_replace old REDACTED (drop (length old) msg))"
        using "1.prems" nonempty by (simp add: py_replace.simps [of old REDACTED msg])
      then have "s = []" using "1.prems"(1) by (auto simp: REDACTED_def prefix_Cons)
      then show ?thesis by simp
    next
      case False
      then have "prefix s (hd msg # py_replace old REDACTED (tl msg))"
        using "1.prems" nonempty by (simp add: py_replace.simps [of old REDACTED msg])
      then show ?thesis
        using "1.hyps"(2) [OF nonempty False] "1.prems"(1) nonempty by (cases msg) (auto simp: prefix_Cons)
    qed
  qed
qed

lemma sublist_replaced:
  "scrubbable s \<Longrightarrow> sublist s (py_replace old REDACTED msg) \<Longrightarrow> sublist s msg \<and> s \<noteq> old"
proof (induction old REDACTED msg rule: py_replace.induct)
  case (1 old msg)
  show ?case
  proof (cases "old = [] \<or> msg = []")
    case True
    then show ?thesis using "1.prems" by (auto simp: py_replace.simps scrubbable_def MIN_SECRET_LEN_def)
  next
    case nonempty: False
    show ?thesis
    proof (cases "prefix old msg")
      case True
      then have "sublist s (py_replace old REDACTED (drop (length old) msg))"
        using "1.prems" nonempty sublist_marker by (simp add: py_replace.simps [of old REDACTED msg])
      then show ?thesis
        using "1.hyps"(1) [OF nonempty True] "1.prems"(1) sublist_drop [of "length old" msg]
        by (auto dest: sublist_order.order_trans)
    next
      case False
      then have r: "py_replace old REDACTED msg = hd msg # py_replace old REDACTED (tl msg)"
        using nonempty by (simp add: py_replace.simps [of old REDACTED msg])
      from "1.prems"(2) consider "prefix s (py_replace old REDACTED msg)"
        | "sublist s (py_replace old REDACTED (tl msg))"
        by (auto simp: r sublist_Cons_right)
      then show ?thesis
      proof cases
        case 1
        then have "prefix s msg" using prefix_replaced "1.prems"(1) by (auto simp: scrubbable_def)
        then show ?thesis using False by auto
      next
        case 2
        then show ?thesis
          using "1.hyps"(2) [OF nonempty False] "1.prems"(1) nonempty by (cases msg) (auto simp: sublist_Cons_right)
      qed
    qed
  qed
qed

lemma scrub_one_keeps_out: "scrubbable s \<Longrightarrow> sublist s (scrub_one t msg) \<Longrightarrow> sublist s msg \<and> s \<noteq> t"
  using sublist_replaced by (auto simp: scrub_one_def split: if_splits)

lemma scrub_with_absent: "scrubbable s \<Longrightarrow> sublist s (scrub_with reg msg) \<Longrightarrow> sublist s msg \<and> s \<notin> set reg"
  by (induction reg arbitrary: msg) (auto simp: scrub_with_def dest: scrub_one_keeps_out)

lemma scrub_with_clean: "\<forall>s \<in> set reg. \<not> sublist s msg \<Longrightarrow> scrub_with reg msg = msg"
  by (induction reg) (auto simp: scrub_with_def scrub_one_def)

lemma py_replace_empty: "new \<noteq> [] \<Longrightarrow> py_replace old new msg = [] \<longleftrightarrow> msg = []"
  by (subst py_replace.simps) auto

lemma scrub_with_empty: "scrub_with reg msg = [] \<longleftrightarrow> msg = []"
  by (induction reg arbitrary: msg) (auto simp: scrub_with_def scrub_one_def py_replace_empty REDACTED_def)

section \<open>The registry and the written record\<close>

lemma py_len_le: "py_len s \<le> length s"
  by (simp add: py_len_def)

lemma registered_long: "s \<in> set (registered v reg) \<Longrightarrow> s \<in> set reg \<or> MIN_SECRET_LEN \<le> length s"
  using py_len_le [of s]
  by (auto simp: registered_def add_secret_def split: option.splits secret_value.splits if_splits)

lemma registered_mono: "set reg \<subseteq> set (registered v reg)"
  by (auto simp: registered_def add_secret_def split: option.splits secret_value.splits)

lemma registered_str: "MIN_SECRET_LEN \<le> py_len s \<Longrightarrow> s \<in> set (registered (Some (SecretStr s)) reg)"
  by (auto simp: registered_def add_secret_def MIN_SECRET_LEN_def py_len_def)

lemma registered_idem: "registered v (registered v reg) = registered v reg"
  by (auto simp: registered_def add_secret_def split: option.splits secret_value.splits)

lemma filter_exc_parts:
  assumes "scrubbable s" and "s \<in> set reg"
  shows "\<not> sublist s (exc_line (filter_exc reg r))"
    and "lr_message (filter_exc reg r) = lr_message r" and "lr_stack_info (filter_exc reg r) = lr_stack_info r"
  using assms scrub_with_absent [of s reg]
  by (auto simp: filter_exc_def exc_line_def scrub_with_empty scrubbable_def MIN_SECRET_LEN_def split: option.splits sum.splits)

lemma keeps_register_secret [wp]: "score I \<Longrightarrow> keeps I (register_secret v)"
  unfolding register_secret_def by (rule keeps_score) auto

text \<open>
  The redaction filter lets no registered secret through.  After the filter
  has run on a record whose message formats, neither the message, nor the
  traceback the formatter will write, nor the stack text contains a registered
  secret (one of at least eight characters, without square brackets, other than
  the word \<open>REDACTED\<close> itself).
\<close>

theorem redaction_filter_hides:
  assumes "scrubbable s" and "s \<in> set reg" and "lr_message r = Inr m"
  shows "\<forall>p \<in> set (written_parts (redaction_filter reg r)). \<not> sublist s p"
proof -
  have abs: "\<not> sublist s (scrub_with reg x)" for x
    using scrub_with_absent [OF assms(1), of reg x] assms(2) by blast
  have exc_stack: "exc_line (q\<lparr>lr_stack_info := t\<rparr>) = exc_line q" for q t
    by (simp add: exc_line_def)
  have nil: "\<not> sublist s []" using assms(1) by (auto simp: scrubbable_def MIN_SECRET_LEN_def)
  have msg: "scrub_with reg m = m \<Longrightarrow> \<not> sublist s m" using abs [of m] by simp
  show ?thesis
    using assms(3) abs nil msg filter_exc_parts [OF assms(1,2)]
    by (auto simp: redaction_filter_def written_parts_def Let_def exc_stack split: option.splits)
qed

theorem redaction_filter_hides_witness:
  "list_all (\<lambda>p. \<not> sublist ''ya29.secret-token'' p)
     (written_parts (redaction_filter [''ya29.secret-token'']
      \<lparr>lr_message = Inr ''sent ya29.secret-token'', lr_exc_info = Some (Inr ''Traceback ya29.secret-token''),
       lr_exc_text = None, lr_stack_info = Some ''at ya29.secret-token''\<rparr>))"
  unfolding list_all_iff
  by (rule redaction_filter_hides [where m = "''sent ya29.secret-token''"])
    (simp_all add: scrubbable_def MIN_SECRET_LEN_def)

text \<open>
  Whatever message an operation hands to \<open>scrub\<close>, the text it gets back
  carries no registered secret, and a text without secrets comes back as it is.
\<close>

theorem scrub_removes_secrets:
  assumes "\<forall>s \<in> set (w_secrets w). scrubbable s"
  shows "\<exists>out. scrub msg w = (Inr out, w) \<and> (\<forall>s \<in> set (w_secrets w). \<not> sublist s out) \<and>
    ((\<forall>s \<in> set (w_secrets w). \<not> sublist s msg) \<longrightarrow> out = msg)"
proof (intro exI conjI ballI impI)
  show "scrub msg w = (Inr (scrub_with (w_secrets w) msg), w)" by (simp add: scrub_def)
next
  fix s assume "s \<in> set (w_secrets w)"
  then show "\<not> sublist s (scrub_with (w_secrets w) msg)"
    using assms scrub_with_absent [of s "w_secrets w" msg] by blast
next
  assume "\<forall>s \<in> set (w_secrets w). \<not> sublist s msg"
  then show "scrub_with (w_secrets w) msg = msg" by (rule scrub_with_clean)
qed

theorem scrub_removes_secrets_witness:
  "\<exists>out. scrub ''Bearer ya29.secret-token'' ((fresh_world () () 0)\<lparr>w_secrets := [''ya29.secret-token'']\<rparr>)
      = (Inr out, (fresh_world () () 0)\<lparr>w_secrets := [''ya29.secret-token'']\<rparr>) \<and>
    \<not> sublist ''ya29.secret-token'' out"
  using scrub_removes_secrets [of "(fresh_world () () 0)\<lparr>w_secrets := [''ya29.secret-token'']\<rparr>"
      "''Bearer ya29.secret-token''"]
  by (auto simp: scrubbable_def MIN_SECRET_LEN_def)

end
