(* ===== verification/Py_Base64.thy ===== *)
theory Py_Base64
  imports Py_Base
begin

text \<open>
  Python's \<open>base64\<close>: \<open>b64encode\<close>, the non-strict \<open>b64decode\<close> (characters outside
  the alphabet are skipped, a complete padding ends the input) and their
  URL-safe variants.  A failed decode (\<open>binascii.Error\<close>) is \<open>None\<close>.
\<close>

definition b64_char :: "nat \<Rightarrow> char" where
  "b64_char n =
     (if n < 26 then char_of (65 + n) else if n < 52 then char_of (71 + n)
      else if n < 62 then char_of (n - 4) else if n = 62 then CHR ''+'' else CHR ''/'')"

definition b64_val :: "char \<Rightarrow> nat option" where
  "b64_val c =
     (let n = code c in
      if 65 \<le> n \<and> n \<le> 90 then Some (n - 65) else if 97 \<le> n \<and> n \<le> 122 then Some (n - 71)
      else if 48 \<le> n \<and> n \<le> 57 then Some (n + 4) else if n = 43 then Some 62
      else if n = 47 then Some 63 else None)"

fun b64encode :: "bytes \<Rightarrow> string" where
  "b64encode [] = []"
| "b64encode [a] = [b64_char (code a div 4), b64_char (code a mod 4 * 16), CHR ''='', CHR ''='']"
| "b64encode [a, b] =
     [b64_char (code a div 4), b64_char (code a mod 4 * 16 + code b div 16), b64_char (code b mod 16 * 4), CHR ''='']"
| "b64encode (a # b # c # r) =
     [b64_char (code a div 4), b64_char (code a mod 4 * 16 + code b div 16),
      b64_char (code b mod 16 * 4 + code c div 64), b64_char (code c mod 64)] @ b64encode r"

text \<open>
  The scan of \<open>binascii.a2b_base64\<close>: the position in the group of four, the bits
  left over, the padding seen, the input.
\<close>

fun b64_scan :: "nat \<Rightarrow> nat \<Rightarrow> nat \<Rightarrow> string \<Rightarrow> bytes option" where
  "b64_scan q left pads [] = (if q = 0 then Some [] else None)"
| "b64_scan q left pads (c # cs) =
     (if c = CHR ''='' then
        (if 2 \<le> q \<and> 4 \<le> q + pads + 1 then Some []
         else b64_scan q left (if 2 \<le> q then pads + 1 else pads) cs)
      else case b64_val c of
        None \<Rightarrow> b64_scan q left pads cs
      | Some v \<Rightarrow>
          if q = 0 then b64_scan 1 v 0 cs
          else if q = 1 then map_option ((#) (char_of (left * 4 + v div 16))) (b64_scan 2 (v mod 16) 0 cs)
          else if q = 2 then map_option ((#) (char_of (left * 16 + v div 4))) (b64_scan 3 (v mod 4) 0 cs)
          else map_option ((#) (char_of (left * 64 + v))) (b64_scan 0 0 0 cs))"

definition b64decode :: "string \<Rightarrow> bytes option" where
  "b64decode s = b64_scan 0 0 0 s"

definition urlsafe_b64encode :: "bytes \<Rightarrow> string" where
  "urlsafe_b64encode b =
     map (\<lambda>c. if c = CHR ''+'' then CHR ''-'' else if c = CHR ''/'' then CHR ''_'' else c) (b64encode b)"

definition urlsafe_b64decode :: "string \<Rightarrow> bytes option" where
  "urlsafe_b64decode s =
     b64decode (map (\<lambda>c. if c = CHR ''-'' then CHR ''+'' else if c = CHR ''_'' then CHR ''/'' else c) s)"

section \<open>Round trips\<close>

lemma b64_char_code:
  "n < 64 \<Longrightarrow> code (b64_char n) =
     (if n < 26 then 65 + n else if n < 52 then 71 + n else if n < 62 then n - 4 else if n = 62 then 43 else 47)"
  by (simp add: b64_char_def of_char_char_of_small)

lemma b64_val_char [simp]: "n < 64 \<Longrightarrow> b64_val (b64_char n) = Some n"
  unfolding b64_val_def Let_def b64_char_code by (auto split: if_splits)

lemma code_neq: "code c \<noteq> code d \<Longrightarrow> c \<noteq> d"
  by auto

lemma b64_char_not_pad [simp]: "n < 64 \<Longrightarrow> b64_char n \<noteq> CHR ''=''"
  by (rule code_neq) (auto simp: b64_char_code)

lemma b64_char_plain:
  "n < 64 \<Longrightarrow> b64_char n \<noteq> CHR ''-'' \<and> b64_char n \<noteq> CHR ''_'' \<and> code (b64_char n) < 128"
  by (intro conjI code_neq) (auto simp: b64_char_code)

lemma sextets:
  fixes a b c :: nat
  assumes "a < 256" and "b < 256" and "c < 256"
  shows "a div 4 < 64" "a mod 4 * 16 + b div 16 < 64" "b mod 16 * 4 + c div 64 < 64" "c mod 64 < 64"
    "a mod 4 * 16 < 64" "b mod 16 * 4 < 64" "b div 16 < 16" "c div 64 < 4"
proof -
  have "a mod 4 < 4" "b mod 16 < 16" by simp_all
  moreover show "a div 4 < 64" "b div 16 < 16" "c div 64 < 4" "c mod 64 < 64" using assms by simp_all
  ultimately show "a mod 4 * 16 + b div 16 < 64" "b mod 16 * 4 + c div 64 < 64" "a mod 4 * 16 < 64" "b mod 16 * 4 < 64"
    by linarith+
qed

lemma group_div: "y < k \<Longrightarrow> (x * k + y) div k = x" "y < k \<Longrightarrow> (x * k + y) mod k = y" for x y k :: nat
  by simp_all

lemma b64_scan_encode: "b64_scan 0 0 0 (b64encode s) = Some s"
proof (induction s rule: b64encode.induct)
  case (2 a)
  show ?case using sextets [of "code a" 0 0] by simp
next
  case (3 a b)
  show ?case using sextets [of "code a" "code b" 0] by (simp add: group_div)
next
  case (4 a b c r)
  show ?case using sextets [of "code a" "code b" "code c"] 4 by (simp add: group_div)
qed simp

lemma b64decode_b64encode [simp]: "b64decode (b64encode s) = Some s"
  by (simp add: b64decode_def b64_scan_encode)

lemma b64encode_plain: "c \<in> set (b64encode s) \<Longrightarrow> c \<noteq> CHR ''-'' \<and> c \<noteq> CHR ''_'' \<and> code c < 128"
proof (induction s rule: b64encode.induct)
  case (2 a)
  then show ?case using sextets [of "code a" 0 0] b64_char_plain by auto
next
  case (3 a b)
  then show ?case using sextets [of "code a" "code b" 0] b64_char_plain by auto
next
  case (4 a b c r)
  then show ?case using sextets [of "code a" "code b" "code c"] b64_char_plain by auto
qed simp

lemma urlsafe_roundtrip [simp]: "urlsafe_b64decode (urlsafe_b64encode s) = Some s"
proof -
  have "map (\<lambda>c. if c = CHR ''-'' then CHR ''+'' else if c = CHR ''_'' then CHR ''/'' else c)
      (map (\<lambda>c. if c = CHR ''+'' then CHR ''-'' else if c = CHR ''/'' then CHR ''_'' else c) (b64encode s)) = b64encode s"
    unfolding map_map by (rule map_idI) (use b64encode_plain in auto)
  then show ?thesis by (simp add: urlsafe_b64encode_def urlsafe_b64decode_def)
qed

lemma urlsafe_ascii: "is_ascii (urlsafe_b64encode s)"
  using b64encode_plain [of _ s] by (auto simp: is_ascii_def urlsafe_b64encode_def)

end
