(* ===== verification/Cb_Kms.thy ===== *)
theory Cb_Kms
  imports Cb_Logging Cb_Sample Py_Base64
begin

text \<open>
  Envelope encryption of stored credentials (\<open>credbroker/crypto/kms.py\<close>): the two
  key managers behind the \<open>KeyManager\<close> protocol, the versioned blob of
  \<open>TokenCipher\<close>, and the choice of cipher by the settings.  AES-GCM and AWS KMS are
  services; \<open>sv_aes_decrypt\<close> answers \<open>None\<close> for \<open>InvalidTag\<close>.
\<close>

definition MAGIC :: bytes where
  "MAGIC = ''CB1''"

definition NONCE_SIZE :: nat where
  "NONCE_SIZE = 12"

definition GCM_TAG_SIZE :: nat where
  "GCM_TAG_SIZE = 16"

definition DATA_KEY_SIZE :: nat where
  "DATA_KEY_SIZE = 32"

definition HEADER_SIZE :: nat where
  "HEADER_SIZE = length MAGIC + 2"

text \<open>\<open>struct.Struct(">H")\<close>.\<close>

definition pack_H :: "nat \<Rightarrow> bytes" where
  "pack_H n = [char_of (n div 256), char_of (n mod 256)]"

definition unpack_H :: "bytes \<Rightarrow> nat" where
  "unpack_H b = code (b ! 0) * 256 + code (b ! 1)"

section \<open>Key managers\<close>

datatype key_manager =
    AwsKmsKeyManager string string
  | LocalKeyManager bytes

definition new_local_key_manager :: "bytes \<Rightarrow> exn + key_manager" where
  "new_local_key_manager master_key =
     (if length master_key \<noteq> DATA_KEY_SIZE
      then Inl (ValueError (''local master key must be 32 bytes, got '' @ py_str_int (int (length master_key))))
      else Inr (LocalKeyManager master_key))"

fun generate_data_key :: "('r, 'x) services \<Rightarrow> key_manager \<Rightarrow> ('r, 'x, bytes \<times> bytes) io" where
  "generate_data_key S (AwsKmsKeyManager key_id region) =
     (\<lambda>w. case sv_kms_generate S key_id (w_ext w) of (r, x) \<Rightarrow> (r, w\<lparr>w_ext := x\<rparr>))"
| "generate_data_key S (LocalKeyManager master) =
     bindM (urandom S DATA_KEY_SIZE) (\<lambda>plaintext_key.
     bindM (urandom S NONCE_SIZE) (\<lambda>nonce.
     bindM (liftE (sv_aes_encrypt S master nonce plaintext_key)) (\<lambda>c.
     ret (plaintext_key, nonce @ c))))"

fun decrypt_data_key :: "('r, 'x) services \<Rightarrow> key_manager \<Rightarrow> bytes \<Rightarrow> ('r, 'x, bytes) io" where
  "decrypt_data_key S (AwsKmsKeyManager key_id region) blob =
     (\<lambda>w. case sv_kms_decrypt S key_id blob (w_ext w) of (r, x) \<Rightarrow> (r, w\<lparr>w_ext := x\<rparr>))"
| "decrypt_data_key S (LocalKeyManager master) blob =
     (if length blob < NONCE_SIZE + GCM_TAG_SIZE then raise (ValueError ''encrypted data key is truncated'')
      else
        bindM (liftE (sv_aes_decrypt S master (take NONCE_SIZE blob) (drop NONCE_SIZE blob))) (\<lambda>r.
        case r of
          None \<Rightarrow> raise (ValueError ''failed to unwrap data key (corrupt blob or wrong master key)'')
        | Some k \<Rightarrow> ret k))"

section \<open>TokenCipher\<close>

definition encrypt :: "('r, 'x) services \<Rightarrow> key_manager \<Rightarrow> string \<Rightarrow> ('r, 'x, bytes) io" where
  "encrypt S km plaintext =
     bindM (register_secret (Some (SecretStr plaintext))) (\<lambda>_.
     bindM (generate_data_key S km) (\<lambda>(data_key, encrypted_key).
     if length encrypted_key > 0xFFFF then raise (ValueError ''encrypted data key too large for blob format'')
     else
       bindM (urandom S NONCE_SIZE) (\<lambda>nonce.
       bindM (liftE (sv_aes_encrypt S data_key nonce plaintext)) (\<lambda>ciphertext.
       ret (MAGIC @ pack_H (length encrypted_key) @ encrypted_key @ nonce @ ciphertext)))))"

definition decrypt :: "('r, 'x) services \<Rightarrow> key_manager \<Rightarrow> bytes \<Rightarrow> ('r, 'x, string) io" where
  "decrypt S km blob =
     (if length blob < HEADER_SIZE then raise (ValueError ''credential blob is truncated'')
      else if take (length MAGIC) blob \<noteq> MAGIC then raise (ValueError ''unknown credential blob version'')
      else
        (let key_len = unpack_H (drop (length MAGIC) blob);
             body_start = HEADER_SIZE + key_len
         in
         if length blob < body_start + NONCE_SIZE + GCM_TAG_SIZE then raise (ValueError ''credential blob is truncated'')
         else
           (let encrypted_key = take key_len (drop HEADER_SIZE blob);
                nonce = take NONCE_SIZE (drop body_start blob);
                ciphertext = drop (body_start + NONCE_SIZE) blob
            in
            bindM (decrypt_data_key S km encrypted_key) (\<lambda>data_key.
            bindM (liftE (sv_aes_decrypt S data_key nonce ciphertext)) (\<lambda>r.
            case r of
              None \<Rightarrow> raise (ValueError ''credential blob failed authentication (corrupt)'')
            | Some plaintext_bytes \<Rightarrow>
                (case utf8_decode plaintext_bytes of
                   None \<Rightarrow> raise UnicodeDecodeError
                 | Some plaintext \<Rightarrow>
                     bindM (register_secret (Some (SecretStr plaintext))) (\<lambda>_. ret plaintext)))))))"

definition build_token_cipher :: "('r, 'x) services \<Rightarrow> settings \<Rightarrow> ('r, 'x, key_manager) io" where
  "build_token_cipher S st =
     (if kms_key_id st \<noteq> [] then ret (AwsKmsKeyManager (kms_key_id st) (aws_region st))
      else
        bindM (if local_master_key_b64 st \<noteq> []
               then (case b64decode (local_master_key_b64 st) of
                       None \<Rightarrow> raise (ValueError ''Incorrect padding'') | Some k \<Rightarrow> ret k)
               else urandom S DATA_KEY_SIZE) (\<lambda>master_key.
        liftE (new_local_key_manager master_key)))"

lemmas kms_sizes = MAGIC_def NONCE_SIZE_def GCM_TAG_SIZE_def DATA_KEY_SIZE_def HEADER_SIZE_def

section \<open>What the cipher relies on\<close>

text \<open>
  AES-GCM: what is encrypted decrypts to itself under the same key and nonce and
  grows by the tag.  \<open>os.urandom(n)\<close> returns \<open>n\<close> bytes.
\<close>

locale aead =
  fixes S :: "('r, 'x) services"
  assumes aes_roundtrip: "sv_aes_encrypt S k n p = Inr c \<Longrightarrow> sv_aes_decrypt S k n c = Inr (Some p)"
    and aes_length: "sv_aes_encrypt S k n p = Inr c \<Longrightarrow> length c = length p + GCM_TAG_SIZE"
    and urandom_length: "length (fst (sv_urandom S m x)) = m"

text \<open>
  The protocol \<open>KeyManager\<close>: a wrapped key unwraps to the key it was generated
  with, at any later time, without touching more than the service's own state.
\<close>

locale data_key_manager = aead S for S :: "('r, 'x) services" +
  fixes km :: key_manager
  assumes unwrap: "fst (generate_data_key S km w) = Inr (k, ek) \<Longrightarrow>
      \<exists>x. decrypt_data_key S km ek v = (Inr k, v\<lparr>w_ext := x\<rparr>)"
    and generate_frame: "\<exists>x. snd (generate_data_key S km w) = w\<lparr>w_ext := x\<rparr>"
begin

text \<open>The pieces of a blob, cut at the offsets \<open>decrypt\<close> uses.\<close>

lemma pack_roundtrip: "n \<le> 0xFFFF \<Longrightarrow> unpack_H (pack_H n @ r) = n"
proof -
  assume "n \<le> 0xFFFF"
  then have "n div 256 < 256" by simp
  then show ?thesis by (simp add: unpack_H_def pack_H_def of_char_char_of_small)
qed

lemma encrypt_form:
  assumes "encrypt S km p w = (Inr blob, w')"
  obtains k ek n c w1 where "fst (generate_data_key S km w1) = Inr (k, ek)" "length ek \<le> 0xFFFF" "length n = NONCE_SIZE"
    "sv_aes_encrypt S k n p = Inr c" "blob = MAGIC @ pack_H (length ek) @ ek @ n @ c"
proof -
  let ?w1 = "w\<lparr>w_secrets := registered (Some (SecretStr p)) (w_secrets w)\<rparr>"
  obtain g w2 where g: "generate_data_key S km ?w1 = (g, w2)" by force
  show ?thesis
  proof (cases g)
    case (Inl e)
    then show ?thesis using assms g by (simp add: encrypt_def register_secret_def bindM_def)
  next
    case (Inr ke)
    obtain k ek where ke: "ke = (k, ek)" by force
    obtain n x where n: "sv_urandom S NONCE_SIZE (w_ext w2) = (n, x)" by force
    then have "length n = NONCE_SIZE" using urandom_length [of NONCE_SIZE "w_ext w2"] by simp
    moreover obtain c where "sv_aes_encrypt S k n p = Inr c" "length ek \<le> 0xFFFF"
      "blob = MAGIC @ pack_H (length ek) @ ek @ n @ c"
      using assms g Inr ke n
      by (auto simp: encrypt_def register_secret_def bindM_def urandom_def draw_def split: if_splits sum.splits)
    moreover have "fst (generate_data_key S km ?w1) = Inr (k, ek)" using g Inr ke by simp
    ultimately show ?thesis by (intro that)
  qed
qed

lemma decrypt_encrypt:
  assumes "encrypt S km p w = (Inr blob, w')" and "utf8_decode p = Some p"
  shows "\<exists>x. decrypt S km blob v =
    (Inr p, v\<lparr>w_ext := x, w_secrets := registered (Some (SecretStr p)) (w_secrets v)\<rparr>)"
proof -
  obtain k ek n c w1 where g: "fst (generate_data_key S km w1) = Inr (k, ek)" and ek: "length ek \<le> 0xFFFF"
    and n: "length n = NONCE_SIZE" and c: "sv_aes_encrypt S k n p = Inr c"
    and blob: "blob = MAGIC @ pack_H (length ek) @ ek @ n @ c"
    by (rule encrypt_form [OF assms(1)])
  have len: "unpack_H (drop (length MAGIC) blob) = length ek"
    using pack_roundtrip [OF ek, of "ek @ n @ c"] by (simp add: blob)
  have hd: "drop HEADER_SIZE blob = ek @ n @ c" "take (length MAGIC) blob = MAGIC"
    by (simp_all add: blob HEADER_SIZE_def pack_H_def)
  have body: "drop (HEADER_SIZE + length ek) blob = n @ c"
    using hd(1) by (metis add.commute append_eq_conv_conj drop_drop)
  have cipher: "drop (HEADER_SIZE + length ek + NONCE_SIZE) blob = c"
    using body n by (metis add.commute append_eq_conv_conj drop_drop)
  have size: "length blob = HEADER_SIZE + length ek + NONCE_SIZE + GCM_TAG_SIZE + length p"
    using aes_length [OF c] n by (simp add: blob HEADER_SIZE_def pack_H_def)
  obtain x where x: "decrypt_data_key S km ek v = (Inr k, v\<lparr>w_ext := x\<rparr>)"
    using unwrap [OF g] by blast
  show ?thesis
    using size hd body cipher n x aes_roundtrip [OF c] assms(2)
    by (auto simp: decrypt_def len Let_def bindM_def register_secret_def)
qed

lemma truncated_blob:
  assumes "encrypt S km p w = (Inr blob, w')" and "m < length blob - length p"
  shows "decrypt S km (take m blob) v = (Inl (ValueError ''credential blob is truncated''), v)"
proof -
  obtain k ek n c w1 where ek: "length ek \<le> 0xFFFF" and n: "length n = NONCE_SIZE"
    and c: "sv_aes_encrypt S k n p = Inr c" and blob: "blob = MAGIC @ pack_H (length ek) @ ek @ n @ c"
    by (rule encrypt_form [OF assms(1)])
  have size: "length blob = HEADER_SIZE + length ek + NONCE_SIZE + GCM_TAG_SIZE + length p"
    using aes_length [OF c] n by (simp add: blob HEADER_SIZE_def pack_H_def)
  show ?thesis
  proof (cases "m < HEADER_SIZE")
    case True
    then have "length (take m blob) < HEADER_SIZE" by simp
    then show ?thesis unfolding decrypt_def by (simp only: if_True raise_run)
  next
    case False
    then obtain d where d: "m = HEADER_SIZE + d" using le_Suc_ex by (auto simp: not_less)
    have tk: "take m blob = MAGIC @ pack_H (length ek) @ take d (ek @ n @ c)"
      unfolding blob d by (simp add: HEADER_SIZE_def pack_H_def)
    have "unpack_H (drop (length MAGIC) (take m blob)) = length ek"
      using pack_roundtrip [OF ek] by (simp add: tk)
    moreover have "take (length MAGIC) (take m blob) = MAGIC" by (simp add: tk)
    moreover have "length (take m blob) = m" using assms(2) by simp
    moreover have "m < HEADER_SIZE + length ek + NONCE_SIZE + GCM_TAG_SIZE" using assms(2) size by simp
    ultimately show ?thesis using False by (simp add: decrypt_def Let_def)
  qed
qed

end

text \<open>The local key manager meets the protocol from the laws of AES-GCM alone.\<close>

sublocale aead \<subseteq> local_km: data_key_manager S "LocalKeyManager master" for master
proof unfold_locales
  fix w k ek v
  assume g: "fst (generate_data_key S (LocalKeyManager master) w) = Inr (k, ek)"
  obtain k1 x1 where 1: "sv_urandom S DATA_KEY_SIZE (w_ext w) = (k1, x1)" by force
  obtain n x2 where 2: "sv_urandom S NONCE_SIZE x1 = (n, x2)" by force
  have n: "length n = NONCE_SIZE" using urandom_length [of NONCE_SIZE x1] 2 by simp
  obtain c where c: "sv_aes_encrypt S master n k = Inr c" and ek: "ek = n @ c"
    using g 1 2 by (auto simp: bindM_def urandom_def draw_def split: sum.splits)
  show "\<exists>x. decrypt_data_key S (LocalKeyManager master) ek v = (Inr k, v\<lparr>w_ext := x\<rparr>)"
    using aes_roundtrip [OF c] aes_length [OF c] n ek by (auto simp: bindM_def intro!: exI [of _ "w_ext v"])
next
  fix w
  show "\<exists>x. snd (generate_data_key S (LocalKeyManager master) w) = w\<lparr>w_ext := x\<rparr>"
    by (auto simp: bindM_def urandom_def draw_def split: prod.split sum.split)
qed

text \<open>AWS KMS: \<open>Decrypt\<close> of a blob \<open>GenerateDataKey\<close> returned yields the key returned with it.\<close>

locale kms_service = aead S for S :: "('r, 'x) services" +
  assumes kms_roundtrip: "fst (sv_kms_generate S key_id x) = Inr (k, ek) \<Longrightarrow> fst (sv_kms_decrypt S key_id ek y) = Inr k"

sublocale kms_service \<subseteq> aws_km: data_key_manager S "AwsKmsKeyManager key_id region" for key_id region
proof unfold_locales
  fix w v :: "('r, 'x) world" and k ek
  assume "fst (generate_data_key S (AwsKmsKeyManager key_id region) w) = Inr (k, ek)"
  then have "fst (sv_kms_decrypt S key_id ek (w_ext v)) = Inr k"
    using kms_roundtrip [of key_id "w_ext w" k ek] by (simp split: prod.splits)
  then show "\<exists>x. decrypt_data_key S (AwsKmsKeyManager key_id region) ek v = (Inr k, v\<lparr>w_ext := x\<rparr>)"
    by (auto split: prod.splits)
next
  fix w
  show "\<exists>x. snd (generate_data_key S (AwsKmsKeyManager key_id region) w) = w\<lparr>w_ext := x\<rparr>"
    by (auto split: prod.splits)
qed

context kms_service
begin

lemma any_manager: "data_key_manager S km"
  by (cases km) (simp_all add: aws_km.data_key_manager_axioms local_km.data_key_manager_axioms)

end

interpretation sample_kms: kms_service sample_services
  by unfold_locales
    (auto simp: sample_encrypt_def sample_decrypt_def sample_tag_def GCM_TAG_SIZE_def sample_services_def Let_def
      split: if_splits)

section \<open>Frames and errors\<close>

lemma keeps_key_manager [wp]:
  assumes "score I"
  shows "keeps I (generate_data_key S km)" "keeps I (decrypt_data_key S km b)"
proof -
  show "keeps I (generate_data_key S km)"
  proof (cases km)
    case (AwsKmsKeyManager k r)
    show ?thesis unfolding AwsKmsKeyManager by (rule keeps_score [OF assms]) (simp_all split: prod.split)
  next
    case (LocalKeyManager m)
    show ?thesis unfolding LocalKeyManager generate_data_key.simps using assms by (intro wp; simp)
  qed
  show "keeps I (decrypt_data_key S km b)"
  proof (cases km)
    case (AwsKmsKeyManager k r)
    show ?thesis unfolding AwsKmsKeyManager by (rule keeps_score [OF assms]) (simp_all split: prod.split)
  next
    case (LocalKeyManager m)
    show ?thesis unfolding LocalKeyManager decrypt_data_key.simps using assms by (intro wp; simp)
  qed
qed

lemma keeps_encrypt [wp]: "score I \<Longrightarrow> keeps I (encrypt S km p)"
  unfolding encrypt_def by (intro wp; simp)

lemma keeps_decrypt [wp]: "score I \<Longrightarrow> keeps I (decrypt S km b)"
  unfolding decrypt_def Let_def by (intro wp; simp)

section \<open>Properties\<close>

text \<open>
  C20: a stored credential decrypts to what was encrypted, with either key manager
  and at any later time, and the plaintext is registered for redaction before it
  is returned.
\<close>

theorem cipher_roundtrip:
  assumes "kms_service S" and "encrypt S km p w = (Inr blob, w')" and "utf8_decode p = Some p"
  shows "\<exists>x. decrypt S km blob v = (Inr p, v\<lparr>w_ext := x, w_secrets := registered (Some (SecretStr p)) (w_secrets v)\<rparr>)"
  by (rule data_key_manager.decrypt_encrypt [OF kms_service.any_manager [OF assms(1)] assms(2,3)])

definition sample_key :: key_manager where
  "sample_key = LocalKeyManager (replicate 32 CHR ''m'')"

theorem cipher_roundtrip_witness:
  "\<exists>blob w'. encrypt sample_services sample_key ''ya29.token'' sample_world = (Inr blob, w') \<and>
     fst (decrypt sample_services sample_key blob sample_world) = Inr ''ya29.token''"
proof -
  obtain blob w' where e: "encrypt sample_services sample_key ''ya29.token'' sample_world = (Inr blob, w')"
    by (simp add: encrypt_def sample_key_def register_secret_def bindM_def urandom_def draw_def sample_encrypt_def
        sample_tag_def kms_sizes)
  have u: "utf8_decode ''ya29.token'' = Some ''ya29.token''" by code_simp
  have "fst (decrypt sample_services sample_key blob sample_world) = Inr ''ya29.token''"
    using cipher_roundtrip [OF sample_kms.kms_service_axioms e u, of sample_world] by (metis fst_conv)
  then show ?thesis using e by blast
qed

text \<open>
  Every truncation of a stored blob that cuts into its header, wrapped key,
  nonce or tag is rejected with \<open>ValueError\<close> before any key is unwrapped, and
  nothing changes.
\<close>

theorem truncated_blob_rejected:
  assumes "kms_service S" and "encrypt S km p w = (Inr blob, w')" and "n < length blob - length p"
  shows "decrypt S km (take n blob) v = (Inl (ValueError ''credential blob is truncated''), v)"
  by (rule data_key_manager.truncated_blob [OF kms_service.any_manager [OF assms(1)] assms(2,3)])

theorem truncated_blob_rejected_witness:
  "\<exists>blob w'. encrypt sample_services sample_key ''ya29.token'' sample_world = (Inr blob, w') \<and>
     fst (decrypt sample_services sample_key (take 20 blob) sample_world) = Inl (ValueError ''credential blob is truncated'')"
proof -
  obtain blob w' where e: "encrypt sample_services sample_key ''ya29.token'' sample_world = (Inr blob, w')"
    and l: "20 < length blob - length ''ya29.token''"
    by (simp add: encrypt_def sample_key_def register_secret_def bindM_def urandom_def draw_def sample_encrypt_def
        sample_tag_def kms_sizes pack_H_def)
  have "fst (decrypt sample_services sample_key (take 20 blob) sample_world) = Inl (ValueError ''credential blob is truncated'')"
    using truncated_blob_rejected [OF sample_kms.kms_service_axioms e l, of sample_world] by (simp only: fst_conv)
  then show ?thesis using e by blast
qed

text \<open>
  With the local key manager, decrypting any bytes whatever either returns a
  text or raises a \<open>ValueError\<close>; the invoke path turns exactly these into a failed
  outcome.
\<close>

theorem local_decrypt_errors:
  assumes "\<And>k n c e. sv_aes_decrypt S k n c = Inl e \<Longrightarrow> is_ValueError e"
    and "decrypt S (LocalKeyManager master) blob w = (Inl e, w')"
  shows "is_ValueError e"
  using assms
  by (auto simp: decrypt_def Let_def bindM_def register_secret_def split: if_splits sum.splits option.splits)

theorem local_decrypt_errors_witness:
  "is_ValueError (case fst (decrypt sample_services sample_key ''CB1 garbage'' sample_world) of Inl e \<Rightarrow> e)"
proof -
  have a: "\<And>k n c e. sv_aes_decrypt sample_services k n c = Inl e \<Longrightarrow> is_ValueError e"
    by (auto simp: sample_decrypt_def split: if_splits)
  obtain e w' where d: "decrypt sample_services (LocalKeyManager (replicate 32 CHR ''m'')) ''CB1 garbage'' sample_world = (Inl e, w')"
    by (simp add: decrypt_def kms_sizes unpack_H_def)
  show ?thesis using local_decrypt_errors [OF a d] d by (simp add: sample_key_def)
qed

end
