(* ===== verification/Cb_Grants_Cache.thy ===== *)
theory Cb_Grants_Cache
  imports Cb_Sample
begin

text \<open>
  The cache of issued and revoked token hashes (\<open>credbroker/cache/grants_cache.py\<close>).
  A collaborator that callers may leave out is a flag of the configuration; here
  the operations of a present cache.
\<close>

definition ISSUED_PREFIX :: string where
  "ISSUED_PREFIX = ''grant:''"

definition REVOKED_PREFIX :: string where
  "REVOKED_PREFIX = ''revoked:''"

definition DEFAULT_REVOKED_TTL_SECONDS :: int where
  "DEFAULT_REVOKED_TTL_SECONDS = 600"

definition record_issued :: "('r, 'x) services \<Rightarrow> string \<Rightarrow> int \<Rightarrow> ('r, 'x, unit) io" where
  "record_issued S token_hash ttl_seconds =
     bindM (redis_set S (ISSUED_PREFIX @ token_hash) ''1'' False ttl_seconds) (\<lambda>_. ret ())"

definition record_revoked :: "('r, 'x) services \<Rightarrow> string \<Rightarrow> int \<Rightarrow> ('r, 'x, unit) io" where
  "record_revoked S token_hash ttl_seconds =
     bindM (redis_set S (REVOKED_PREFIX @ token_hash) ''1'' False ttl_seconds) (\<lambda>_.
     redis_delete S (ISSUED_PREFIX @ token_hash))"

definition is_revoked :: "('r, 'x) services \<Rightarrow> string \<Rightarrow> ('r, 'x, bool) io" where
  "is_revoked S token_hash = redis_exists S (REVOKED_PREFIX @ token_hash)"

definition is_known :: "('r, 'x) services \<Rightarrow> string \<Rightarrow> ('r, 'x, bool) io" where
  "is_known S token_hash = redis_exists S (ISSUED_PREFIX @ token_hash)"

lemmas grant_cache_defs = record_issued_def record_revoked_def is_revoked_def is_known_def

lemma cache_keys_apart [simp]:
  "REVOKED_PREFIX @ h \<noteq> ISSUED_PREFIX @ h'" "ISSUED_PREFIX @ h \<noteq> REVOKED_PREFIX @ h'"
  "REVOKED_PREFIX \<noteq> ISSUED_PREFIX" "ISSUED_PREFIX \<noteq> REVOKED_PREFIX"
  by (simp_all add: REVOKED_PREFIX_def ISSUED_PREFIX_def)

lemma cache_keys_inject [simp]:
  "REVOKED_PREFIX @ h = REVOKED_PREFIX @ h' \<longleftrightarrow> h = h'" "ISSUED_PREFIX @ h = ISSUED_PREFIX @ h' \<longleftrightarrow> h = h'"
  by simp_all

lemma keeps_grant_cache [wp]:
  assumes "score I" and "env_stable S I"
  shows "keeps I (record_issued S h s)" "keeps I (record_revoked S h s)" "keeps I (is_revoked S h)"
    "keeps I (is_known S h)"
  unfolding grant_cache_defs using assms by (intro wp; simp)+

section \<open>The contract of a revocation cache\<close>

text \<open>
  What the invoke path relies on: after a revocation is recorded every check of
  that hash within the marker's lifetime is positive, the issued entry is gone,
  and the entries of other grants are untouched.  The state is the Redis server's.
\<close>

locale revocation_cache =
  fixes revoke :: "int \<Rightarrow> string \<Rightarrow> int \<Rightarrow> 'r \<Rightarrow> 'r"
    and issue :: "int \<Rightarrow> string \<Rightarrow> int \<Rightarrow> 'r \<Rightarrow> 'r"
    and revoked :: "int \<Rightarrow> string \<Rightarrow> 'r \<Rightarrow> bool"
    and known :: "int \<Rightarrow> string \<Rightarrow> 'r \<Rightarrow> bool"
  assumes revoked_after: "0 < s \<Longrightarrow> t \<le> t' \<Longrightarrow> revoked t' h (revoke t h s r) \<longleftrightarrow> t' < expiry_at t s"
    and revoked_other: "h' \<noteq> h \<Longrightarrow> t \<le> t' \<Longrightarrow> revoked t' h' (revoke t h s r) \<longleftrightarrow> revoked t' h' r"
    and revoke_forgets: "t \<le> t' \<Longrightarrow> \<not> known t' h (revoke t h s r)"
    and known_after: "0 < s \<Longrightarrow> t \<le> t' \<Longrightarrow> known t' h (issue t h s r) \<longleftrightarrow> t' < expiry_at t s"
    and issue_revoked: "t \<le> t' \<Longrightarrow> revoked t' h' (issue t h s r) \<longleftrightarrow> revoked t' h' r"
begin

text \<open>A marker survives issuing and revoking other grants until it expires.\<close>

lemma revoked_persists:
  assumes "0 < s" and "t \<le> t1" and "t1 \<le> t'" and "t' < expiry_at t s" and "h' \<noteq> h"
  shows "revoked t' h (revoke t1 h' s' (revoke t h s r))" "revoked t' h (issue t1 h'' s'' (revoke t h s r))"
  using assms by (simp_all add: revoked_after revoked_other issue_revoked)

end

text \<open>The redis commands of the cache's operations, run at one instant.\<close>

definition revoke_at :: "'r redis_ops \<Rightarrow> int \<Rightarrow> string \<Rightarrow> int \<Rightarrow> 'r \<Rightarrow> 'r" where
  "revoke_at R t h s r =
     rd_delete R t (ISSUED_PREFIX @ h) (snd (rd_set R t (REVOKED_PREFIX @ h) ''1'' False s r))"

definition issue_at :: "'r redis_ops \<Rightarrow> int \<Rightarrow> string \<Rightarrow> int \<Rightarrow> 'r \<Rightarrow> 'r" where
  "issue_at R t h s r = snd (rd_set R t (ISSUED_PREFIX @ h) ''1'' False s r)"

definition revoked_at :: "'r redis_ops \<Rightarrow> int \<Rightarrow> string \<Rightarrow> 'r \<Rightarrow> bool" where
  "revoked_at R t h r = rd_exists R t (REVOKED_PREFIX @ h) r"

definition known_at :: "'r redis_ops \<Rightarrow> int \<Rightarrow> string \<Rightarrow> 'r \<Rightarrow> bool" where
  "known_at R t h r = rd_exists R t (ISSUED_PREFIX @ h) r"

sublocale redis_server \<subseteq> gc: revocation_cache "revoke_at R" "issue_at R" "revoked_at R" "known_at R"
  by unfold_locales
    (auto simp: revoke_at_def issue_at_def revoked_at_def known_at_def exists_get set_written set_other
      delete_same delete_other)

context redis_server
begin

lemmas cache_laws = gc.revoked_after gc.revoked_other gc.revoke_forgets gc.known_after gc.issue_revoked

end

interpretation mem_gc: revocation_cache
  "revoke_at mem_redis" "issue_at mem_redis" "revoked_at mem_redis" "known_at mem_redis"
  by (rule mem.gc.revocation_cache_axioms)

text \<open>The operations run exactly these commands when nothing interferes.\<close>

lemma grant_cache_run:
  assumes "redis_server (sv_redis S)" and "quiet S" and "0 < s"
  shows "record_revoked S h s w = (Inr (), w\<lparr>w_redis := revoke_at (sv_redis S) (w_now w) h s (w_redis w)\<rparr>)"
    and "record_issued S h s w = (Inr (), w\<lparr>w_redis := issue_at (sv_redis S) (w_now w) h s (w_redis w)\<rparr>)"
    and "is_revoked S h w = (Inr (revoked_at (sv_redis S) (w_now w) h (w_redis w)), w)"
    and "is_known S h w = (Inr (known_at (sv_redis S) (w_now w) h (w_redis w)), w)"
  using redis_server.set_fresh_result [OF assms(1,3)]
  by (simp_all add: grant_cache_defs bindM_def world_prim_defs awaiting_quiet [OF assms(2)] revoke_at_def
      issue_at_def revoked_at_def known_at_def split: prod.split sum.split)
    (metis fst_conv sum.distinct(1))+

text \<open>
  C28: a revocation recorded in the cache is seen by every check of the same token
  hash made within the marker's ten minutes, the hash is no longer listed as
  issued, and no other token is affected.
\<close>

theorem recorded_revocation_is_seen:
  assumes "redis_server (sv_redis S)" and "quiet S"
    and "record_revoked S h DEFAULT_REVOKED_TTL_SECONDS w = (res, w')"
    and "w_now w \<le> t" and "t < w_now w + 600 * 1000000"
  shows "res = Inr () \<and>
    is_revoked S h (w'\<lparr>w_now := t\<rparr>) = (Inr True, w'\<lparr>w_now := t\<rparr>) \<and>
    is_known S h (w'\<lparr>w_now := t\<rparr>) = (Inr False, w'\<lparr>w_now := t\<rparr>) \<and>
    (\<forall>h'. h' \<noteq> h \<longrightarrow> fst (is_revoked S h' (w'\<lparr>w_now := t\<rparr>)) = fst (is_revoked S h' (w\<lparr>w_now := t\<rparr>)))"
proof -
  have ttl: "0 < DEFAULT_REVOKED_TTL_SECONDS" by (simp add: DEFAULT_REVOKED_TTL_SECONDS_def)
  note run = grant_cache_run [OF assms(1,2) ttl]
  note gc = redis_server.cache_laws [OF assms(1)]
  have w': "w' = w\<lparr>w_redis := revoke_at (sv_redis S) (w_now w) h DEFAULT_REVOKED_TTL_SECONDS (w_redis w)\<rparr>"
    and res: "res = Inr ()"
    using assms(3) by (simp_all add: run)
  have "is_revoked S h (w'\<lparr>w_now := t\<rparr>) = (Inr True, w'\<lparr>w_now := t\<rparr>)"
    using gc(1) [OF ttl assms(4)] assms(5)
    by (simp add: run w' expiry_at_def DEFAULT_REVOKED_TTL_SECONDS_def)
  moreover have "is_known S h (w'\<lparr>w_now := t\<rparr>) = (Inr False, w'\<lparr>w_now := t\<rparr>)"
    using gc(3) [OF assms(4)] by (simp add: run w')
  moreover have "fst (is_revoked S h' (w'\<lparr>w_now := t\<rparr>)) = fst (is_revoked S h' (w\<lparr>w_now := t\<rparr>))"
    if "h' \<noteq> h" for h'
    using gc(2) [OF that assms(4)] by (simp add: run w')
  ultimately show ?thesis using res by blast
qed

theorem recorded_revocation_is_seen_witness:
  "fst (is_revoked sample_services ''h1''
     ((snd (record_revoked sample_services ''h1'' DEFAULT_REVOKED_TTL_SECONDS sample_world))
        \<lparr>w_now := w_now sample_world + 5000000\<rparr>)) = Inr True"
  using recorded_revocation_is_seen 
    [of sample_services "''h1''" sample_world "fst (record_revoked sample_services ''h1'' DEFAULT_REVOKED_TTL_SECONDS sample_world)"
      "snd (record_revoked sample_services ''h1'' DEFAULT_REVOKED_TTL_SECONDS sample_world)"
      "w_now sample_world + 5000000"]
  by simp

end
