(* ===== verification/Cb_Ratelimit.thy ===== *)
theory Cb_Ratelimit
  imports Cb_Sample
begin

text \<open>
  The fixed-window rate limiter (\<open>credbroker/cache/ratelimit.py\<close>): one counter
  per key and window, counted with \<open>INCR\<close> and bounded with \<open>EXPIRE\<close> on the
  first hit.
\<close>

definition RATELIMIT_PREFIX :: string where
  "RATELIMIT_PREFIX = ''ratelimit:''"

definition window_index :: "int \<Rightarrow> int \<Rightarrow> int" where
  "window_index now window_seconds = now div (window_seconds * 1000000)"

definition counter_key :: "string \<Rightarrow> int \<Rightarrow> string" where
  "counter_key key i = RATELIMIT_PREFIX @ key @ '':'' @ py_str_int i"

definition check :: "('r, 'x) services \<Rightarrow> string \<Rightarrow> int \<Rightarrow> int \<Rightarrow> ('r, 'x, bool) io" where
  "check S key limit window_seconds =
     bindM time_time (\<lambda>now.
     if window_seconds = 0 then raise (OtherException ''ZeroDivisionError'' ''float floor division by zero'')
     else
       (let k = counter_key key (window_index now window_seconds) in
        bindM (redis_incr S k) (\<lambda>count.
        bindM (if count = 1 then redis_expire S k window_seconds else ret ()) (\<lambda>_.
        ret (count \<le> limit)))))"

lemma keeps_check [wp]:
  assumes "score I" and "env_stable S I"
  shows "keeps I (check S key limit win)"
  unfolding check_def Let_def using assms by (intro wp; simp)

text \<open>Counters of different windows of one key, and of different namespaces, are different keys.\<close>

lemma counter_key_inject [simp]: "counter_key key i = counter_key key j \<longleftrightarrow> i = j"
  by (simp add: counter_key_def)

section \<open>The counter of a window\<close>

definition window_end :: "int \<Rightarrow> int \<Rightarrow> int" where
  "window_end win i = (i + 1) * (win * 1000000)"

text \<open>\<open>n\<close> hits are on the counter of window \<open>i\<close>, and it lives until the window ends.\<close>

definition counted :: "'r redis_ops \<Rightarrow> string \<Rightarrow> int \<Rightarrow> int \<Rightarrow> int \<Rightarrow> 'r \<Rightarrow> nat \<Rightarrow> bool" where
  "counted R key win i t r n \<longleftrightarrow>
     (if n = 0 then rd_get R t (counter_key key i) r = None
      else \<forall>t'. t \<le> t' \<longrightarrow> t' < window_end win i \<longrightarrow> rd_get R t' (counter_key key i) r = Some (py_str_int (int n)))"

text \<open>The redis commands of one check, at one instant.\<close>

definition hit :: "'r redis_ops \<Rightarrow> string \<Rightarrow> int \<Rightarrow> int \<Rightarrow> 'r \<Rightarrow> (exn + int) \<times> 'r" where
  "hit R key win t r =
     (let k = counter_key key (window_index t win); (c, r1) = rd_incr R t k r
      in (c, if c = Inr 1 then rd_expire R t k win r1 else r1))"

lemma window_bounds:
  assumes "0 < win"
  shows "window_index t win * (win * 1000000) \<le> t" and "t < window_end win (window_index t win)"
    and "window_end win (window_index t win) \<le> expiry_at t win"
proof -
  let ?d = "win * 1000000"
  have d: "0 < ?d" using assms by simp
  have t: "t = t div ?d * ?d + t mod ?d" by (rule div_mult_mod_eq [symmetric])
  have "0 \<le> t mod ?d" "t mod ?d < ?d" using d by (simp_all add: pos_mod_sign pos_mod_bound)
  with t show "window_index t win * ?d \<le> t" "t < window_end win (window_index t win)"
    "window_end win (window_index t win) \<le> expiry_at t win"
    unfolding window_index_def window_end_def expiry_at_def distrib_right by linarith+
qed

context redis_server
begin

lemma counted_later: "counted R key win i t r n \<Longrightarrow> t \<le> t' \<Longrightarrow> counted R key win i t' r n"
  by (auto simp: counted_def get_gone split: if_splits)

lemma counted_hit:
  assumes "0 < win" and "counted R key win (window_index t win) t r n" and "int n + 1 < 2 ^ 63"
  shows "fst (hit R key win t r) = Inr (int n + 1) \<and>
    counted R key win (window_index t win) t (snd (hit R key win t r)) (Suc n)"
proof (cases "n = 0")
  case True
  let ?k = "counter_key key (window_index t win)"
  have none: "rd_get R t ?k r = None" using assms(2) True by (simp add: counted_def)
  obtain c r1 where i: "rd_incr R t ?k r = (c, r1)" by force
  have "c = Inr 1" and "rd_get R t ?k r1 = Some (py_str_int 1)"
    using incr_missing [OF none, of t] i by auto
  then show ?thesis
    using window_bounds [OF assms(1), of t] True i
    by (auto simp: hit_def counted_def Let_def expire_same [OF assms(1)])
next
  case False
  let ?k = "counter_key key (window_index t win)"
  have some: "rd_get R t' ?k r = Some (py_str_int (int n))" if "t \<le> t'" "t' < window_end win (window_index t win)" for t'
    using assms(2) False that by (simp add: counted_def)
  have now: "rd_get R t ?k r = Some (py_str_int (int n))"
    using some window_bounds [OF assms(1), of t] by simp
  obtain c r1 where i: "rd_incr R t ?k r = (c, r1)" by force
  have "c = Inr (int n + 1)" using incr_present [OF now assms(3), of t] i by simp
  moreover have "rd_get R t' ?k r1 = Some (py_str_int (int n + 1))"
    if "t \<le> t'" "t' < window_end win (window_index t win)" for t'
    using incr_present [OF now assms(3) that(1)] i some [OF that] by simp
  ultimately show ?thesis using False i by (auto simp: hit_def counted_def Let_def add.commute)
qed

lemma counted_hit_other:
  assumes "counted R key win j t r n" and "j \<noteq> window_index t win"
  shows "counted R key win j t (snd (hit R key win t r)) n"
proof -
  have "rd_get R t' (counter_key key j) (snd (hit R key win t r)) = rd_get R t' (counter_key key j) r" if "t \<le> t'" for t'
    using that assms(2) incr_other [OF _ that] expire_other [OF _ that]
    by (auto simp: hit_def Let_def split: prod.splits) (metis counter_key_inject snd_conv)+
  then show ?thesis using assms(1) by (simp add: counted_def)
qed

end

section \<open>Sequences of checks\<close>

text \<open>Checks of one key at the given instants, nothing else touching its counters.\<close>

fun checks :: "('r, 'x) services \<Rightarrow> string \<Rightarrow> int \<Rightarrow> int \<Rightarrow> int list \<Rightarrow> ('r, 'x) world \<Rightarrow> (exn + bool) list" where
  "checks S key limit win [] w = []"
| "checks S key limit win (t # ts) w =
     (case check S key limit win (w\<lparr>w_now := t\<rparr>) of (b, w') \<Rightarrow> b # checks S key limit win ts w')"

lemma check_hit:
  assumes "quiet S" and "0 < win" and "hit (sv_redis S) key win (w_now w) (w_redis w) = (Inr n, r)"
  shows "check S key limit win w = (Inr (n \<le> limit), w\<lparr>w_redis := r\<rparr>)"
  using assms(2,3)
  by (auto simp: check_def hit_def Let_def bindM_def world_prim_defs awaiting_quiet [OF assms(1)] split: prod.splits)

lemma checks_in_window:
  assumes "redis_server (sv_redis S)" and "quiet S" and "0 < win"
    and "sorted (t0 # ts)" and "\<forall>t \<in> set ts. window_index t win = i"
    and "counted (sv_redis S) key win i t0 (w_redis w) n" and "int n + int (length ts) < 2 ^ 63"
  shows "checks S key limit win ts w = map (\<lambda>j. Inr (int n + int j + 1 \<le> limit)) [0..<length ts]"
  using assms(4-)
proof (induction ts arbitrary: t0 w n)
  case (Cons t ts)
  obtain c r where h: "hit (sv_redis S) key win t (w_redis w) = (c, r)" by force
  have "counted (sv_redis S) key win i t (w_redis w) n"
    using redis_server.counted_later [OF assms(1)] Cons.prems by (meson list.set_intros(1) sorted_simps(2))
  then have c: "c = Inr (int n + 1)" and r: "counted (sv_redis S) key win i t r (Suc n)"
    using redis_server.counted_hit [OF assms(1,3), of key t "w_redis w" n] Cons.prems h by auto
  have "checks S key limit win ts (w\<lparr>w_now := t, w_redis := r\<rparr>)
      = map (\<lambda>j. Inr (int (Suc n) + int j + 1 \<le> limit)) [0..<length ts]"
    by (rule Cons.IH [of t]) (use Cons.prems r in auto)
  moreover have "check S key limit win (w\<lparr>w_now := t\<rparr>) = (Inr (int n + 1 \<le> limit), w\<lparr>w_now := t, w_redis := r\<rparr>)"
    using check_hit [OF assms(2,3), of key "w\<lparr>w_now := t\<rparr>"] h c by simp
  ultimately show ?case
    by (simp add: upt_conv_Cons map_Suc_upt [symmetric] comp_def algebra_simps del: upt_Suc)
qed simp

definition allowed_count :: "(exn + bool) list \<Rightarrow> nat" where
  "allowed_count bs = length (filter (\<lambda>b. b = Inr True) bs)"

lemma checks_two_windows:
  assumes "redis_server (sv_redis S)" and "quiet S" and "0 < win"
    and "sorted (t0 # ts)" and "\<forall>t \<in> set ts. window_index t win = i \<or> window_index t win = j" and "i \<noteq> j"
    and "counted (sv_redis S) key win i t0 (w_redis w) n" and "counted (sv_redis S) key win j t0 (w_redis w) m"
    and "int n + int m + int (length ts) < 2 ^ 63"
  shows "allowed_count (checks S key limit win ts w) \<le> nat (limit - int n) + nat (limit - int m)"
  using assms(4-)
proof (induction ts arbitrary: t0 w n m i j)
  case Nil
  then show ?case by (simp add: allowed_count_def)
next
  case (Cons t ts)
  have step: "allowed_count (checks S key limit win (t # ts) w) \<le> nat (limit - int n) + nat (limit - int m)"
    if ij: "window_index t win = i" and ne: "i \<noteq> j" and mem: "\<forall>t \<in> set ts. window_index t win = i \<or> window_index t win = j"
      and ci: "counted (sv_redis S) key win i t0 (w_redis w) n" and cj: "counted (sv_redis S) key win j t0 (w_redis w) m"
      and small: "int n + int m + int (length (t # ts)) < 2 ^ 63" for i j n m
  proof -
    obtain c r where h: "hit (sv_redis S) key win t (w_redis w) = (c, r)" by force
    have t: "t0 \<le> t" "sorted (t # ts)" using Cons.prems(1) by simp_all
    have c: "c = Inr (int n + 1)" and r: "counted (sv_redis S) key win i t r (Suc n)"
      using redis_server.counted_hit [OF assms(1,3), of key t "w_redis w" n]
        redis_server.counted_later [OF assms(1) ci t(1)] ij small h by auto
    have r': "counted (sv_redis S) key win j t r m"
      using redis_server.counted_hit_other [OF assms(1) redis_server.counted_later [OF assms(1) cj t(1)]] ij ne h by auto
    have "allowed_count (checks S key limit win ts (w\<lparr>w_now := t, w_redis := r\<rparr>))
        \<le> nat (limit - int (Suc n)) + nat (limit - int m)"
      by (rule Cons.IH [of t i j]) (use t mem ne r r' small in auto)
    moreover have "check S key limit win (w\<lparr>w_now := t\<rparr>) = (Inr (int n + 1 \<le> limit), w\<lparr>w_now := t, w_redis := r\<rparr>)"
      using check_hit [OF assms(2,3), of key "w\<lparr>w_now := t\<rparr>"] h c by simp
    ultimately show ?thesis by (auto simp: allowed_count_def)
  qed
  show ?case
  proof (cases "window_index t win = i")
    case True
    show ?thesis by (rule step [of i j]) (use Cons.prems True in auto)
  next
    case False
    then have "window_index t win = j" using Cons.prems by auto
    then have "allowed_count (checks S key limit win (t # ts) w) \<le> nat (limit - int m) + nat (limit - int n)"
      by (intro step [of j i]) (use Cons.prems in auto)
    then show ?thesis by simp
  qed
qed

section \<open>Properties\<close>

text \<open>
  C26: within one window of a key whose counter has not started, exactly the first
  \<open>limit\<close> checks are allowed and every later one is denied, whatever their
  instants.
\<close>

theorem ratelimit_exact:
  assumes "redis_server (sv_redis S)" and "quiet S" and "0 < win"
    and "sorted ts" and "\<forall>t \<in> set ts. window_index t win = i"
    and "\<forall>t. rd_get (sv_redis S) t (counter_key key i) (w_redis w) = None" and "int (length ts) < 2 ^ 63"
  shows "checks S key limit win ts w = map (\<lambda>j. Inr (int j < limit)) [0..<length ts]"
proof (cases ts)
  case (Cons t ts')
  have "checks S key limit win ts w = map (\<lambda>j. Inr (int 0 + int j + 1 \<le> limit)) [0..<length ts]"
    by (rule checks_in_window [OF assms(1-3), of t _ i]) (use assms(4-) Cons in \<open>auto simp: counted_def\<close>)
  then show ?thesis by (simp add: zle_add1_eq_le [symmetric] del: zle_add1_eq_le)
qed simp

theorem ratelimit_exact_witness:
  "checks sample_services ''invoke:a'' 2 60 [1700000000000000, 1700000001000000, 1700000002000000] sample_world
     = [Inr True, Inr True, Inr False]"
  using ratelimit_exact [of sample_services 60 "[1700000000000000, 1700000001000000, 1700000002000000]"
      28333333 "''invoke:a''" sample_world 2]
  by (simp add: window_index_def upt_rec del: checks.simps)

text \<open>
  C27: over any interval no longer than the window, across its boundary too, at
  most twice the limit is allowed: the worst case the module's documentation
  accepts.
\<close>

theorem ratelimit_two_windows:
  assumes "redis_server (sv_redis S)" and "quiet S" and "0 < win" and "0 \<le> limit"
    and "sorted ts" and "\<forall>t \<in> set ts. start \<le> t \<and> t \<le> start + win * 1000000"
    and "\<forall>t i. rd_get (sv_redis S) t (counter_key key i) (w_redis w) = None" and "int (length ts) < 2 ^ 63"
  shows "int (allowed_count (checks S key limit win ts w)) \<le> 2 * limit"
proof -
  let ?i = "window_index start win"
  have "window_index t win = ?i \<or> window_index t win = ?i + 1" if "t \<in> set ts" for t
  proof -
    let ?d = "win * 1000000"
    have d: "0 < ?d" using assms(3) by simp
    have "start div ?d \<le> t div ?d" using assms(6) that d by (intro zdiv_mono1) auto
    moreover have "t div ?d \<le> (start + 1 * ?d) div ?d" using assms(6) that d by (intro zdiv_mono1) auto
    moreover have "(start + 1 * ?d) div ?d = start div ?d + 1" using d by (subst div_mult_self1) auto
    ultimately show ?thesis unfolding window_index_def by linarith
  qed
  then have "allowed_count (checks S key limit win ts w) \<le> nat (limit - int 0) + nat (limit - int 0)"
    by (intro checks_two_windows [OF assms(1-3), of start ts ?i "?i + 1"]) (use assms(5-) in \<open>auto simp: counted_def\<close>)
  then show ?thesis using assms(4) by simp
qed

theorem ratelimit_two_windows_witness:
  "int (allowed_count (checks sample_services ''invoke:a'' 1 60
     [1700000039000000, 1700000039500000, 1700000040000000, 1700000041000000] sample_world)) \<le> 2 * 1"
  by (rule ratelimit_two_windows [where start = 1700000039000000])
    simp_all

end
