(* ===== verification/Cb_Idempotency.thy ===== *)
theory Cb_Idempotency
  imports Cb_Sample
begin

text \<open>
  The idempotency store (\<open>credbroker/reliability/idempotency.py\<close>): a key is free,
  reserved by an owner for a minute, or holds a completed result for the window.
  The store's object is its \<open>window_seconds\<close>.  A Python value that may be
  \<open>None\<close> or a parsed JSON document is a \<open>json\<close>, \<open>None\<close> being \<open>JNull\<close>.
\<close>

definition PENDING_MARKER :: string where
  "PENDING_MARKER = ''__pending__''"

definition RESERVATION_TTL_SECONDS :: int where
  "RESERVATION_TTL_SECONDS = 60"

definition IDEM_PREFIX :: string where
  "IDEM_PREFIX = ''idem:''"

definition new_store :: "int \<Rightarrow> exn + int" where
  "new_store window_seconds =
     (if window_seconds < 1 then Inl (ValueError ''window_seconds must be >= 1'') else Inr window_seconds)"

definition name :: "string \<Rightarrow> string" where
  "name key = IDEM_PREFIX @ key"

definition pending_value :: "string \<Rightarrow> string" where
  "pending_value owner = PENDING_MARKER @ '':'' @ owner"

definition idem_get :: "('r, 'x) services \<Rightarrow> string \<Rightarrow> ('r, 'x, json) io" where
  "idem_get S key =
     bindM (redis_get S (name key)) (\<lambda>value.
     case value of
       None \<Rightarrow> ret JNull
     | Some v \<Rightarrow>
         if prefix PENDING_MARKER v
         then raise (broker_error IdempotencyConflictError
                ''a concurrent call with the same idempotency key is in flight'')
         else (case loads (sv_float S) v of None \<Rightarrow> raise JSONDecodeError | Some j \<Rightarrow> ret j))"

definition reserve :: "('r, 'x) services \<Rightarrow> string \<Rightarrow> ('r, 'x, string option) io" where
  "reserve S key =
     bindM (token_hex S 16) (\<lambda>owner.
     bindM (redis_set S (name key) (pending_value owner) True RESERVATION_TTL_SECONDS) (\<lambda>claimed.
     ret (if claimed then Some owner else None)))"

definition complete :: "('r, 'x) services \<Rightarrow> int \<Rightarrow> string \<Rightarrow> json \<Rightarrow> string option \<Rightarrow> ('r, 'x, unit) io" where
  "complete S window_seconds key result owner =
     (let write = bindM (redis_set S (name key) (dumps default_opts result) False window_seconds) (\<lambda>_. ret ()) in
      case owner of
        None \<Rightarrow> write
      | Some o' \<Rightarrow>
          bindM (redis_get S (name key)) (\<lambda>value.
          if value \<noteq> Some (pending_value o') then ret () else write))"

definition release :: "('r, 'x) services \<Rightarrow> string \<Rightarrow> string option \<Rightarrow> ('r, 'x, unit) io" where
  "release S key owner =
     bindM (redis_get S (name key)) (\<lambda>value.
     case value of
       None \<Rightarrow> ret ()
     | Some v \<Rightarrow>
         if \<not> prefix PENDING_MARKER v then ret ()
         else if owner \<noteq> None \<and> v \<noteq> pending_value (the owner) then ret ()
         else redis_delete S (name key))"

lemmas idem_defs = idem_get_def reserve_def complete_def release_def

lemma keeps_idem [wp]:
  assumes "score I" and "env_stable S I"
  shows "keeps I (idem_get S key)" "keeps I (reserve S key)" "keeps I (complete S win key v owner)"
    "keeps I (release S key owner)"
  unfolding idem_defs Let_def using assms by (intro wp; simp)+

lemma name_inject [simp]: "name k = name k' \<longleftrightarrow> k = k'"
  by (simp add: name_def)

lemma pending_value_inject [simp]: "pending_value o1 = pending_value o2 \<longleftrightarrow> o1 = o2"
  by (simp add: pending_value_def)

lemma prefix_pending_value [simp]: "prefix PENDING_MARKER (pending_value o1)"
  by (simp add: pending_value_def)

text \<open>The text of a result never looks like a reservation.\<close>

lemma scan_num_underscore: "scan_num (CHR ''_'' # cs) = None"
  by (simp add: scan_num_def scan_unsigned_def is_digit_def)

lemma dumps_no_underscore:
  assumes "wf_json fl v" and "dumps default_opts v = c # cs"
  shows "c \<noteq> CHR ''_''"
proof (cases v)
  case (JBool b)
  then show ?thesis using assms by (cases b) auto
next
  case (JInt i)
  then have "c \<in> set (py_str_int i)" using assms by simp
  then show ?thesis using py_str_int_chars [of c i] by auto
next
  case (JFloat i r)
  then show ?thesis using assms scan_num_underscore [of cs] by auto
next
  case (JStr t)
  then show ?thesis using assms by (auto simp: dumps_str_def dquote_def)
qed (use assms in auto)

lemma dumps_not_pending: "wf_json fl v \<Longrightarrow> \<not> prefix PENDING_MARKER (dumps default_opts v)"
  using dumps_no_underscore [of fl v] by (cases "dumps default_opts v") (auto simp: PENDING_MARKER_def)

section \<open>The abstract slot\<close>

datatype slot = Free | Pending string | Done string

definition slot_at :: "'r redis_ops \<Rightarrow> int \<Rightarrow> string \<Rightarrow> 'r \<Rightarrow> slot" where
  "slot_at R t key r =
     (case rd_get R t (name key) r of
        None \<Rightarrow> Free | Some v \<Rightarrow> if prefix PENDING_MARKER v then Pending v else Done v)"

definition slot_of :: "('r, 'x) services \<Rightarrow> string \<Rightarrow> ('r, 'x) world \<Rightarrow> slot" where
  "slot_of S key w = slot_at (sv_redis S) (w_now w) key (w_redis w)"

fun spec_get :: "(string \<Rightarrow> json) \<Rightarrow> slot \<Rightarrow> exn + json" where
  "spec_get fl Free = Inr JNull"
| "spec_get fl (Pending v) =
     Inl (broker_error IdempotencyConflictError ''a concurrent call with the same idempotency key is in flight'')"
| "spec_get fl (Done v) = (case loads fl v of None \<Rightarrow> Inl JSONDecodeError | Some j \<Rightarrow> Inr j)"

fun spec_reserve :: "string \<Rightarrow> slot \<Rightarrow> string option \<times> slot" where
  "spec_reserve owner Free = (Some owner, Pending (pending_value owner))"
| "spec_reserve owner s = (None, s)"

fun spec_complete :: "string option \<Rightarrow> json \<Rightarrow> slot \<Rightarrow> slot" where
  "spec_complete None v s = Done (dumps default_opts v)"
| "spec_complete (Some owner) v s = (if s = Pending (pending_value owner) then Done (dumps default_opts v) else s)"

fun spec_release :: "string option \<Rightarrow> slot \<Rightarrow> slot" where
  "spec_release owner (Pending v) = (if owner = None \<or> v = pending_value (the owner) then Free else Pending v)"
| "spec_release owner s = s"

section \<open>The operations refine the slot\<close>

lemma RESERVATION_TTL_pos [simp]: "0 < RESERVATION_TTL_SECONDS"
  by (simp add: RESERVATION_TTL_SECONDS_def)

lemma slot_Free: "slot_at R t key r = Free \<longleftrightarrow> rd_get R t (name key) r = None"
  by (simp add: slot_at_def split: option.split)

lemma slot_Pending:
  "slot_at R t key r = Pending v \<longleftrightarrow> rd_get R t (name key) r = Some v \<and> prefix PENDING_MARKER v"
  by (auto simp: slot_at_def split: option.split)

lemma slot_Done:
  "slot_at R t key r = Done v \<longleftrightarrow> rd_get R t (name key) r = Some v \<and> \<not> prefix PENDING_MARKER v"
  by (auto simp: slot_at_def split: option.split)

lemmas slot_simps = slot_Free slot_Pending slot_Done

lemma redis_set_run:
  assumes "redis_server (sv_redis S)" and "quiet S" and "0 < ex"
  shows "redis_set S k v nx ex w =
    (Inr (\<not> (nx \<and> rd_get (sv_redis S) (w_now w) k (w_redis w) \<noteq> None)),
     w\<lparr>w_redis := snd (rd_set (sv_redis S) (w_now w) k v nx ex (w_redis w))\<rparr>)"
  using redis_server.set_result [OF assms(1,3), of "w_now w" k v nx "w_redis w"]
  by (auto simp: redis_set_def awaiting_quiet [OF assms(2)] split: prod.split)

lemma redis_get_run: "quiet S \<Longrightarrow> redis_get S k w = (Inr (rd_get (sv_redis S) (w_now w) k (w_redis w)), w)"
  by (simp add: redis_get_def awaiting_quiet)

lemma redis_delete_run:
  "quiet S \<Longrightarrow> redis_delete S k w = (Inr (), w\<lparr>w_redis := rd_delete (sv_redis S) (w_now w) k (w_redis w)\<rparr>)"
  by (simp add: redis_delete_def awaiting_quiet)

lemma idem_get_run:
  assumes "quiet S"
  shows "idem_get S key w =
    (case slot_of S key w of
       Free \<Rightarrow> Inr JNull
     | Pending v \<Rightarrow> Inl (broker_error IdempotencyConflictError ''a concurrent call with the same idempotency key is in flight'')
     | Done v \<Rightarrow> (case loads (sv_float S) v of None \<Rightarrow> Inl JSONDecodeError | Some j \<Rightarrow> Inr j), w)"
  by (simp add: idem_get_def bindM_def redis_get_run [OF assms] slot_of_def slot_at_def split: option.split)

lemma reserve_run:
  assumes "redis_server (sv_redis S)" and "quiet S"
    and "sv_token_hex S 16 (w_ext w) = (owner, x)"
  shows "reserve S key w = (Inr (fst (spec_reserve owner (slot_of S key w))),
    w\<lparr>w_ext := x, w_redis := snd (rd_set (sv_redis S) (w_now w) (name key) (pending_value owner) True
        RESERVATION_TTL_SECONDS (w_redis w))\<rparr>)"
  using assms(3) slot_Free [of "sv_redis S" "w_now w" key "w_redis w"]
  by (cases "slot_of S key w")
    (auto simp: reserve_def bindM_def token_hex_def draw_def slot_of_def redis_set_run [OF assms(1,2)])

lemma complete_run:
  assumes "redis_server (sv_redis S)" and "quiet S" and "0 < win"
  shows "complete S win key v owner w = (Inr (),
    if owner = None \<or> slot_of S key w = Pending (pending_value (the owner))
    then w\<lparr>w_redis := snd (rd_set (sv_redis S) (w_now w) (name key) (dumps default_opts v) False win (w_redis w))\<rparr>
    else w)"
  by (cases owner)
    (auto simp: complete_def bindM_def Let_def redis_set_run [OF assms] redis_get_run [OF assms(2)] slot_of_def slot_simps)

lemma release_run:
  assumes "quiet S"
  shows "release S key owner w = (Inr (),
    (case slot_of S key w of
       Pending v \<Rightarrow>
         if owner = None \<or> v = pending_value (the owner)
         then w\<lparr>w_redis := rd_delete (sv_redis S) (w_now w) (name key) (w_redis w)\<rparr> else w
     | _ \<Rightarrow> w))"
  by (auto simp: release_def bindM_def redis_get_run [OF assms] redis_delete_run [OF assms] slot_of_def slot_at_def
      split: option.split)

lemmas idem_run = idem_get_run reserve_run complete_run release_run

lemma reserve_slot:
  assumes "redis_server (sv_redis S)" and "quiet S" and "sv_token_hex S 16 (w_ext w) = (owner, x)"
  shows "slot_of S key (snd (reserve S key w)) = snd (spec_reserve owner (slot_of S key w))"
  using redis_server.set_written [OF assms(1) RESERVATION_TTL_pos, of True "w_now w" "name key" "w_redis w" "w_now w"]
    redis_server.set_kept [OF assms(1) RESERVATION_TTL_pos, of True "w_now w" "name key" "w_redis w" "w_now w"]
  by (cases "rd_get (sv_redis S) (w_now w) (name key) (w_redis w)")
    (auto simp: reserve_run [OF assms] slot_of_def slot_at_def expiry_at_def RESERVATION_TTL_SECONDS_def)

lemma complete_slot:
  assumes "redis_server (sv_redis S)" and "quiet S" and "0 < win" and "wf_json fl v"
  shows "slot_of S key (snd (complete S win key v owner w)) = spec_complete owner v (slot_of S key w)"
  using redis_server.set_fresh_get [OF assms(1,3), of "w_now w" "w_now w" "name key" "dumps default_opts v" "w_redis w"]
    dumps_not_pending [OF assms(4)] assms(3)
  by (cases owner) (auto simp: complete_run [OF assms(1-3)] slot_of_def slot_simps expiry_at_def)

lemma release_slot:
  assumes "redis_server (sv_redis S)" and "quiet S"
  shows "slot_of S key (snd (release S key owner w)) = spec_release owner (slot_of S key w)"
  using redis_server.delete_same [OF assms(1), of "w_now w" "w_now w" "name key" "w_redis w"]
  by (cases "rd_get (sv_redis S) (w_now w) (name key) (w_redis w)")
    (auto simp: release_run [OF assms(2)] slot_of_def slot_at_def)

lemma idem_get_spec: "quiet S \<Longrightarrow> idem_get S key w = (spec_get (sv_float S) (slot_of S key w), w)"
  by (simp add: idem_get_run split: slot.split)

text \<open>What an operation on one key leaves alone: the other keys and everything outside the store.\<close>

definition only_key :: "('r, 'x) services \<Rightarrow> string \<Rightarrow> ('r, 'x) world \<Rightarrow> ('r, 'x) world \<Rightarrow> bool" where
  "only_key S key w w' \<longleftrightarrow>
     w'\<lparr>w_redis := w_redis w, w_ext := w_ext w\<rparr> = w \<and> (\<forall>k. k \<noteq> key \<longrightarrow> slot_of S k w' = slot_of S k w)"

lemma only_key_written:
  assumes "redis_server (sv_redis S)"
  shows "only_key S key w (w\<lparr>w_ext := x, w_redis := snd (rd_set (sv_redis S) (w_now w) (name key) v nx ex (w_redis w))\<rparr>)"
    and "only_key S key w (w\<lparr>w_redis := snd (rd_set (sv_redis S) (w_now w) (name key) v nx ex (w_redis w))\<rparr>)"
    and "only_key S key w (w\<lparr>w_redis := rd_delete (sv_redis S) (w_now w) (name key) (w_redis w)\<rparr>)"
    and "only_key S key w w"
  using redis_server.set_other [OF assms, of _ "name key" "w_now w" "w_now w" v nx ex "w_redis w"]
    redis_server.delete_other [OF assms, of _ "name key" "w_now w" "w_now w" "w_redis w"]
  by (auto simp: only_key_def slot_of_def slot_at_def)

lemma store_frame:
  assumes "redis_server (sv_redis S)" and "quiet S" and "0 < win"
  shows "only_key S key w (snd (reserve S key w))" and "only_key S key w (snd (complete S win key v own w))"
    and "only_key S key w (snd (release S key own w))"
proof -
  obtain owner x where d: "sv_token_hex S 16 (w_ext w) = (owner, x)" by force
  show "only_key S key w (snd (reserve S key w))" by (simp add: reserve_run [OF assms(1,2) d] only_key_written [OF assms(1)])
  show "only_key S key w (snd (complete S win key v own w))" by (simp add: complete_run [OF assms] only_key_written [OF assms(1)])
  show "only_key S key w (snd (release S key own w))"
    by (simp add: release_run [OF assms(2)] only_key_written [OF assms(1)] split: slot.split)
qed

section \<open>A holder keeps its key\<close>

text \<open>One operation of some caller at an instant, and the exception or value it ends with.\<close>

datatype idem_op =
    OpGet
  | OpReserve
  | OpComplete "string option" json
  | OpRelease "string option"

fun run_op :: "('r, 'x) services \<Rightarrow> int \<Rightarrow> string \<Rightarrow> idem_op \<Rightarrow> ('r, 'x, string option) io" where
  "run_op S win key OpGet = bindM (idem_get S key) (\<lambda>_. ret None)"
| "run_op S win key OpReserve = reserve S key"
| "run_op S win key (OpComplete owner v) = bindM (complete S win key v owner) (\<lambda>_. ret None)"
| "run_op S win key (OpRelease owner) = bindM (release S key owner) (\<lambda>_. ret None)"

fun run_ops :: "('r, 'x) services \<Rightarrow> int \<Rightarrow> string \<Rightarrow> (int \<times> idem_op) list \<Rightarrow> ('r, 'x) world
    \<Rightarrow> (exn + string option) list \<times> ('r, 'x) world" where
  "run_ops S win key [] w = ([], w)"
| "run_ops S win key ((t, op) # ops) w =
     (case run_op S win key op (w\<lparr>w_now := t\<rparr>) of (b, w1) \<Rightarrow>
      case run_ops S win key ops w1 of (bs, w2) \<Rightarrow> (b # bs, w2))"

text \<open>An operation of a caller that is not \<open>owner\<close> and does present an owner token.\<close>

fun foreign :: "string \<Rightarrow> idem_op \<Rightarrow> bool" where
  "foreign owner (OpComplete o' v) \<longleftrightarrow> o' \<noteq> None \<and> o' \<noteq> Some owner"
| "foreign owner (OpRelease o') \<longleftrightarrow> o' \<noteq> None \<and> o' \<noteq> Some owner"
| "foreign owner _ \<longleftrightarrow> True"

definition held :: "('r, 'x) services \<Rightarrow> string \<Rightarrow> string \<Rightarrow> int \<Rightarrow> int \<Rightarrow> 'r \<Rightarrow> bool" where
  "held S key owner t t1 r \<longleftrightarrow>
     (\<forall>t'. t \<le> t' \<longrightarrow> t' < t1 \<longrightarrow> rd_get (sv_redis S) t' (name key) r = Some (pending_value owner))"

lemma held_slot: "held S key owner t t1 (w_redis w) \<Longrightarrow> t \<le> w_now w \<Longrightarrow> w_now w < t1 \<Longrightarrow>
   slot_of S key w = Pending (pending_value owner)"
  by (simp add: held_def slot_of_def slot_simps)

lemma reserve_held:
  assumes "redis_server (sv_redis S)" and "quiet S" and "reserve S key w = (Inr (Some owner), w')"
  shows "held S key owner (w_now w) (w_now w + 60 * 1000000) (w_redis w') \<and> w_now w' = w_now w"
proof -
  obtain o1 x where d: "sv_token_hex S 16 (w_ext w) = (o1, x)" by force
  note run = reserve_run [OF assms(1,2) d]
  have free: "slot_of S key w = Free" and o1: "o1 = owner"
    using assms(3) run [of key] by (cases "slot_of S key w"; auto)+
  have none: "\<not> (True \<and> rd_get (sv_redis S) (w_now w) (name key) (w_redis w) \<noteq> None)"
    using free by (simp add: slot_of_def slot_simps)
  show ?thesis
    using assms(3) run [of key] o1
      redis_server.set_written [OF assms(1) RESERVATION_TTL_pos none, of _ "pending_value owner"]
    by (auto simp: held_def expiry_at_def RESERVATION_TTL_SECONDS_def)
qed

lemma foreign_step:
  assumes "redis_server (sv_redis S)" and "quiet S" and "0 < win"
    and "held S key owner t t1 (w_redis w)" and "t \<le> w_now w" and "w_now w < t1" and "foreign owner op"
  shows "held S key owner (w_now w) t1 (w_redis (snd (run_op S win key op w)))
    \<and> w_now (snd (run_op S win key op w)) = w_now w \<and> fst (run_op S win key op w) \<noteq> Inr (Some owner')"
proof -
  have p: "slot_of S key w = Pending (pending_value owner)" by (rule held_slot [OF assms(4-6)])
  have h: "held S key owner (w_now w) t1 (w_redis w)" using assms(4,5) by (auto simp: held_def)
  show ?thesis
  proof (cases op)
    case OpGet
    then show ?thesis using h p by (simp add: bindM_def idem_get_run [OF assms(2)])
  next
    case OpReserve
    obtain o1 x where d: "sv_token_hex S 16 (w_ext w) = (o1, x)" by force
    have "rd_get (sv_redis S) (w_now w) (name key) (w_redis w) \<noteq> None"
      using p by (simp add: slot_of_def slot_simps)
    then show ?thesis
      using h p OpReserve redis_server.set_kept [OF assms(1) RESERVATION_TTL_pos, of True "w_now w" "name key" "w_redis w"]
      by (simp add: reserve_run [OF assms(1,2) d] held_def)
  next
    case (OpComplete o1 v)
    then show ?thesis using h p assms(7) by (auto simp: bindM_def complete_run [OF assms(1-3)])
  next
    case (OpRelease o1)
    then show ?thesis using h p assms(7) by (auto simp: bindM_def release_run [OF assms(2)])
  qed
qed

lemma foreign_run:
  assumes "redis_server (sv_redis S)" and "quiet S" and "0 < win"
  shows "held S key owner t t1 (w_redis w) \<Longrightarrow> sorted (t # map fst ops) \<Longrightarrow> \<forall>(t', op) \<in> set ops. t' < t1 \<and> foreign owner op \<Longrightarrow>
    t < t1 \<Longrightarrow>
    held S key owner (last (t # map fst ops)) t1 (w_redis (snd (run_ops S win key ops w)))
    \<and> (\<forall>b \<in> set (fst (run_ops S win key ops w)). \<forall>owner'. b \<noteq> Inr (Some owner'))"
proof (induction ops arbitrary: t w)
  case (Cons a ops)
  obtain t' op where a: "a = (t', op)" by force
  obtain b w1 where r: "run_op S win key op (w\<lparr>w_now := t'\<rparr>) = (b, w1)" by force
  have step: "held S key owner t' t1 (w_redis w1) \<and> b \<noteq> Inr (Some owner')" for owner'
    using foreign_step [OF assms, of key owner t t1 "w\<lparr>w_now := t'\<rparr>" op] Cons.prems a r by auto
  have "held S key owner (last (t' # map fst ops)) t1 (w_redis (snd (run_ops S win key ops w1)))
    \<and> (\<forall>b \<in> set (fst (run_ops S win key ops w1)). \<forall>owner'. b \<noteq> Inr (Some owner'))"
    by (rule Cons.IH) (use step Cons.prems a in auto)
  then show ?case using a r step by (auto split: prod.splits)
qed simp

section \<open>Properties\<close>

text \<open>
  C12: the store implements the abstract slot.  Run without interference, each
  operation answers and leaves the key exactly as the specification of a slot
  does: reading a free key gives nothing, a reserved one is a conflict and a completed
  one gives back the result it was completed with; a reservation succeeds only on a free
  key; completing and releasing with an owner token act only on that owner's
  reservation, and a completed result is never released.  No operation touches another key
  or anything outside the store, and reading changes nothing at all.
\<close>

theorem store_refines_slot:
  assumes "redis_server (sv_redis S)" and "quiet S" and "0 < win" and "wf_json (sv_float S) v"
    and "sv_token_hex S 16 (w_ext w) = (owner, x)"
  shows "idem_get S key w = (spec_get (sv_float S) (slot_of S key w), w) \<and>
    fst (reserve S key w) = Inr (fst (spec_reserve owner (slot_of S key w))) \<and>
    slot_of S key (snd (reserve S key w)) = snd (spec_reserve owner (slot_of S key w)) \<and>
    fst (complete S win key v own w) = Inr () \<and>
    slot_of S key (snd (complete S win key v own w)) = spec_complete own v (slot_of S key w) \<and>
    spec_get (sv_float S) (Done (dumps default_opts v)) = Inr v \<and>
    fst (release S key own w) = Inr () \<and>
    slot_of S key (snd (release S key own w)) = spec_release own (slot_of S key w) \<and>
    only_key S key w (snd (reserve S key w)) \<and> only_key S key w (snd (complete S win key v own w)) \<and>
    only_key S key w (snd (release S key own w))"
proof -
  have answers: "fst (reserve S key w) = Inr (fst (spec_reserve owner (slot_of S key w)))"
    "fst (complete S win key v own w) = Inr ()" "fst (release S key own w) = Inr ()"
    by (simp_all add: reserve_run [OF assms(1,2,5)] complete_run [OF assms(1-3)] release_run [OF assms(2)])
  show ?thesis
    by (intro conjI answers store_frame [OF assms(1-3)] idem_get_spec [OF assms(2)] reserve_slot [OF assms(1,2,5)]
        complete_slot [OF assms(1-4)] release_slot [OF assms(1,2)]) (simp add: loads_dumps [OF assms(4)])
qed

lemma sample_free [simp]: "slot_of sample_services key (sample_world\<lparr>w_now := t\<rparr>) = Free"
  "slot_of sample_services key sample_world = Free"
  using sample_redis_empty by (simp_all add: slot_of_def slot_at_def)

theorem store_refines_slot_witness:
  "slot_of sample_services ''k'' (snd (reserve sample_services ''k'' sample_world)) = Pending (pending_value (hex_fixed 32 1)) \<and>
   idem_get sample_services ''k'' (snd (complete sample_services 3600 ''k'' JNull None sample_world)) =
     (Inr JNull, snd (complete sample_services 3600 ''k'' JNull None sample_world))"
  using store_refines_slot [of sample_services 3600 JNull sample_world "hex_fixed 32 1" 2 "''k''" None]
    idem_get_spec [OF sample_quiet, of "''k''" "snd (complete sample_services 3600 ''k'' JNull None sample_world)"]
  by (simp add: sample_free)

text \<open>
  Callers one after the other: a reservation is exclusive for its sixty seconds and the holder's result is
  what later calls read.  Whatever other callers do with the key in the meantime
  (read it, try to reserve it, complete or release it with their own owner tokens),
  none of them obtains the reservation; when the holder then completes within the
  sixty seconds, every read within the idempotency window returns its result.
\<close>

theorem reservation_exclusive_atomic:
  assumes "redis_server (sv_redis S)" and "quiet S" and "0 < win" and "wf_json (sv_float S) v"
    and "reserve S key w = (Inr (Some owner), w')"
    and "sorted (w_now w # map fst ops @ [t])" and "t < w_now w + 60 * 1000000"
    and "\<forall>(t', op) \<in> set ops. foreign owner op"
    and "run_ops S win key ops w' = (bs, w1)"
    and "complete S win key v (Some owner) (w1\<lparr>w_now := t\<rparr>) = (b, w2)"
    and "t \<le> t2" and "t2 < t + win * 1000000"
  shows "(\<forall>b \<in> set bs. \<forall>owner'. b \<noteq> Inr (Some owner')) \<and>
    idem_get S key (w2\<lparr>w_now := t2\<rparr>) = (Inr v, w2\<lparr>w_now := t2\<rparr>)"
proof -
  let ?t1 = "w_now w + 60 * 1000000"
  have h: "held S key owner (w_now w) ?t1 (w_redis w')" using reserve_held [OF assms(1,2,5)] by simp
  have bound: "\<forall>(t', op) \<in> set ops. t' < ?t1 \<and> foreign owner op"
    using assms(6-8) by (fastforce simp: sorted_append)
  have r: "held S key owner (last (w_now w # map fst ops)) ?t1 (w_redis w1)"
    and bs: "\<forall>b \<in> set bs. \<forall>owner'. b \<noteq> Inr (Some owner')"
    using foreign_run [OF assms(1-3) h _ bound] assms(6,9) by (auto simp: sorted_append)
  have "last (w_now w # map fst ops) \<le> t"
    using assms(6) by (cases ops rule: rev_cases) (auto simp: sorted_append)
  then have p: "slot_of S key (w1\<lparr>w_now := t\<rparr>) = Pending (pending_value owner)"
    using held_slot [of S key owner _ ?t1 "w1\<lparr>w_now := t\<rparr>"] r assms(7) by simp
  have w2: "w2 = w1\<lparr>w_now := t, w_redis := snd (rd_set (sv_redis S) t (name key) (dumps default_opts v) False win (w_redis w1))\<rparr>"
    using assms(10) p by (auto simp: complete_run [OF assms(1-3)])
  have "rd_get (sv_redis S) t2 (name key) (w_redis w2) = Some (dumps default_opts v)"
    using redis_server.set_fresh_get [OF assms(1,3,11)] assms(12) w2 by (simp add: expiry_at_def)
  then have "slot_of S key (w2\<lparr>w_now := t2\<rparr>) = Done (dumps default_opts v)"
    using dumps_not_pending [OF assms(4)] by (simp add: slot_of_def slot_simps)
  then show ?thesis using bs loads_dumps [OF assms(4)] by (simp add: idem_get_run [OF assms(2)])
qed

theorem reservation_exclusive_atomic_witness:
  "\<exists>w'. reserve sample_services ''k'' sample_world = (Inr (Some (hex_fixed 32 1)), w') \<and>
    (case run_ops sample_services 3600 ''k'' [(1700000010000000, OpReserve), (1700000011000000, OpRelease (Some ''x''))] w' of
      (bs, w1) \<Rightarrow>
        list_all (\<lambda>b. \<forall>owner'. b \<noteq> Inr (Some owner')) bs \<and>
        (case complete sample_services 3600 ''k'' (JObj [(''ok'', JBool True)]) (Some (hex_fixed 32 1))
            (w1\<lparr>w_now := 1700000020000000\<rparr>) of
          (b, w2) \<Rightarrow> fst (idem_get sample_services ''k'' (w2\<lparr>w_now := 1700000500000000\<rparr>)) = Inr (JObj [(''ok'', JBool True)])))"
proof -
  obtain w' where r: "reserve sample_services ''k'' sample_world = (Inr (Some (hex_fixed 32 1)), w')"
    using reserve_run [of sample_services sample_world "hex_fixed 32 1" 2 "''k''"] by simp
  let ?ops = "[(1700000010000000, OpReserve), (1700000011000000, OpRelease (Some ''x''))]"
  obtain bs w1 where o1: "run_ops sample_services 3600 ''k'' ?ops w' = (bs, w1)" by force
  obtain b w2 where c: "complete sample_services 3600 ''k'' (JObj [(''ok'', JBool True)]) (Some (hex_fixed 32 1))
            (w1\<lparr>w_now := 1700000020000000\<rparr>) = (b, w2)" by force
  have "length (hex_fixed 32 1) \<noteq> length ''x''" by simp
  then have ne: "hex_fixed 32 1 \<noteq> ''x''" by metis
  have "utf8_ok (map code ''ok'')" by code_simp
  then show ?thesis
    using reservation_exclusive_atomic [OF _ _ _ _ r _ _ _ o1 c, of 1700000500000000] r o1 c ne by (simp add: list_all_iff del: hex_fixed.simps)
qed

end
