(* ===== verification/Cb_Grants_Service.thy ===== *)
theory Cb_Grants_Service
  imports Cb_Tokens Cb_Tools Cb_Kms Cb_Grants_Cache Cb_Ratelimit Cb_Idempotency
begin

text \<open>
  Issuing and revoking grants (\<open>credbroker/grants/service.py\<close>).  The collaborators
  that callers may leave out are part of the configuration of a broker process.
\<close>

record config =
  cf_settings :: settings
  cf_cipher :: key_manager
  cf_tools :: registry
  cf_grant_cache :: bool
  cf_rate_limiter :: bool
  cf_idempotency :: "int option"

section \<open>request_grant\<close>

definition grant_rate_limit :: "('r, 'x) services \<Rightarrow> config \<Rightarrow> uuid \<Rightarrow> ('r, 'x, unit) io" where
  "grant_rate_limit S cf agent_id =
     (if cf_rate_limiter cf then
        bindM (check S (''grants:'' @ uuid_str agent_id) (grants_per_minute_per_agent (cf_settings cf)) 60) (\<lambda>allowed.
        if \<not> allowed then
          bindM (inc (RATE_LIMITED ''request_grant'')) (\<lambda>_.
          raise (broker_error RateLimitedError ''grant request rate limit exceeded''))
        else ret ())
      else ret ())"

definition new_grant :: "uuid \<Rightarrow> uuid \<Rightarrow> uuid \<Rightarrow> string \<Rightarrow> string \<Rightarrow> string \<Rightarrow> datetime \<Rightarrow> datetime \<Rightarrow> grant" where
  "new_grant grant_id agent_id account_id tool_name scope token_hash now expires_at =
     \<lparr>gr_id = grant_id, gr_agent_id = agent_id, gr_connected_account_id = account_id, gr_tool_name = tool_name,
      gr_scope = scope, gr_token_hash = token_hash, gr_issued_at = now, gr_expires_at = expires_at, gr_revoked_at = None\<rparr>"

definition issue_grant :: "('r, 'x) services \<Rightarrow> config \<Rightarrow> uuid \<Rightarrow> string \<Rightarrow> string \<Rightarrow> uuid \<Rightarrow> datetime
    \<Rightarrow> ('r, 'x, string \<times> grant) io" where
  "issue_grant S cf agent_id tool_name requested_scope account_id now =
     bindM (uuid4 S) (\<lambda>grant_id.
     bindM (liftE (datetime_add now (grant_token_ttl_seconds (cf_settings cf)))) (\<lambda>expires_at.
     bindM (liftE (sign_grant_token S (cf_settings cf) grant_id agent_id tool_name requested_scope now expires_at)) (\<lambda>token.
     let token_hash = hash_token S token;
         g = new_grant grant_id agent_id account_id tool_name requested_scope token_hash now expires_at
     in
     bindM (commit S (insert_grant g) [EvGrant g]) (\<lambda>_.
     bindM (if cf_grant_cache cf then record_issued S token_hash (grant_token_ttl_seconds (cf_settings cf)) else ret ()) (\<lambda>_.
     ret (token, g))))))"

definition request_grant :: "('r, 'x) services \<Rightarrow> config \<Rightarrow> uuid \<Rightarrow> string \<Rightarrow> string \<Rightarrow> ('r, 'x, string \<times> grant) io" where
  "request_grant S cf agent_id tool_name requested_scope =
     bindM (grant_rate_limit S cf agent_id) (\<lambda>_.
     bindM (get_for_update S agent_id) (\<lambda>agent.
     case agent of
       None \<Rightarrow> raise (broker_error UnknownAgentError (''unknown agent: '' @ uuid_str agent_id))
     | Some agent \<Rightarrow>
     bindM (liftE (get_tool (cf_tools cf) tool_name)) (\<lambda>tool.
     if tool_name \<notin> set (ag_allowed_scopes agent) then
       raise (broker_error PolicyDeniedError (''agent is not permitted to request tool '' @ py_repr tool_name))
     else if requested_scope \<noteq> tl_scope tool then
       raise (broker_error GrantScopeMismatchError
         (''tool '' @ py_repr tool_name @ '' has scope '' @ py_repr (tl_scope tool) @ '', not '' @ py_repr requested_scope))
     else
     bindM (select S (\<lambda>db. newest_account db (ag_user_id agent) (tl_provider tool))) (\<lambda>rows.
     bindM (liftE (scalar_one_or_none rows)) (\<lambda>account.
     case account of
       None \<Rightarrow> raise (broker_error NoConnectedAccountError
                 (''user has no connected account for provider '' @ py_repr (tl_provider tool)))
     | Some account \<Rightarrow>
     bindM utcnow (\<lambda>now.
     bindM (select S (\<lambda>db. int (active_count db (instant now) agent_id tool_name requested_scope))) (\<lambda>active_count.
     if active_count \<ge> max_active_grants_per_agent_scope (cf_settings cf) then
       raise (broker_error ConcurrencyLimitError
         (''agent already holds '' @ py_str_int active_count @ '' active grant(s) for '' @ py_repr tool_name))
     else issue_grant S cf agent_id tool_name requested_scope (ca_id account) now)))))))"

section \<open>revoke_grant\<close>

definition revoke_grant :: "('r, 'x) services \<Rightarrow> config \<Rightarrow> uuid \<Rightarrow> ('r, 'x, grant) io" where
  "revoke_grant S cf grant_id =
     bindM (select S (\<lambda>db. get_grant db grant_id)) (\<lambda>row.
     case row of
       None \<Rightarrow> raise (broker_error GrantNotFoundError (''grant not found: '' @ uuid_str grant_id))
     | Some g \<Rightarrow>
     bindM (if gr_revoked_at g = None
            then bindM utcnow (\<lambda>now.
                 bindM (commit S (update_grant grant_id (\<lambda>g. g\<lparr>gr_revoked_at := Some now\<rparr>)) []) (\<lambda>_.
                 ret (g\<lparr>gr_revoked_at := Some now\<rparr>)))
            else ret g) (\<lambda>g.
     bindM (if cf_grant_cache cf then record_revoked S (gr_token_hash g) DEFAULT_REVOKED_TTL_SECONDS else ret ()) (\<lambda>_.
     ret g)))"

section \<open>Running without interference\<close>

lemma quiet_env [simp]: "quiet S \<Longrightarrow> env S w = w"
  by (simp add: env_def quiet_def)

lemma quiet_stable [simp]: "quiet S \<Longrightarrow> env_stable S I"
  by (simp add: env_stable_def env_def quiet_def)

lemma select_quiet: "quiet S \<Longrightarrow> select S f w = (Inr (f (w_db w)), w)"
  by (simp add: select_def awaiting_quiet)

lemma get_for_update_quiet:
  "quiet S \<Longrightarrow> get_for_update S i w = (Inr (get_agent (w_db w) i), w\<lparr>w_locked := Some i\<rparr>)"
  by (simp add: get_for_update_def awaiting_quiet bindM_def)

lemma commit_quiet:
  "quiet S \<Longrightarrow> w_dirty w = [] \<Longrightarrow> commit S ins evs w =
     (case ins (w_db w) of
        Inl e \<Rightarrow> (Inl e, w\<lparr>w_dirty := [], w_locked := None\<rparr>)
      | Inr db \<Rightarrow> (Inr (), w\<lparr>w_db := db, w_trace := w_trace w @ evs, w_dirty := [], w_locked := None\<rparr>))"
  by (simp add: commit_def awaiting_quiet flush_and_commit_def catchM_def end_transaction_def bindM_def split: sum.split)

lemma uuid4_run: "uuid4 S w = (case sv_uuid4 S (w_ext w) of (u, x) \<Rightarrow> (Inr u, w\<lparr>w_ext := x\<rparr>))"
  by (simp add: uuid4_def draw_def)

lemma utcnow_run: "utcnow w = (Inr (Aware (w_now w)), w)"
  by (simp add: utcnow_def)

lemmas quiet_runs = select_quiet get_for_update_quiet commit_quiet uuid4_run utcnow_run

text \<open>What an operation in a fresh session starts from: nothing pending.\<close>

definition at_db :: "database \<Rightarrow> int \<Rightarrow> event list \<Rightarrow> ('r, 'x) world \<Rightarrow> bool" where
  "at_db db t evs w \<longleftrightarrow> w_db w = db \<and> w_now w = t \<and> w_dirty w = [] \<and> w_trace w = evs"

lemma at_db_score [simp]: "score (at_db db t evs)"
  by (simp add: score_def at_db_def)

lemma keeps_rate_limit:
  "score I \<Longrightarrow> env_stable S I \<Longrightarrow> keeps I (grant_rate_limit S cf a)"
  unfolding grant_rate_limit_def by (intro wp; simp)

lemma rate_limit_at:
  assumes "quiet S" and "w_dirty w = []" and "grant_rate_limit S cf a w = (r, w1)"
  shows "at_db (w_db w) (w_now w) (w_trace w) w1"
  using keepsD [OF keeps_rate_limit [OF at_db_score quiet_stable [OF assms(1)]], of "w_db w" "w_now w" "w_trace w" w cf a] assms(2,3)
  by (simp add: at_db_def)

lemma cache_at:
  assumes "quiet S" and "at_db db t evs w" and "(if b then record_issued S h n else ret ()) w = (r, w1)"
  shows "at_db db t evs w1"
proof -
  have "keeps (at_db db t evs) (if b then record_issued S h n else ret ())"
    using assms(1) by (intro wp; simp)
  then show ?thesis using assms(2,3) keepsD by fastforce
qed

lemma issue_grant_success:
  assumes "quiet S" and "w_dirty w = []"
    and "issue_grant S cf agent_id tool_name scope account_id now w = (Inr (token, g), w')"
  shows "\<exists>gid.
    sign_grant_token S (cf_settings cf) gid agent_id tool_name scope now
      (add_seconds now (grant_token_ttl_seconds (cf_settings cf))) = Inr token \<and>
    g = new_grant gid agent_id account_id tool_name scope (hash_token S token) now
          (add_seconds now (grant_token_ttl_seconds (cf_settings cf))) \<and>
    insert_grant g (w_db w) = Inr (w_db w') \<and> w_trace w' = w_trace w @ [EvGrant g] \<and> w_now w' = w_now w"
proof -
  obtain gid x where u: "sv_uuid4 S (w_ext w) = (gid, x)" by force
  let ?e = "add_seconds now (grant_token_ttl_seconds (cf_settings cf))"
  have e: "datetime_add now (grant_token_ttl_seconds (cf_settings cf)) = Inr ?e"
    using assms(3) u by (auto simp: issue_grant_def bindM_def uuid4_run split: sum.splits dest: datetime_add_Inr)
  obtain t where t: "sign_grant_token S (cf_settings cf) gid agent_id tool_name scope now ?e = Inr t"
    using assms(3) u e by (auto simp: issue_grant_def bindM_def uuid4_run Let_def split: sum.splits)
  let ?g = "new_grant gid agent_id account_id tool_name scope (hash_token S t) now ?e"
  obtain db where db: "insert_grant ?g (w_db w) = Inr db"
    using assms u e t by (auto simp: issue_grant_def bindM_def uuid4_run Let_def commit_quiet split: sum.splits)
  let ?w1 = "w\<lparr>w_ext := x, w_db := db, w_trace := w_trace w @ [EvGrant ?g], w_dirty := [], w_locked := None\<rparr>"
  obtain r w2 where c: "(if cf_grant_cache cf then record_issued S (hash_token S t) (grant_token_ttl_seconds (cf_settings cf)) else ret ()) ?w1 = (r, w2)"
    by force
  have "at_db db (w_now w) (w_trace w @ [EvGrant ?g]) w2"
    by (rule cache_at [OF assms(1) _ c]) (simp add: at_db_def)
  moreover have "token = t \<and> g = ?g \<and> w' = w2"
    using assms u e t db c
    by (auto simp: issue_grant_def bindM_def uuid4_run Let_def commit_quiet simp del: if_split split: sum.splits)
  ultimately show ?thesis using t db by (auto simp: at_db_def)
qed

section \<open>Properties of request_grant\<close>

text \<open>The conditions under which an agent may be given a grant, on the committed rows.\<close>

definition may_issue :: "config \<Rightarrow> database \<Rightarrow> int \<Rightarrow> uuid \<Rightarrow> string \<Rightarrow> string \<Rightarrow> connected_account \<Rightarrow> bool" where
  "may_issue cf db now agent_id tool_name scope account \<longleftrightarrow>
     (\<exists>agent tool.
        get_agent db agent_id = Some agent \<and> tool_name \<in> set (ag_allowed_scopes agent) \<and>
        dict_get (cf_tools cf) tool_name = Some tool \<and> tl_scope tool = scope \<and>
        account \<in> set (db_accounts db) \<and> ca_user_id account = ag_user_id agent \<and> ca_provider account = tl_provider tool \<and>
        (\<forall>b \<in> set (db_accounts db). ca_user_id b = ag_user_id agent \<and> ca_provider b = tl_provider tool \<longrightarrow>
           instant (ca_created_at b) \<le> instant (ca_created_at account)) \<and>
        int (active_count db now agent_id tool_name scope) < max_active_grants_per_agent_scope (cf_settings cf))"

lemma newest_mem:
  assumes "newest_account db u p = [a]"
  shows "a \<in> set (db_accounts db) \<and> ca_user_id a = u \<and> ca_provider a = p \<and>
    (\<forall>b \<in> set (db_accounts db). ca_user_id b = u \<and> ca_provider b = p \<longrightarrow> instant (ca_created_at b) \<le> instant (ca_created_at a))"
  using newest_account_spec [OF assms] by blast

lemma request_grant_reaches:
  assumes "quiet S" and "w_dirty w = []"
    and "request_grant S cf agent_id tool_name scope w = (Inr r, w')"
  shows "\<exists>account w1. at_db (w_db w) (w_now w) (w_trace w) w1 \<and>
    may_issue cf (w_db w) (w_now w) agent_id tool_name scope account \<and>
    issue_grant S cf agent_id tool_name scope (ca_id account) (Aware (w_now w)) w1 = (Inr r, w')"
proof -
  obtain x w1 where l: "grant_rate_limit S cf agent_id w = (x, w1)" by force
  have a: "at_db (w_db w) (w_now w) (w_trace w) w1" by (rule rate_limit_at [OF assms(1,2) l])
  then have db: "w_db w1 = w_db w" "w_now w1 = w_now w" by (simp_all add: at_db_def)
  let ?w2 = "w1\<lparr>w_locked := Some agent_id\<rparr>"
  obtain agent tool account where f: "get_agent (w_db w) agent_id = Some agent" "tool_name \<in> set (ag_allowed_scopes agent)"
    "dict_get (cf_tools cf) tool_name = Some tool" "scope = tl_scope tool"
    "newest_account (w_db w) (ag_user_id agent) (tl_provider tool) = [account]"
    "int (active_count (w_db w) (w_now w) agent_id tool_name scope) < max_active_grants_per_agent_scope (cf_settings cf)"
    and i: "issue_grant S cf agent_id tool_name scope (ca_id account) (Aware (w_now w)) ?w2 = (Inr r, w')"
    using assms(3) l db assms(1)
    by (auto simp: request_grant_def bindM_def quiet_runs get_tool_def scalar_Some
        split: sum.splits option.splits if_splits)
  have "may_issue cf (w_db w) (w_now w) agent_id tool_name scope account"
    unfolding may_issue_def using f newest_mem [OF f(5)] by blast
  moreover have "at_db (w_db w) (w_now w) (w_trace w) ?w2" using a by (simp add: at_db_def)
  ultimately show ?thesis using i by blast
qed

text \<open>
  C5: a grant is issued only as policy allows and is recorded as issued.  When
  \<open>request_grant\<close> returns, the agent exists, the tool is registered and in the
  agent's allowed list, the scope is the tool's, the account is the newest one the
  agent's own user has with the tool's provider, the agent held fewer active grants
  for tool and scope than the maximum; the row bound to exactly these is the one
  change to the database, it is not revoked and expires after the configured
  lifetime, and it stores the hash of the returned token, signed for this grant.
\<close>

theorem request_grant_sound:
  assumes "quiet S" and "w_dirty w = []"
    and "request_grant S cf agent_id tool_name scope w = (Inr (token, g), w')"
  shows "\<exists>account. may_issue cf (w_db w) (w_now w) agent_id tool_name scope account \<and>
    gr_agent_id g = agent_id \<and> gr_tool_name g = tool_name \<and> gr_scope g = scope \<and>
    gr_connected_account_id g = ca_id account \<and> gr_revoked_at g = None \<and>
    instant (gr_expires_at g) = w_now w + grant_token_ttl_seconds (cf_settings cf) * 1000000 \<and>
    gr_token_hash g = hash_token S token \<and>
    sign_grant_token S (cf_settings cf) (gr_id g) agent_id tool_name scope (gr_issued_at g) (gr_expires_at g) = Inr token \<and>
    w_db w' = (w_db w)\<lparr>db_grants := db_grants (w_db w) @ [g]\<rparr> \<and> w_trace w' = w_trace w @ [EvGrant g]"
proof -
  obtain account w1 where a: "at_db (w_db w) (w_now w) (w_trace w) w1"
    and m: "may_issue cf (w_db w) (w_now w) agent_id tool_name scope account"
    and i: "issue_grant S cf agent_id tool_name scope (ca_id account) (Aware (w_now w)) w1 = (Inr (token, g), w')"
    using request_grant_reaches [OF assms] by blast
  have d: "w_dirty w1 = []" using a by (simp add: at_db_def)
  show ?thesis
    using issue_grant_success [OF assms(1) d i] a m
    by (auto simp: at_db_def new_grant_def dest: insert_grant_frame)
qed

text \<open>
  C32: a refused request writes nothing.  Whenever \<open>request_grant\<close> raises one of the
  broker's own errors, no row of any table has changed and no grant was committed.
\<close>

theorem request_grant_refusal:
  assumes "quiet S" and "w_dirty w = []"
    and "\<And>d k e. sv_jwt_encode S d k = Inl e \<Longrightarrow> \<not> is_CredBrokerError e"
    and "\<And>t k v nx ex r e. fst (rd_set (sv_redis S) t k v nx ex r) = Inl e \<Longrightarrow> \<not> is_CredBrokerError e"
    and "request_grant S cf agent_id tool_name scope w = (Inl e, w')" and "is_CredBrokerError e"
  shows "w_db w' = w_db w \<and> w_trace w' = w_trace w"
proof -
  obtain x w1 where l: "grant_rate_limit S cf agent_id w = (x, w1)" by force
  have a: "w_db w1 = w_db w" "w_now w1 = w_now w" "w_trace w1 = w_trace w" "w_dirty w1 = []"
    using rate_limit_at [OF assms(1,2) l] by (simp_all add: at_db_def)
  have cache: "\<not> is_CredBrokerError e'" if "record_issued S h n v = (Inl e', v')" for h n v e' v'
    using that assms(4) [of "w_now v" "ISSUED_PREFIX @ h" "''1''" False n "w_redis v"]
    by (auto simp: record_issued_def redis_set_def awaiting_quiet [OF assms(1)] bindM_def split: prod.splits sum.splits)
  have noissue: "\<not> is_CredBrokerError e'" if "issue_grant S cf agent_id tool_name scope acc now (w1\<lparr>w_locked := Some agent_id\<rparr>) = (Inl e', v)" for acc now e' v
  proof -
    have "\<not> is_CredBrokerError e'"
      if "insert_grant g db = Inl e'" for g db
      using that by (auto simp: insert_grant_def split: if_splits)
    moreover have "\<not> is_CredBrokerError e'" if "datetime_add d n = Inl e'" for d n
      using that by (auto simp: datetime_add_def Let_def split: if_splits)
    ultimately show ?thesis
      using that assms(1,3) a(4) cache
      by (auto simp: issue_grant_def bindM_def uuid4_run Let_def commit_quiet sign_grant_token_def
          split: sum.splits prod.splits if_splits)
  qed
  show ?thesis
    using assms(5,6) l a assms(1) noissue
    by (auto simp: request_grant_def bindM_def quiet_runs split: sum.splits option.splits if_splits)
qed

section \<open>The concurrency limit under interference\<close>

text \<open>
  No agent holds more active grants for a tool and scope than the maximum.
\<close>

definition limit_ok :: "int \<Rightarrow> ('r, 'x) world \<Rightarrow> bool" where
  "limit_ok m w \<longleftrightarrow> (\<forall>a t sc. int (active_count (w_db w) (w_now w) a t sc) \<le> m)"

text \<open>
  What the environment is relied on for: the wall clock does not go back, and while
  this session holds the row lock on an agent (\<open>SELECT ... FOR UPDATE\<close> on
  PostgreSQL) nobody else adds grants for that agent.
\<close>

definition lock_respected :: "('r, 'x) services \<Rightarrow> bool" where
  "lock_respected S \<longleftrightarrow>
     (\<forall>w a. w_locked w = Some a \<longrightarrow>
        (\<forall>t tn sc. active_count (w_db (env S w)) t a tn sc \<le> active_count (w_db w) t a tn sc))"

lemma active_count_later: "t \<le> t' \<Longrightarrow> active_count db t' a tn sc \<le> active_count db t a tn sc"
proof -
  assume "t \<le> t'"
  then have "filter (is_active t' a tn sc) xs = filter (is_active t' a tn sc) (filter (is_active t a tn sc) xs)" for xs
    by (auto simp: is_active_def intro!: filter_cong)
  then show ?thesis unfolding active_count_def by (metis length_filter_le)
qed

lemma active_count_insert:
  "active_count (db\<lparr>db_grants := db_grants db @ [g]\<rparr>) t a tn sc = active_count db t a tn sc + (if is_active t a tn sc g then 1 else 0)"
  by (simp add: active_count_def)

lemma active_count_grants: "db_grants db = db_grants db' \<Longrightarrow> active_count db = active_count db'"
  by (simp add: active_count_def fun_eq_iff)

lemma limit_ok_core [simp]: "core (limit_ok m)"
  by (simp add: core_def limit_ok_def)

text \<open>The state between taking the lock, counting, and committing.\<close>

definition counted_under_lock :: "int \<Rightarrow> uuid \<Rightarrow> string \<Rightarrow> string \<Rightarrow> int \<Rightarrow> int \<Rightarrow> ('r, 'x) world \<Rightarrow> bool" where
  "counted_under_lock m a tn sc now c w \<longleftrightarrow>
     limit_ok m w \<and> w_locked w = Some a \<and> now \<le> w_now w \<and> int (active_count (w_db w) now a tn sc) \<le> c"

lemma counted_score [simp]: "score (counted_under_lock m a tn sc now c)"
  by (simp add: score_def counted_under_lock_def limit_ok_def)

lemma counted_stable:
  assumes "env_stable S (limit_ok m)" and "clock_forward S" and "lock_respected S"
  shows "env_stable S (counted_under_lock m a tn sc now c)"
  using assms unfolding env_stable_def counted_under_lock_def clock_forward_def lock_respected_def
  by simp (meson of_nat_le_iff order_trans)

lemma insert_under_lock:
  assumes "counted_under_lock m a tn sc now c w" and "c < m"
    and "update_accounts (w_dirty w) (w_db w) = Inr db" and "insert_grant g db = Inr db'"
    and "gr_agent_id g = a" and "gr_tool_name g = tn" and "gr_scope g = sc"
  shows "limit_ok m (w\<lparr>w_db := db', w_trace := t, w_dirty := [], w_locked := None\<rparr>)"
proof -
  have "active_count db = active_count (w_db w)"
    using update_accounts_frame [OF assms(3)] by (intro active_count_grants) simp
  then have new: "active_count db' t' a' tn' sc' = active_count (w_db w) t' a' tn' sc' + (if is_active t' a' tn' sc' g then 1 else 0)" for t' a' tn' sc'
    using insert_grant_frame [OF assms(4)] by (simp add: active_count_insert)
  have "int (active_count (w_db w) (w_now w) a tn sc) < m"
    using assms(1,2) active_count_later [of now "w_now w" "w_db w" a tn sc] by (simp add: counted_under_lock_def)
  then show ?thesis
    using assms(1,5-7) unfolding limit_ok_def counted_under_lock_def
    by (auto simp: new is_active_def)
qed

lemma issue_under_lock:
  assumes "env_stable S (limit_ok m)" and "clock_forward S" and "lock_respected S" and "c < m"
  shows "triple (counted_under_lock m a tn sc (instant now) c) (issue_grant S cf a tn sc acc now) (\<lambda>_. limit_ok m) (\<lambda>_. limit_ok m)"
proof -
  let ?K = "counted_under_lock m a tn sc (instant now) c"
  have st: "env_stable S ?K" by (rule counted_stable [OF assms(1-3)])
  have K: "limit_ok m w" if "?K w" for w :: "('a, 'b) world" using that by (simp add: counted_under_lock_def)
  have u: "triple ?K (uuid4 S) (\<lambda>_. ?K) (\<lambda>_. limit_ok m)"
    by (rule triple_conseq [OF keeps_random(1) [OF counted_score]]) (auto intro: K)
  have c: "triple ?K (commit S (insert_grant (new_grant gid a acc tn sc h now e)) evs) (\<lambda>_. limit_ok m) (\<lambda>_. limit_ok m)" for gid h e evs
    by (rule triple_commit [OF st]) (use assms in \<open>auto simp: new_grant_def intro: K insert_under_lock\<close>)
  show ?thesis
    unfolding issue_grant_def Let_def
    by (rule triple_bindM [OF u], rule triple_lift_bind, erule K, rule triple_lift_bind, erule K)
      (use assms in \<open>auto intro!: triple_bindM [OF c] wp\<close>)
qed

definition locked_ok :: "int \<Rightarrow> uuid \<Rightarrow> ('r, 'x) world \<Rightarrow> bool" where
  "locked_ok m a w \<longleftrightarrow> limit_ok m w \<and> w_locked w = Some a"

lemma locked_score [simp]: "score (locked_ok m a)"
  by (simp add: score_def locked_ok_def limit_ok_def)

lemma locked_stable: "env_stable S (limit_ok m) \<Longrightarrow> env_stable S (locked_ok m a)"
  by (simp add: env_stable_def locked_ok_def)

lemma get_for_update_locks:
  assumes "env_stable S (limit_ok m)"
  shows "triple (limit_ok m) (get_for_update S a) (\<lambda>_. locked_ok m a) (\<lambda>_. limit_ok m)"
  unfolding get_for_update_def
  by (rule triple_awaiting)
    (use assms locked_stable in \<open>auto simp: locked_ok_def limit_ok_def triple_def bindM_def\<close>)

lemma count_under_lock:
  assumes "env_stable S (limit_ok m)" and "clock_forward S" and "lock_respected S"
  shows "triple (\<lambda>w. locked_ok m a w \<and> now \<le> w_now w) (select S (\<lambda>db. int (active_count db now a tn sc)))
     (\<lambda>c. counted_under_lock m a tn sc now c) (\<lambda>_. limit_ok m)"
  unfolding select_def
proof (rule triple_awaiting)
  show "env_stable S (\<lambda>w. locked_ok m a w \<and> now \<le> w_now w)"
    using locked_stable [OF assms(1)] assms(2) unfolding env_stable_def clock_forward_def by (meson order_trans)
  show "env_stable S (counted_under_lock m a tn sc now c)" for c by (rule counted_stable [OF assms])
qed (use assms(1) in \<open>auto simp: triple_def locked_ok_def counted_under_lock_def\<close>)

lemma utcnow_under_lock:
  "triple (locked_ok m a) utcnow (\<lambda>now w. locked_ok m a w \<and> instant now \<le> w_now w) E"
  by (simp add: triple_def utcnow_run)

text \<open>
  The concurrency limit holds however requests interleave.  If every other
  party keeps the limit, the clock does not go back and the row lock on the agent
  is respected, \<open>request_grant\<close> keeps the limit for every agent, tool and scope, on
  every exit, normal or exceptional.
\<close>

theorem request_grant_keeps_limit:
  assumes "env_stable S (limit_ok (max_active_grants_per_agent_scope (cf_settings cf)))"
    and "clock_forward S" and "lock_respected S"
    and "limit_ok (max_active_grants_per_agent_scope (cf_settings cf)) w"
    and "request_grant S cf agent_id tool_name scope w = (r, w')"
  shows "limit_ok (max_active_grants_per_agent_scope (cf_settings cf)) w'"
proof -
  let ?m = "max_active_grants_per_agent_scope (cf_settings cf)"
  note st = assms(1) locked_stable [OF assms(1)]
  have L: "limit_ok ?m v" if "locked_ok ?m agent_id v" for v :: "('a, 'b) world" using that by (simp add: locked_ok_def)
  have C: "limit_ok ?m v" if "counted_under_lock ?m agent_id tn sc n c v" for v :: "('a, 'b) world" and tn sc n c
    using that by (simp add: counted_under_lock_def)
  have sel: "triple (locked_ok ?m agent_id) (select S f) (\<lambda>_. locked_ok ?m agent_id) (\<lambda>_. limit_ok ?m)" for f :: "database \<Rightarrow> connected_account list"
    by (rule triple_conseq [OF keeps_select [OF st(2)]]) (auto intro: L)
  have "keeps (limit_ok ?m) (request_grant S cf agent_id tool_name scope)"
    unfolding request_grant_def
    apply (rule keeps_bindM)
     apply (rule keeps_rate_limit; simp add: st)
    apply (rule triple_bindM [OF get_for_update_locks [OF assms(1)]])
    apply (rule triple_case_option; (rule triple_raise, erule L)?)
    apply (rule triple_lift_bind, erule L)
    apply (intro triple_if; (rule triple_raise, erule L)?)
    apply (rule triple_bindM [OF sel], rule triple_lift_bind, erule L)
    apply (rule triple_case_option; (rule triple_raise, erule L)?)
    apply (rule triple_bindM [OF utcnow_under_lock])
    apply (rule triple_bindM [OF count_under_lock [OF assms(1-3)]])
    apply (intro triple_if; (rule triple_raise, erule C)?)
    apply (rule issue_under_lock [OF assms(1-3)], simp)
    done
  then show ?thesis using keepsD [of "limit_ok ?m" "request_grant S cf agent_id tool_name scope" w] assms(4,5) by simp
qed

section \<open>Concrete runs\<close>

definition sample_config :: config where
  "sample_config = \<lparr>cf_settings = sample_settings, cf_cipher = sample_key, cf_tools = TOOL_REGISTRY,
     cf_grant_cache = False, cf_rate_limiter = False, cf_idempotency = None\<rparr>"

definition sample_agent :: agent_identity where
  "sample_agent = \<lparr>ag_id = 8, ag_user_id = 5, ag_name = ''reader'', ag_allowed_scopes = [''drive.read''],
     ag_created_at = Aware 1690000000000000\<rparr>"

definition sample_account :: connected_account where
  "sample_account = \<lparr>ca_id = 9, ca_user_id = 5, ca_provider = ''google'',
     ca_encrypted_access_token = ''CB1'' @ pack_H 60 @ replicate 12 CHR ''n'' @ replicate 32 CHR ''k'' @ replicate 16 CHR ''m''
       @ replicate 12 CHR ''o'' @ ''ya29.token'' @ replicate 16 CHR ''k'',
     ca_encrypted_refresh_token = None, ca_scopes_granted = [], ca_expires_at = None,
     ca_created_at = Aware 1690000000000000\<rparr>"

definition sample_db :: database where
  "sample_db = empty_db\<lparr>db_agents := [sample_agent], db_accounts := [sample_account]\<rparr>"

definition sample_start :: "(memory, nat) world" where
  "sample_start = sample_world\<lparr>w_db := sample_db\<rparr>"

lemma sample_rows [simp]:
  "get_agent sample_db 8 = Some sample_agent" "newest_account sample_db 5 ''google'' = [sample_account]"
  "active_count sample_db t a tn sc = 0" "w_db sample_start = sample_db" "w_now sample_start = 1700000000000000"
  "w_dirty sample_start = []" "w_trace sample_start = []" "w_ext sample_start = 1" "get_account sample_db 9 = Some sample_account"
  "db_grants sample_db = []" "db_audit sample_db = []" "db_agents sample_db = [sample_agent]"
  by (simp_all add: sample_db_def empty_db_def get_agent_def sample_agent_def newest_account_def sample_account_def
      active_count_def sample_start_def get_account_def)

lemma sample_tool [simp]:
  "get_tool (cf_tools sample_config) ''drive.read'' = Inr DriveListFilesTool"
  "tl_scope DriveListFilesTool = ''read''" "tl_provider DriveListFilesTool = ''google''"
  by (simp_all add: get_tool_def sample_config_def TOOL_REGISTRY_def register_tool_def DriveListFilesTool_def)

lemma sample_config_sel [simp]:
  "cf_settings sample_config = sample_settings" "cf_cipher sample_config = sample_key"
  "cf_grant_cache sample_config = False" "cf_rate_limiter sample_config = False" "cf_idempotency sample_config = None"
  by (simp_all add: sample_config_def)

lemma sample_row_sel [simp]:
  "ag_allowed_scopes sample_agent = [''drive.read'']" "ag_user_id sample_agent = 5" "ca_id sample_account = 9"
  by (simp_all add: sample_agent_def sample_account_def)

lemma sample_request_runs:
  obtains token g w' where "request_grant sample_services sample_config 8 ''drive.read'' ''read'' sample_start = (Inr (token, g), w')"
  by (simp add: request_grant_def grant_rate_limit_def issue_grant_def bindM_def quiet_runs Let_def sign_grant_token_def
      sample_jwt_encode_def insert_grant_def new_grant_def default_settings_def datetime_add_def)

lemma sample_refusal_runs:
  obtains e w' where "request_grant sample_services sample_config 8 ''drive.read'' ''write'' sample_start = (Inl e, w')"
    "is_CredBrokerError e"
  by (simp add: request_grant_def grant_rate_limit_def bindM_def quiet_runs)

theorem request_grant_sound_witness:
  "\<exists>token g w'. request_grant sample_services sample_config 8 ''drive.read'' ''read'' sample_start = (Inr (token, g), w') \<and>
     gr_revoked_at g = None \<and> gr_token_hash g = hash_token sample_services token \<and> db_grants (w_db w') = [g]"
proof -
  obtain token g w' where r: "request_grant sample_services sample_config 8 ''drive.read'' ''read'' sample_start = (Inr (token, g), w')"
    by (rule sample_request_runs)
  have "gr_revoked_at g = None \<and> gr_token_hash g = hash_token sample_services token \<and> db_grants (w_db w') = [g]"
    using request_grant_sound [OF sample_quiet _ r] by auto
  then show ?thesis using r by blast
qed

theorem request_grant_refusal_witness:
  "w_db (snd (request_grant sample_services sample_config 8 ''drive.read'' ''write'' sample_start)) = sample_db"
proof -
  obtain e w' where r: "request_grant sample_services sample_config 8 ''drive.read'' ''write'' sample_start = (Inl e, w')"
    "is_CredBrokerError e"
    by (rule sample_refusal_runs)
  have j: "\<And>d k e. sv_jwt_encode sample_services d k = Inl e \<Longrightarrow> \<not> is_CredBrokerError e"
    by (auto simp: sample_jwt_encode_def split: if_splits)
  have s: "\<And>t k v nx ex r e. fst (rd_set (sv_redis sample_services) t k v nx ex r) = Inl e \<Longrightarrow> \<not> is_CredBrokerError e"
    by (auto simp: mem_redis_def mem_set_def split: if_splits)
  show ?thesis using request_grant_refusal [OF sample_quiet _ j s r] r by simp
qed

theorem request_grant_keeps_limit_witness:
  "limit_ok 1 (snd (request_grant sample_services sample_config 8 ''drive.read'' ''read'' sample_start))"
  using request_grant_keeps_limit [of sample_services sample_config sample_start 8 "''drive.read''" "''read''"
      "fst (request_grant sample_services sample_config 8 ''drive.read'' ''read'' sample_start)"
      "snd (request_grant sample_services sample_config 8 ''drive.read'' ''read'' sample_start)"]
  by (simp add: default_settings_def clock_forward_def lock_respected_def limit_ok_def)

section \<open>Properties of revoke_grant\<close>

lemma map_find_id:
  "List.find (\<lambda>g. gr_id g = i) (map (\<lambda>g. if gr_id g = j then f g else g) gs) =
     map_option (\<lambda>g. if gr_id g = j then f g else g) (List.find (\<lambda>g. gr_id g = i) gs)"
  if "\<And>g. gr_id (f g) = gr_id g" for gs
  by (induction gs) (auto simp: that)

lemma get_update_grant:
  assumes "update_grant j f db = Inr db'" and "\<And>g. gr_id (f g) = gr_id g"
  shows "get_grant db' i = map_option (\<lambda>g. if gr_id g = j then f g else g) (get_grant db i)"
  using assms map_find_id [OF assms(2)] by (auto simp: update_grant_def get_grant_def split: if_splits)

lemma update_grant_frame:
  "update_grant j f db = Inr db' \<Longrightarrow> db_accounts db' = db_accounts db \<and> db_agents db' = db_agents db \<and> db_audit db' = db_audit db"
  by (auto simp: update_grant_def split: if_splits)

lemma revoke_cache_at:
  assumes "quiet S" and "at_db db t evs w" and "(if b then record_revoked S h n else ret ()) w = (r, w1)"
  shows "at_db db t evs w1"
proof -
  have "keeps (at_db db t evs) (if b then record_revoked S h n else ret ())"
    using assms(1) by (intro wp; simp)
  then show ?thesis using assms(2,3) keepsD by fastforce
qed

text \<open>
  C23: revoking a grant stamps its row and nothing else, and is idempotent.  After
  \<open>revoke_grant\<close> returns, the row with that id carries a revocation time, the
  earlier one if it had one, in which case no row has changed at all; every other
  row of every table is as before.
\<close>

theorem revoke_grant_revokes:
  assumes "quiet S" and "w_dirty w = []" and "revoke_grant S cf gid w = (Inr g, w')"
  shows "\<exists>g0. get_grant (w_db w) gid = Some g0 \<and> get_grant (w_db w') gid = Some g \<and>
    g = g0\<lparr>gr_revoked_at := Some (case gr_revoked_at g0 of None \<Rightarrow> Aware (w_now w) | Some t \<Rightarrow> t)\<rparr> \<and>
    (gr_revoked_at g0 \<noteq> None \<longrightarrow> w_db w' = w_db w) \<and>
    (\<forall>i. i \<noteq> gid \<longrightarrow> get_grant (w_db w') i = get_grant (w_db w) i) \<and>
    db_accounts (w_db w') = db_accounts (w_db w) \<and> db_agents (w_db w') = db_agents (w_db w) \<and>
    db_audit (w_db w') = db_audit (w_db w)"
proof -
  obtain g0 where g0: "get_grant (w_db w) gid = Some g0"
    using assms(3) by (auto simp: revoke_grant_def bindM_def select_quiet [OF assms(1)] split: option.splits)
  note id = get_grant_in [OF g0]
  let ?cache = "\<lambda>h. if cf_grant_cache cf then record_revoked S h DEFAULT_REVOKED_TTL_SECONDS else ret ()"
  show ?thesis
  proof (cases "gr_revoked_at g0")
    case None
    let ?f = "\<lambda>g. g\<lparr>gr_revoked_at := Some (Aware (w_now w))\<rparr>"
    obtain db where db: "update_grant gid ?f (w_db w) = Inr db" using g0 by (simp add: update_grant_def)
    let ?w1 = "w\<lparr>w_db := db, w_dirty := [], w_locked := None\<rparr>"
    obtain r w2 where c: "?cache (gr_token_hash g0) ?w1 = (r, w2)" by force
    have "w_db w2 = db" using revoke_cache_at [OF assms(1) _ c, of db "w_now w" "w_trace w"] by (simp add: at_db_def)
    moreover have "g = ?f g0 \<and> w' = w2"
      using assms(3) g0 None db c
      by (cases "cf_grant_cache cf")
        (auto simp: revoke_grant_def bindM_def select_quiet [OF assms(1)] commit_quiet [OF assms(1,2)] utcnow_run
          split: sum.splits)
    ultimately show ?thesis
      using get_update_grant [OF db] update_grant_frame [OF db] g0 None id
      by (auto simp: option.map_id0 dest: get_grant_in intro!: option.map_ident_strong)
  next
    case (Some t)
    obtain r w2 where c: "?cache (gr_token_hash g0) w = (r, w2)" by force
    have "w_db w2 = w_db w" using revoke_cache_at [OF assms(1) _ c, of "w_db w" "w_now w" "w_trace w"] assms(2) by (simp add: at_db_def)
    moreover have "g = g0 \<and> w' = w2"
      using assms(3) g0 Some c
      by (auto simp: revoke_grant_def bindM_def select_quiet [OF assms(1)] simp del: if_split split: sum.splits)
    ultimately show ?thesis using g0 Some by simp
  qed
qed

theorem revoke_grant_revokes_witness:
  "\<exists>g w'. revoke_grant sample_services sample_config 7
       (sample_start\<lparr>w_db := sample_db\<lparr>db_grants := [new_grant 7 8 9 ''drive.read'' ''read'' ''h'' (Aware 0) (Aware 9)]\<rparr>\<rparr>) = (Inr g, w') \<and>
     map gr_revoked_at (db_grants (w_db w')) = [Some (Aware 1700000000000000)]"
proof -
  let ?w = "sample_start\<lparr>w_db := sample_db\<lparr>db_grants := [new_grant 7 8 9 ''drive.read'' ''read'' ''h'' (Aware 0) (Aware 9)]\<rparr>\<rparr>"
  obtain g w' where r: "revoke_grant sample_services sample_config 7 ?w = (Inr g, w')"
    and d: "length (db_grants (w_db w')) = 1"
    by (simp add: revoke_grant_def bindM_def quiet_runs get_grant_def new_grant_def update_grant_def)
  have "get_grant (w_db w') 7 = Some g \<and> gr_revoked_at g = Some (Aware 1700000000000000)"
    using revoke_grant_revokes [OF sample_quiet _ r] by (auto simp: get_grant_def new_grant_def)
  then have "map gr_revoked_at (db_grants (w_db w')) = [Some (Aware 1700000000000000)]"
    using d by (auto simp: get_grant_def length_Suc_conv split: if_splits)
  with r show ?thesis by (intro exI conjI)
qed

end
