(* ===== verification/Cb_Google.thy ===== *)
theory Cb_Google
  imports Cb_Tools Cb_Kms
begin

text \<open>
  The Google OAuth client (\<open>credbroker/oauth/google.py\<close>): the consent URL and the
  two calls of the token endpoint.  Values of the endpoint's JSON answer are
  dynamically typed, and the model follows what Python does with each of them; a
  \<open>None\<close> is \<open>JNull\<close>.
\<close>

section \<open>The consent URL\<close>

definition GOOGLE_AUTH_URL :: string where
  "GOOGLE_AUTH_URL = ''https://accounts.google.com/o/oauth2/v2/auth''"

definition GOOGLE_TOKEN_URL :: string where
  "GOOGLE_TOKEN_URL = ''https://oauth2.googleapis.com/token''"

definition DEFAULT_SCOPES :: "string list" where
  "DEFAULT_SCOPES = [''https://www.googleapis.com/auth/drive.readonly'']"

text \<open>\<open>urllib.parse.quote_plus\<close> and \<open>urlencode\<close>.\<close>

definition quote_char :: "char \<Rightarrow> string" where
  "quote_char c =
     (let n = code c; h = (\<lambda>d. if d < 10 then char_of (48 + d) else char_of (55 + d)) in
      if 48 \<le> n \<and> n \<le> 57 \<or> 65 \<le> n \<and> n \<le> 90 \<or> 97 \<le> n \<and> n \<le> 122 \<or> c \<in> set ''_.-~'' then [c]
      else if c = CHR '' '' then ''+''
      else [CHR ''%'', h (n div 16), h (n mod 16)])"

definition urlencode :: "(string \<times> string) list \<Rightarrow> string" where
  "urlencode params = join ''&'' (map (\<lambda>(k, v). concat (map quote_char k) @ ''='' @ concat (map quote_char v)) params)"

definition redirect_uri :: "settings \<Rightarrow> string" where
  "redirect_uri st = public_base_url st @ ''/oauth/google/callback''"

definition build_authorize_url :: "settings \<Rightarrow> string \<Rightarrow> string" where
  "build_authorize_url st state =
     GOOGLE_AUTH_URL @ ''?'' @ urlencode
       [(''client_id'', google_client_id st),
        (''redirect_uri'', redirect_uri st),
        (''response_type'', ''code''),
        (''scope'', join '' '' DEFAULT_SCOPES),
        (''state'', state),
        (''access_type'', ''offline''),
        (''prompt'', ''consent'')]"

section \<open>The token endpoint\<close>

record token_response =
  tr_access_token :: string
  tr_refresh_token :: json
  tr_expires_in :: "int option"
  tr_scopes :: "string list"

text \<open>\<open>register_secret\<close> of a value that need not be text.\<close>

definition register_value :: "json \<Rightarrow> ('r, 'x, unit) io" where
  "register_value v =
     (case v of
        JStr s \<Rightarrow> register_secret (Some (SecretStr s))
      | JNull \<Rightarrow> ret ()
      | JList xs \<Rightarrow> if length xs < MIN_SECRET_LEN then ret () else raise (TypeError ''unhashable type: list'')
      | JObj kvs \<Rightarrow> if length kvs < MIN_SECRET_LEN then ret () else raise (TypeError ''unhashable type: dict'')
      | _ \<Rightarrow> if json_truthy v then raise (TypeError ''object has no len()'') else ret ())"

definition dict_get_or :: "json \<Rightarrow> dict \<Rightarrow> string \<Rightarrow> json" where
  "dict_get_or dflt d k = (case dict_get d k of Some v \<Rightarrow> v | None \<Rightarrow> dflt)"

definition parse_payload :: "dict \<Rightarrow> ('r, 'x, token_response) io" where
  "parse_payload payload =
     (case dict_get_or JNull payload ''access_token'' of
        JStr access_token \<Rightarrow>
          if access_token = []
          then raise (broker_error OAuthFlowError ''google token endpoint response is missing access_token'')
          else
            (let r = dict_get_or JNull payload ''refresh_token'';
                 refresh_token = (if json_truthy r then r else JNull) in
             bindM (register_secret (Some (SecretStr access_token))) (\<lambda>_.
             bindM (register_value refresh_token) (\<lambda>_.
             bindM (case dict_get_or JNull payload ''expires_in'' of
                      JNull \<Rightarrow> ret None
                    | v \<Rightarrow> bindM (liftE (json_int v)) (\<lambda>n. ret (Some n))) (\<lambda>expires_in.
             ret \<lparr>tr_access_token = access_token, tr_refresh_token = refresh_token, tr_expires_in = expires_in,
                  tr_scopes = py_split_ws (json_str (dict_get_or (JStr []) payload ''scope''))\<rparr>))))
      | _ \<Rightarrow> raise (broker_error OAuthFlowError ''google token endpoint response is missing access_token''))"

definition parse_token_response :: "('r, 'x) services \<Rightarrow> http_response \<Rightarrow> ('r, 'x, token_response) io" where
  "parse_token_response S response =
     (if rs_status_code response < 200 \<or> rs_status_code response \<ge> 300
      then raise (broker_error OAuthFlowError
             (''google token endpoint returned HTTP '' @ py_str_int (rs_status_code response)))
      else
        (case response_json (sv_float S) response of
           Inl e \<Rightarrow>
             if is_ValueError e
             then raise (broker_error OAuthFlowError ''google token endpoint returned a non-JSON response'')
             else raise e
         | Inr (JObj payload) \<Rightarrow> parse_payload payload
         | Inr _ \<Rightarrow> raise (AttributeError ''object has no attribute get'')))"

definition exchange_request :: "settings \<Rightarrow> string \<Rightarrow> http_request" where
  "exchange_request st auth_code =
     HttpPost GOOGLE_TOKEN_URL
       [(''client_id'', google_client_id st),
        (''client_secret'', google_client_secret st),
        (''code'', auth_code),
        (''grant_type'', ''authorization_code''),
        (''redirect_uri'', redirect_uri st)]"

definition exchange_code :: "('r, 'x) services \<Rightarrow> settings \<Rightarrow> string \<Rightarrow> ('r, 'x, token_response) io" where
  "exchange_code S st auth_code =
     bindM (http_send S (exchange_request st auth_code)) (\<lambda>response. parse_token_response S response)"

definition refresh_request :: "settings \<Rightarrow> string \<Rightarrow> http_request" where
  "refresh_request st refresh_token =
     HttpPost GOOGLE_TOKEN_URL
       [(''client_id'', google_client_id st),
        (''client_secret'', google_client_secret st),
        (''refresh_token'', refresh_token),
        (''grant_type'', ''refresh_token'')]"

definition refresh_access_token :: "('r, 'x) services \<Rightarrow> settings \<Rightarrow> string \<Rightarrow> ('r, 'x, token_response) io" where
  "refresh_access_token S st refresh_token =
     bindM (http_send S (refresh_request st refresh_token)) (\<lambda>response. parse_token_response S response)"

text \<open>\<open>cipher.encrypt(v)\<close> of a value that need not be text: the failing \<open>v.encode\<close> comes last.\<close>

definition encrypt_value :: "('r, 'x) services \<Rightarrow> key_manager \<Rightarrow> json \<Rightarrow> ('r, 'x, bytes) io" where
  "encrypt_value S km v =
     (case v of
        JStr s \<Rightarrow> encrypt S km s
      | _ \<Rightarrow>
          bindM (register_value v) (\<lambda>_.
          bindM (generate_data_key S km) (\<lambda>(data_key, encrypted_key).
          if length encrypted_key > 0xFFFF then raise (ValueError ''encrypted data key too large for blob format'')
          else bindM (urandom S NONCE_SIZE) (\<lambda>nonce. raise (AttributeError ''object has no attribute encode'')))))"

section \<open>Frames\<close>

lemma triple_case_json [wp]:
  assumes "\<And>s. v = JStr s \<Longrightarrow> triple P (m1 s) Q E" and "v = JNull \<Longrightarrow> triple P m2 Q E"
    and "\<And>b. v = JBool b \<Longrightarrow> triple P (m3 b) Q E" and "\<And>i. v = JInt i \<Longrightarrow> triple P (m4 i) Q E"
    and "\<And>i r. v = JFloat i r \<Longrightarrow> triple P (m5 i r) Q E" and "\<And>t. v = JNonFinite t \<Longrightarrow> triple P (m6 t) Q E"
    and "\<And>xs. v = JList xs \<Longrightarrow> triple P (m7 xs) Q E" and "\<And>kvs. v = JObj kvs \<Longrightarrow> triple P (m8 kvs) Q E"
  shows "triple P (case v of JNull \<Rightarrow> m2 | JBool b \<Rightarrow> m3 b | JInt i \<Rightarrow> m4 i | JFloat i r \<Rightarrow> m5 i r
     | JNonFinite t \<Rightarrow> m6 t | JStr s \<Rightarrow> m1 s | JList xs \<Rightarrow> m7 xs | JObj kvs \<Rightarrow> m8 kvs) Q E"
  using assms by (cases v) auto

lemma keeps_register_value [wp]: "score I \<Longrightarrow> keeps I (register_value v)"
  unfolding register_value_def by (intro wp; simp)

lemma keeps_parse [wp]: "score I \<Longrightarrow> keeps I (parse_token_response S r)"
  unfolding parse_token_response_def parse_payload_def Let_def by (intro wp; simp)

lemma keeps_encrypt_value [wp]: "score I \<Longrightarrow> keeps I (encrypt_value S km v)"
  unfolding encrypt_value_def by (intro wp; simp)

lemma keeps_refresh_access_token:
  assumes "env_stable S I" and "score I"
    and "\<And>w. I w \<Longrightarrow> I (w\<lparr>w_trace := w_trace w @ [EvHttp (refresh_request st t)]\<rparr>)"
  shows "keeps I (refresh_access_token S st t)"
  unfolding refresh_access_token_def using assms by (intro wp keeps_http_send; simp)

lemma keeps_exchange_code:
  assumes "env_stable S I" and "score I"
    and "\<And>w. I w \<Longrightarrow> I (w\<lparr>w_trace := w_trace w @ [EvHttp (exchange_request st c)]\<rparr>)"
  shows "keeps I (exchange_code S st c)"
  unfolding exchange_code_def using assms by (intro wp keeps_http_send; simp)

section \<open>What a response can do\<close>

text \<open>
  The tokens of an accepted response are registered for redaction before the
  response is handed on.
\<close>

lemma parse_registers:
  assumes "parse_token_response S r w = (Inr t, w')"
  shows "tr_access_token t \<noteq> []"
    and "MIN_SECRET_LEN \<le> py_len (tr_access_token t) \<Longrightarrow> tr_access_token t \<in> set (w_secrets w')"
proof -
  obtain payload where p: "parse_payload payload w = (Inr t, w')"
    using assms by (auto simp: parse_token_response_def split: if_splits sum.splits json.splits)
  obtain a where a: "dict_get_or JNull payload ''access_token'' = JStr a" "a \<noteq> []"
    using p by (auto simp: parse_payload_def split: json.splits if_splits)
  let ?w1 = "w\<lparr>w_secrets := registered (Some (SecretStr a)) (w_secrets w)\<rparr>"
  let ?r = "dict_get_or JNull payload ''refresh_token''"
  obtain b w2 where 2: "register_value (if json_truthy ?r then ?r else JNull) ?w1 = (b, w2)" by force
  have "set (w_secrets ?w1) \<subseteq> set (w_secrets w2)"
    using 2 by (auto simp: register_value_def register_secret_def split: json.splits if_splits
        intro: subsetD [OF registered_mono])
  moreover have "tr_access_token t = a \<and> w' = w2"
    using p a 2
    by (auto simp: parse_payload_def Let_def bindM_def register_secret_def split: sum.splits json.splits)
  ultimately show "tr_access_token t \<noteq> []"
    "MIN_SECRET_LEN \<le> py_len (tr_access_token t) \<Longrightarrow> tr_access_token t \<in> set (w_secrets w')"
    using a(2) registered_str [of a "w_secrets w"] by auto
qed

end
