(* ===== verification/Cb_Invoke.thy ===== *)
theory Cb_Invoke
  imports Cb_Grants_Service Cb_Google
begin

text \<open>
  Tool invocation (\<open>credbroker/invoke/service.py\<close>) and its audit trail
  (\<open>credbroker/invoke/audit.py\<close>): the one place a stored credential is decrypted.
  The service's attributes that change (the HTTP client slot and the breakers) are
  in the world; its injected collaborators are the configuration.
\<close>

section \<open>Audit\<close>

definition hash_arguments :: "('r, 'x) services \<Rightarrow> dict \<Rightarrow> string" where
  "hash_arguments S arguments = sv_sha256_hex S (dumps canonical_opts (JObj arguments))"

definition record_call :: "('r, 'x) services \<Rightarrow> uuid \<Rightarrow> string \<Rightarrow> dict \<Rightarrow> string \<Rightarrow> int \<Rightarrow> ('r, 'x, audit_row) io" where
  "record_call S grant_id tool_name arguments status latency_ms =
     bindM (uuid4 S) (\<lambda>row_id.
     bindM utcnow (\<lambda>now.
     let row = \<lparr>au_id = row_id, au_grant_id = grant_id, au_tool_name = tool_name,
                au_arguments_hash = hash_arguments S arguments, au_status = status, au_latency_ms = latency_ms,
                au_called_at = now\<rparr>
     in
     bindM (commit S (insert_audit row) [EvAudit row]) (\<lambda>_.
     ret row)))"

section \<open>Outcomes\<close>

record invoke_outcome =
  io_status :: string
  io_result :: json
  io_error :: "string option"
  io_latency_ms :: int
  io_from_cache :: bool
  io_denied_reason :: "string option"

definition REFRESH_EXPIRY_MARGIN :: int where
  "REFRESH_EXPIRY_MARGIN = 60"

definition elapsed_ms :: "real \<Rightarrow> real \<Rightarrow> int" where
  "elapsed_ms now start = max 0 (let ms = (now - start) * 1000 in if ms < 0 then - \<lfloor>- ms\<rfloor> else \<lfloor>ms\<rfloor>)"

definition outcome :: "string \<Rightarrow> json \<Rightarrow> string option \<Rightarrow> string option \<Rightarrow> real \<Rightarrow> bool \<Rightarrow> ('r, 'x, invoke_outcome) io" where
  "outcome status result err denied_reason start from_cache =
     bindM (case err of None \<Rightarrow> ret None | Some e \<Rightarrow> bindM (scrub e) (\<lambda>t. ret (Some t))) (\<lambda>safe.
     bindM monotonic (\<lambda>now.
     ret \<lparr>io_status = status, io_result = result, io_error = safe, io_latency_ms = elapsed_ms now start,
          io_from_cache = from_cache, io_denied_reason = denied_reason\<rparr>))"

abbreviation denied :: "string \<Rightarrow> string \<Rightarrow> real \<Rightarrow> ('r, 'x, invoke_outcome) io" where
  "denied err reason start \<equiv> outcome ''denied'' JNull (Some err) (Some reason) start False"

abbreviation failed :: "string \<Rightarrow> real \<Rightarrow> ('r, 'x, invoke_outcome) io" where
  "failed err start \<equiv> outcome ''failed'' JNull (Some err) None start False"

section \<open>The service's own objects\<close>

text \<open>The HTTP client slot: an injected or a lazily created client; \<open>aclose\<close> closes only the latter.\<close>

definition http :: "('r, 'x, nat) io" where
  "http = (\<lambda>w.
     case w_http_client w of
       Some c \<Rightarrow> (Inr c, w)
     | None \<Rightarrow> (let c = length (w_closed_clients w) in
                (Inr c, w\<lparr>w_http_client := Some c, w_owns_http_client := True\<rparr>)))"

definition aclose :: "('r, 'x) services \<Rightarrow> ('r, 'x, unit) io" where
  "aclose S =
     bindM (getM w_owns_http_client) (\<lambda>owns.
     bindM (getM w_http_client) (\<lambda>client.
     case client of
       Some c \<Rightarrow>
         if owns then
           bindM (awaiting S AwaitClose (modM (\<lambda>w. w\<lparr>w_closed_clients := w_closed_clients w @ [c]\<rparr>))) (\<lambda>_.
           modM (\<lambda>w. w\<lparr>w_http_client := None, w_owns_http_client := False\<rparr>))
         else ret ()
     | None \<Rightarrow> ret ()))"

definition circuit_for :: "settings \<Rightarrow> string \<Rightarrow> ('r, 'x, ('r, 'x) circuit_ops) io" where
  "circuit_for st provider =
     bindM (getM (\<lambda>w. w_circuits w provider)) (\<lambda>c.
     case c of
       Some _ \<Rightarrow> ret (circuit_object provider)
     | None \<Rightarrow>
         bindM (liftE (new_circuit (circuit_failure_threshold st) (circuit_reset_seconds st))) (\<lambda>new.
         bindM (modM (\<lambda>w. w\<lparr>w_circuits := (w_circuits w)(provider \<mapsto> new)\<rparr>)) (\<lambda>_.
         ret (circuit_object provider))))"

section \<open>Credentials\<close>

definition can_refresh :: "connected_account \<Rightarrow> bool" where
  "can_refresh account \<longleftrightarrow> ca_encrypted_refresh_token account \<noteq> None \<and> ca_provider account = ''google''"

definition refresh_credential :: "('r, 'x) services \<Rightarrow> config \<Rightarrow> connected_account \<Rightarrow> ('r, 'x, string) io" where
  "refresh_credential S cf account =
     bindM (awaiting S AwaitThread (decrypt S (cf_cipher cf) (the (ca_encrypted_refresh_token account)))) (\<lambda>refresh_token.
     bindM http (\<lambda>_.
     bindM (refresh_access_token S (cf_settings cf) refresh_token) (\<lambda>refreshed.
     bindM (awaiting S AwaitThread (encrypt S (cf_cipher cf) (tr_access_token refreshed))) (\<lambda>blob.
     bindM (assign (ca_id account) (SetAccessToken blob)) (\<lambda>_.
     bindM (if json_truthy (tr_refresh_token refreshed) then
              bindM (awaiting S AwaitThread (encrypt_value S (cf_cipher cf) (tr_refresh_token refreshed))) (\<lambda>blob2.
              assign (ca_id account) (SetRefreshToken (Some blob2)))
            else ret ()) (\<lambda>_.
     bindM (case tr_expires_in refreshed of
              None \<Rightarrow> ret None
            | Some n \<Rightarrow> bindM utcnow (\<lambda>now. bindM (liftE (datetime_add now n)) (\<lambda>t. ret (Some t)))) (\<lambda>expires_at.
     bindM (assign (ca_id account) (SetExpiresAt expires_at)) (\<lambda>_.
     bindM (commit S Inr []) (\<lambda>_.
     ret (tr_access_token refreshed))))))))))"

definition refresh_or_outcome :: "('r, 'x) services \<Rightarrow> config \<Rightarrow> connected_account \<Rightarrow> real
    \<Rightarrow> ('r, 'x, invoke_outcome + string) io" where
  "refresh_or_outcome S cf account start =
     catchM (bindM (refresh_credential S cf account) (\<lambda>t. ret (Inr t)))
       (\<lambda>e.
          if broker_class e = Some OAuthFlowError then
            bindM (failed (''credential refresh failed: '' @ exn_str e) start) (\<lambda>o'. ret (Inl o'))
          else if is_HTTPError e then
            bindM (failed ''credential refresh failed: could not reach the token endpoint'' start) (\<lambda>o'. ret (Inl o'))
          else if is_ClientError e \<or> is_ValueError e then
            bindM (failed ''stored credential could not be decrypted'' start) (\<lambda>o'. ret (Inl o'))
          else raise e)"

definition is_revoked_now :: "('r, 'x) services \<Rightarrow> config \<Rightarrow> uuid \<Rightarrow> string \<Rightarrow> ('r, 'x, bool) io" where
  "is_revoked_now S cf grant_id token_hash =
     bindM (if cf_grant_cache cf then is_revoked S token_hash else ret False) (\<lambda>cached.
     if cached then ret True
     else
       bindM (select S (\<lambda>db. get_grant db grant_id)) (\<lambda>row.
       case row of
         None \<Rightarrow> ret True
       | Some g \<Rightarrow> ret (gr_revoked_at g \<noteq> None)))"

definition call_provider :: "('r, 'x) services \<Rightarrow> config \<Rightarrow> tool \<Rightarrow> string \<Rightarrow> dict \<Rightarrow> ('r, 'x, json) io" where
  "call_provider S cf tool access_token arguments =
     bindM (circuit_for (cf_settings cf) (tl_provider tool)) (\<lambda>circuit.
     call_with_retries S (bindM http (\<lambda>_. tool_call S tool access_token arguments))
       (outbound_max_retries (cf_settings cf)) (outbound_base_delay_seconds (cf_settings cf))
       (Some circuit) default_retryable)"

section \<open>Steps 7 to 10\<close>

text \<open>
  The loop around the provider call.  It goes round again only after setting
  \<open>refreshed\<close>, and only when it was not set: the first round with \<open>refreshed\<close>
  false is \<open>call_loop\<close>, the last one is \<open>last_call\<close>.
\<close>

definition call_failed :: "tool \<Rightarrow> real \<Rightarrow> exn \<Rightarrow> ('r, 'x, invoke_outcome) io" where
  "call_failed tool start e =
     (if broker_class e = Some ProviderCallError then failed (exn_str e) start
      else if broker_class e = Some ProviderUnavailableError then failed (exn_str e) start
      else if is_TimeoutException e then failed (tl_name tool @ '' timed out contacting the provider'') start
      else if is_TransportError e then failed (tl_name tool @ '' could not reach the provider'') start
      else if is_ValueError e then failed (tl_name tool @ '' returned a malformed response'') start
      else raise e)"

definition last_call :: "('r, 'x) services \<Rightarrow> config \<Rightarrow> tool \<Rightarrow> string \<Rightarrow> dict \<Rightarrow> real \<Rightarrow> ('r, 'x, invoke_outcome) io" where
  "last_call S cf tool access_token arguments start =
     bindM (tryM (call_provider S cf tool access_token arguments)) (\<lambda>r.
     case r of
       Inl e \<Rightarrow> call_failed tool start e
     | Inr result \<Rightarrow> outcome ''success'' result None None start False)"

definition call_loop :: "('r, 'x) services \<Rightarrow> config \<Rightarrow> uuid \<Rightarrow> string \<Rightarrow> connected_account \<Rightarrow> tool \<Rightarrow> bool
    \<Rightarrow> string \<Rightarrow> dict \<Rightarrow> real \<Rightarrow> ('r, 'x, invoke_outcome) io" where
  "call_loop S cf grant_id token_hash account tool refreshed access_token arguments start =
     bindM (tryM (call_provider S cf tool access_token arguments)) (\<lambda>r.
     case r of
       Inl e \<Rightarrow>
         if broker_class e = Some ProviderCallError \<and> status_code e = Some 401 \<and> \<not> refreshed \<and> can_refresh account then
           bindM (refresh_or_outcome S cf account start) (\<lambda>refresh_result.
           case refresh_result of
             Inl o' \<Rightarrow> ret o'
           | Inr new_token \<Rightarrow>
               bindM (is_revoked_now S cf grant_id token_hash) (\<lambda>revoked.
               if revoked then denied ''grant has been revoked'' ''revoked'' start
               else last_call S cf tool new_token arguments start))
         else call_failed tool start e
     | Inr result \<Rightarrow> outcome ''success'' result None None start False)"

definition usable_token :: "('r, 'x) services \<Rightarrow> config \<Rightarrow> connected_account \<Rightarrow> real
    \<Rightarrow> ('r, 'x, invoke_outcome + string \<times> bool) io" where
  "usable_token S cf account start =
     bindM utcnow (\<lambda>now.
     let expires_at = ensure_aware (ca_expires_at account);
         due = (\<lambda>margin. case expires_at of None \<Rightarrow> False | Some t \<Rightarrow> instant t \<le> instant now + margin * 1000000);
         stored =
           bindM (tryM (awaiting S AwaitThread (decrypt S (cf_cipher cf) (ca_encrypted_access_token account)))) (\<lambda>r.
           case r of
             Inl e \<Rightarrow>
               if is_ClientError e \<or> is_ValueError e
               then bindM (failed ''stored credential could not be decrypted'' start) (\<lambda>o'. ret (Inl o'))
               else raise e
           | Inr t \<Rightarrow> ret (Inr (t, False)))
     in
     if due REFRESH_EXPIRY_MARGIN then
       (if can_refresh account then
          bindM (refresh_or_outcome S cf account start) (\<lambda>refresh_result.
          case refresh_result of
            Inl o' \<Rightarrow> ret (Inl o')
          | Inr t \<Rightarrow> ret (Inr (t, True)))
        else if due 0 then
          bindM (failed ''connected account credential has expired and cannot be refreshed'' start) (\<lambda>o'. ret (Inl o'))
        else stored)
     else stored)"

definition execute_call :: "('r, 'x) services \<Rightarrow> config \<Rightarrow> grant \<Rightarrow> string \<Rightarrow> tool \<Rightarrow> dict \<Rightarrow> real
    \<Rightarrow> ('r, 'x, invoke_outcome) io" where
  "execute_call S cf g token_hash tool arguments start =
     bindM (select S (\<lambda>db. get_account db (gr_connected_account_id g))) (\<lambda>row.
     case row of
       None \<Rightarrow> failed ''connected account no longer exists'' start
     | Some account \<Rightarrow>
         bindM (usable_token S cf account start) (\<lambda>r.
         case r of
           Inl o' \<Rightarrow> ret o'
         | Inr (access_token, refreshed) \<Rightarrow>
             bindM (is_revoked_now S cf (gr_id g) token_hash) (\<lambda>revoked.
             if revoked then denied ''grant has been revoked'' ''revoked'' start
             else call_loop S cf (gr_id g) token_hash account tool refreshed access_token arguments start)))"

section \<open>Steps 3 to 6\<close>

definition full_key :: "grant \<Rightarrow> string \<Rightarrow> string \<Rightarrow> string" where
  "full_key g tool_name idempotency_key =
     uuid_str (gr_agent_id g) @ '':'' @ uuid_str (gr_connected_account_id g) @ '':'' @ tool_name @ '':'' @ idempotency_key"

definition finish_idempotent :: "('r, 'x) services \<Rightarrow> int \<Rightarrow> string \<Rightarrow> string \<Rightarrow> ('r, 'x, invoke_outcome) io
    \<Rightarrow> ('r, 'x, invoke_outcome) io" where
  "finish_idempotent S window key reservation m =
     bindM (catchM m (\<lambda>e.
       if is_Exception e then bindM (release S key (Some reservation)) (\<lambda>_. raise e) else raise e)) (\<lambda>o'.
     bindM (if io_status o' = ''success''
            then complete S window key (if json_truthy (io_result o') then io_result o' else JObj []) (Some reservation)
            else release S key (Some reservation)) (\<lambda>_.
     ret o'))"

definition with_idempotency :: "('r, 'x) services \<Rightarrow> config \<Rightarrow> grant \<Rightarrow> string \<Rightarrow> string option \<Rightarrow> real
    \<Rightarrow> ('r, 'x, invoke_outcome) io \<Rightarrow> ('r, 'x, invoke_outcome) io" where
  "with_idempotency S cf g tool_name idempotency_key start m =
     (case (idempotency_key, cf_idempotency cf) of
        (Some k, Some window) \<Rightarrow>
          (let key = full_key g tool_name k in
           bindM (tryM (idem_get S key)) (\<lambda>r.
           case r of
             Inl e \<Rightarrow>
               if broker_class e = Some IdempotencyConflictError
               then denied ''concurrent call with same idempotency key'' ''idempotency_conflict'' start
               else raise e
           | Inr cached \<Rightarrow>
               if cached \<noteq> JNull then outcome ''success'' cached None None start True
               else
                 bindM (reserve S key) (\<lambda>reservation.
                 case reservation of
                   None \<Rightarrow> denied ''concurrent call with same idempotency key'' ''idempotency_conflict'' start
                 | Some owner \<Rightarrow> finish_idempotent S window key owner m)))
      | _ \<Rightarrow> m)"

definition invoke_resolved :: "('r, 'x) services \<Rightarrow> config \<Rightarrow> grant \<Rightarrow> string \<Rightarrow> string \<Rightarrow> dict \<Rightarrow> string option
    \<Rightarrow> bool \<Rightarrow> real \<Rightarrow> ('r, 'x, invoke_outcome) io" where
  "invoke_resolved S cf g token_hash tool_name arguments idempotency_key fast_revoked start =
     (if fast_revoked \<or> gr_revoked_at g \<noteq> None then denied ''grant has been revoked'' ''revoked'' start
      else
      bindM utcnow (\<lambda>now.
      if instant (gr_expires_at g) \<le> instant now then denied ''grant has expired'' ''expired'' start
      else
      bindM (if cf_rate_limiter cf
             then check S (''invoke:'' @ uuid_str (gr_agent_id g)) (invokes_per_minute_per_agent (cf_settings cf)) 60
             else ret True) (\<lambda>allowed.
      if \<not> allowed then
        bindM (inc (RATE_LIMITED ''invoke_tool'')) (\<lambda>_.
        denied ''invoke rate limit exceeded'' ''rate_limited'' start)
      else
        (case get_tool (cf_tools cf) tool_name of
           Inl e \<Rightarrow> denied (exn_str e) ''not_found'' start
         | Inr tool \<Rightarrow>
             if gr_scope g \<noteq> tl_scope tool then
               denied (''grant scope '' @ py_repr (gr_scope g) @ '' does not match tool scope '' @ py_repr (tl_scope tool))
                 ''scope_mismatch'' start
             else
               with_idempotency S cf g tool_name idempotency_key start
                 (execute_call S cf g token_hash tool arguments start)))))"

section \<open>invoke\<close>

definition invoke_grant :: "('r, 'x) services \<Rightarrow> config \<Rightarrow> grant \<Rightarrow> string \<Rightarrow> string \<Rightarrow> dict \<Rightarrow> string option
    \<Rightarrow> bool \<Rightarrow> real \<Rightarrow> ('r, 'x, invoke_outcome) io" where
  "invoke_grant S cf g token_hash tool_name arguments idempotency_key fast_revoked start =
     bindM (catchM (invoke_resolved S cf g token_hash tool_name arguments idempotency_key fast_revoked start)
       (\<lambda>e.
          if is_Exception e then
            bindM (rollback S) (\<lambda>_. failed ''internal error during tool invocation'' start)
          else raise e)) (\<lambda>o'.
     bindM (record_call S (gr_id g) tool_name arguments (io_status o') (io_latency_ms o')) (\<lambda>_.
     ret o'))"

text \<open>The body of \<open>async with self._session_factory()\<close>.\<close>

definition resolve_and_invoke :: "('r, 'x) services \<Rightarrow> config \<Rightarrow> string \<Rightarrow> string \<Rightarrow> dict \<Rightarrow> string option \<Rightarrow> real
    \<Rightarrow> ('r, 'x, invoke_outcome) io" where
  "resolve_and_invoke S cf token_hash tool_name arguments idempotency_key start =
     bindM (if cf_grant_cache cf then is_revoked S token_hash else ret False) (\<lambda>fast_revoked.
     bindM (select S (\<lambda>db. grants_by_hash db token_hash)) (\<lambda>rows.
     bindM (liftE (scalar_one_or_none rows)) (\<lambda>row.
     case row of
       None \<Rightarrow> denied ''grant not found'' ''not_found'' start
     | Some g \<Rightarrow> invoke_grant S cf g token_hash tool_name arguments idempotency_key fast_revoked start)))"

definition invoke :: "('r, 'x) services \<Rightarrow> config \<Rightarrow> string \<Rightarrow> string \<Rightarrow> dict \<Rightarrow> string option
    \<Rightarrow> ('r, 'x, invoke_outcome) io" where
  "invoke S cf grant_token tool_name arguments idempotency_key =
     bindM monotonic (\<lambda>start.
     bindM (tryM (verify_grant_token S grant_token (cf_settings cf))) (\<lambda>verified.
     case verified of
       Inl e \<Rightarrow>
         if broker_class e = Some GrantExpiredError then denied (exn_str e) ''expired'' start
         else if broker_class e = Some GrantTokenInvalidError then denied (exn_str e) ''invalid_token'' start
         else raise e
     | Inr claims \<Rightarrow>
         if tool_name \<noteq> cl_tool_name claims then
           denied ''grant token is not valid for this tool'' ''tool_mismatch'' start
         else
           (let token_hash = hash_token S grant_token in
            with_session (resolve_and_invoke S cf token_hash tool_name arguments idempotency_key start))))"

section \<open>Frames\<close>

lemma keeps_scrub [wp]: "keeps I (scrub msg)"
  unfolding scrub_def by (intro wp)

lemma keeps_outcome [wp]: "keeps I (outcome st res err reason start c)"
  unfolding outcome_def by (intro wp)

lemma keeps_http [wp]: "score I \<Longrightarrow> keeps I http"
  by (erule keeps_score) (simp_all add: http_def Let_def split: option.split)

lemma keeps_circuit_ops [wp]:
  assumes "score I"
  shows "keeps I (co_allow (circuit_object p))" "keeps I (co_record_success (circuit_object p))"
    "keeps I (co_record_failure (circuit_object p))"
  unfolding circuit_object_def using keeps_on_circuit [OF assms] by simp_all

lemma keeps_attempts:
  assumes "env_stable S I" and "score I" and "keeps I fn"
    and "\<And>w d. I w \<Longrightarrow> I (w\<lparr>w_trace := w_trace w @ [EvSleep d]\<rparr>)"
  shows "keeps I (attempts S fn m base (Some (circuit_object p)) retryable i n)"
proof (induction n arbitrary: i)
  case 0
  show ?case unfolding attempts.simps by (intro wp)
next
  case (Suc n)
  then show ?case
    unfolding attempts.simps option.case by (intro wp keeps_sleep assms)
qed

lemma triple_circuit_for:
  "score I \<Longrightarrow> triple I (circuit_for st p) (\<lambda>c w. I w \<and> c = circuit_object p) (\<lambda>_. I)"
  unfolding circuit_for_def
  by (auto simp: triple_def bindM_def score_def split: option.splits sum.splits)

lemma keeps_is_revoked_now [wp]:
  "env_stable S I \<Longrightarrow> score I \<Longrightarrow> keeps I (is_revoked_now S cf gid h)"
  unfolding is_revoked_now_def by (intro wp; simp)

text \<open>
  Invariants of the call path.  Such a predicate speaks of rows and effects, and the
  environment keeps it; it survives the requests to the provider and the back-off;
  it survives the request to the token endpoint and the update of the account's own
  row.  The operations then keep it, each under as much of this as it needs.
\<close>

locale row_invariant =
  fixes S :: "('r, 'x) services" and I :: "('r, 'x) world \<Rightarrow> bool"
  assumes I_core: "core I" and I_stable: "env_stable S I"
begin

lemma I_score: "score I"
  using I_core by simp

lemma keeps_call_failed: "keeps I (call_failed tool start e)"
  unfolding call_failed_def by (intro wp)

lemma keeps_with_idempotency:
  assumes "keeps I m"
  shows "keeps I (with_idempotency S cf g tn k start m)"
  unfolding with_idempotency_def finish_idempotent_def Let_def
  by (cases k; cases "cf_idempotency cf"; simp; intro wp assms I_stable I_score)

end

locale provider_invariant = row_invariant +
  assumes I_get: "\<And>w u h p. I w \<Longrightarrow> I (w\<lparr>w_trace := w_trace w @ [EvHttp (HttpGet u h p)]\<rparr>)"
    and I_sleep: "\<And>w d. I w \<Longrightarrow> I (w\<lparr>w_trace := w_trace w @ [EvSleep d]\<rparr>)"
begin

lemma keeps_call_provider: "keeps I (call_provider S cf tool tok args)"
proof -
  have fn: "keeps I (bindM http (\<lambda>_. tool_call S tool tok args))"
    using I_get by (intro wp keeps_tool_call I_stable I_score; simp add: drive_request_def)
  have "triple (\<lambda>w. I w \<and> c = circuit_object p)
      (call_with_retries S (bindM http (\<lambda>_. tool_call S tool tok args)) m b (Some c) default_retryable) (\<lambda>_. I) (\<lambda>_. I)" for c p m b
  proof (cases "c = circuit_object p")
    case True
    have "keeps I (call_with_retries S (bindM http (\<lambda>_. tool_call S tool tok args)) m b (Some (circuit_object p)) default_retryable)"
      unfolding call_with_retries_def
      by (intro triple_if triple_raise keeps_attempts I_stable I_sleep I_score fn)
    with True show ?thesis by simp
  qed (simp add: triple_def)
  then show ?thesis
    unfolding call_provider_def by (intro triple_bindM [OF triple_circuit_for [OF I_score]])
qed

lemma keeps_last_call: "keeps I (last_call S cf tool tok args start)"
  unfolding last_call_def by (intro wp keeps_call_provider keeps_call_failed)

end

locale refresh_invariant = row_invariant +
  assumes I_post: "\<And>w u d. I w \<Longrightarrow> I (w\<lparr>w_trace := w_trace w @ [EvHttp (HttpPost u d)]\<rparr>)"
    and I_update: "\<And>w cs db. I w \<Longrightarrow> update_accounts cs (w_db w) = Inr db \<Longrightarrow>
      I (w\<lparr>w_db := db, w_trace := w_trace w, w_dirty := [], w_locked := None\<rparr>)"
begin

lemma keeps_refresh_credential: "keeps I (refresh_credential S cf account)"
proof -
  have c: "keeps I (commit S Inr [])"
    by (rule keeps_commit [OF I_stable I_core]) (use I_update in auto)
  show ?thesis
    unfolding refresh_credential_def
    using I_post by (intro wp keeps_refresh_access_token c I_stable I_core I_score; simp add: refresh_request_def)
qed

lemma keeps_refresh_or_outcome: "keeps I (refresh_or_outcome S cf account start)"
  unfolding refresh_or_outcome_def by (intro wp keeps_refresh_credential)

lemma keeps_usable_token: "keeps I (usable_token S cf account start)"
  unfolding usable_token_def Let_def
  by (intro wp keeps_refresh_or_outcome I_stable I_score)

end

locale call_invariant = provider_invariant + refresh_invariant
begin

lemma keeps_call_loop: "keeps I (call_loop S cf gid h account tool refreshed tok args start)"
  unfolding call_loop_def
  by (intro wp keeps_call_provider keeps_call_failed keeps_refresh_or_outcome keeps_last_call I_stable I_score)

lemma keeps_execute_call: "keeps I (execute_call S cf g h tool args start)"
  unfolding execute_call_def
  by (intro wp keeps_usable_token keeps_call_loop I_stable I_score)

lemma keeps_invoke_resolved: "keeps I (invoke_resolved S cf g h tn args k fast start)"
  unfolding invoke_resolved_def
  by (intro wp keeps_with_idempotency keeps_execute_call I_stable I_score)

text \<open>With the backstop of \<open>invoke\<close> around it.\<close>

lemma keeps_backstop:
  "keeps I (catchM (invoke_resolved S cf g h tn args k fast start)
     (\<lambda>e. if is_Exception e then bindM (rollback S) (\<lambda>_. failed msg start) else raise e))"
  by (intro wp keeps_invoke_resolved I_stable I_core)

end

end
