(* ===== verification/Cb_Invoke_Runs.thy ===== *)
theory Cb_Invoke_Runs
  imports Cb_Invoke
begin

text \<open>
  Concrete runs of \<open>invoke\<close> on the sample services: a live grant, its token, and the
  steps of a successful call.
\<close>

section \<open>A live grant and its token\<close>

definition sample_token :: string where
  "sample_token = ''key'' @ dumps default_opts (JObj (token_payload sample_settings 7 8 ''drive.read'' ''read''
     (Aware 1700000000000000) (Aware 1700000300000000)))"

definition sample_grant :: grant where
  "sample_grant = new_grant 7 8 9 ''drive.read'' ''read'' (hash_token sample_services sample_token)
     (Aware 1700000000000000) (Aware 1700000300000000)"

definition sample_live :: "(memory, nat) world" where
  "sample_live = sample_start\<lparr>w_db := sample_db\<lparr>db_grants := [sample_grant]\<rparr>\<rparr>"

lemma sample_grant_sel [simp]:
  "gr_id sample_grant = 7" "gr_agent_id sample_grant = 8" "gr_connected_account_id sample_grant = 9"
  "gr_scope sample_grant = ''read''" "gr_revoked_at sample_grant = None" "gr_tool_name sample_grant = ''drive.read''"
  "gr_expires_at sample_grant = Aware 1700000300000000" "gr_token_hash sample_grant = hash_token sample_services sample_token"
  by (simp_all add: sample_grant_def new_grant_def)

lemma sample_live_sel [simp]:
  "w_db sample_live = sample_db\<lparr>db_grants := [sample_grant]\<rparr>" "w_now sample_live = 1700000000000000" "w_mono sample_live = 0"
  "w_dirty sample_live = []" "w_trace sample_live = []" "w_ext sample_live = 1" "w_secrets sample_live = []"
  "w_circuits sample_live = (\<lambda>_. None)" "w_http_client sample_live = None" "w_closed_clients sample_live = []"
  by (simp_all add: sample_live_def sample_start_def)

lemma sample_live_rows [simp]:
  "grants_by_hash (sample_db\<lparr>db_grants := [sample_grant]\<rparr>) (hash_token sample_services sample_token) = [sample_grant]"
  "get_grant (sample_db\<lparr>db_grants := [sample_grant]\<rparr>) 7 = Some sample_grant"
  "get_account (sample_db\<lparr>db_grants := [sample_grant]\<rparr>) 9 = Some sample_account"
  by (simp_all add: grants_by_hash_def get_grant_def get_account_def sample_db_def sample_account_def)

lemma sample_token_verifies:
  "verify_at sample_services sample_token sample_settings 1700000000000000 =
     Inr \<lparr>cl_grant_id = 7, cl_agent_id = 8, cl_tool_name = ''drive.read'', cl_scope = ''read''\<rparr>"
proof -
  have t: "sign_grant_token sample_services sample_settings 7 8 ''drive.read'' ''read''
      (Aware 1700000000000000) (Aware 1700000300000000) = Inr sample_token"
    by (simp add: sign_grant_token_def sample_jwt_encode_def sample_token_def)
  have "list_all (\<lambda>k. utf8_ok (map code k)) [''credbroker'', ''drive.read'', ''read'']" by code_simp
  then have u: "utf8_ok (map code (jwt_issuer sample_settings))" "utf8_ok (map code ''drive.read'')" "utf8_ok (map code ''read'')"
    by (simp_all add: default_settings_def)
  show ?thesis by (rule sample_jwt.signed_accepted [OF _ t u]) (simp_all add: epoch_seconds_def)
qed

section \<open>The steps of a successful call\<close>

lemma sample_plain: "utf8_decode ''ya29.token'' = Some ''ya29.token''" "py_len ''ya29.token'' = 10"
  by code_simp+

lemma decrypt_sample:
  assumes "w_secrets w = []"
  shows "decrypt sample_services sample_key (ca_encrypted_access_token sample_account) w =
     (Inr ''ya29.token'', w\<lparr>w_secrets := [''ya29.token'']\<rparr>)"
proof -
  let ?k = "replicate 12 CHR ''n'' @ replicate 32 CHR ''k'' @ replicate 16 CHR ''m''"
  let ?blob = "''CB1'' @ pack_H 60 @ ?k @ replicate 12 CHR ''o'' @ ''ya29.token'' @ replicate 16 CHR ''k''"
  have b: "ca_encrypted_access_token sample_account = ?blob" by (simp add: sample_account_def)
  have parts: "length ?blob = 103" "take 3 ?blob = MAGIC" "unpack_H (drop 3 ?blob) = 60" "take 60 (drop 5 ?blob) = ?k"
    "take 12 (drop 65 ?blob) = replicate 12 CHR ''o''" "drop 77 ?blob = ''ya29.token'' @ replicate 16 CHR ''k''"
    by code_simp+
  have dk: "decrypt_data_key sample_services sample_key ?k w = (Inr (replicate 32 CHR ''k''), w)"
    by (simp add: sample_key_def kms_sizes sample_decrypt_def sample_tag_def)
  show ?thesis
    unfolding decrypt_def b using parts dk assms
    by (simp add: kms_sizes Let_def sample_decrypt_def sample_tag_def sample_plain register_secret_def registered_def
        MIN_SECRET_LEN_def add_secret_def)
qed

lemma sample_listing:
  "response_json JNonFinite \<lparr>rs_status_code = 200, rs_content = dumps default_opts (JObj [(''files'', JList [])])\<rparr> =
     Inr (JObj [(''files'', JList [])])"
  "drive_params [] = Inr [(''pageSize'', ''25''), (''fields'', ''nextPageToken,files(id,name,mimeType,modifiedTime)'')]"
  by code_simp+

abbreviation sample_get :: http_request where
  "sample_get \<equiv> drive_request DriveListFilesTool ''ya29.token''
     [(''pageSize'', ''25''), (''fields'', ''nextPageToken,files(id,name,mimeType,modifiedTime)'')]"

lemma http_send_quiet:
  "quiet S \<Longrightarrow> http_send S q w = (case sv_http S q (w_ext w) of (r, x) \<Rightarrow> (r, w\<lparr>w_trace := w_trace w @ [EvHttp q], w_ext := x\<rparr>))"
  by (simp add: http_send_def awaiting_quiet split: prod.split)

lemma sample_tool_call:
  "tool_call sample_services DriveListFilesTool ''ya29.token'' [] w =
     (Inr (JObj [(''files'', JList [])]), w\<lparr>w_trace := w_trace w @ [EvHttp sample_get]\<rparr>)"
  by (simp add: tool_call_def sample_listing http_send_quiet drive_request_def drive_result_def del: dumps.simps)

text \<open>A process that has not yet called anyone, under the sample settings.\<close>

definition idle :: "(memory, nat) world \<Rightarrow> bool" where
  "idle w \<longleftrightarrow> w_circuits w = (\<lambda>_. None) \<and> w_http_client w = None \<and> w_closed_clients w = [] \<and> w_secrets w = [] \<and>
     w_mono w = 0 \<and> w_db w = sample_db\<lparr>db_grants := [sample_grant]\<rparr>"

definition plain :: "config \<Rightarrow> bool" where
  "plain cf \<longleftrightarrow> cf_settings cf = sample_settings \<and> cf_cipher cf = sample_key \<and> \<not> cf_grant_cache cf"

lemma sample_idle [simp]: "idle sample_live" "plain sample_config"
  by (simp_all add: idle_def plain_def)

lemma sample_call_provider:
  assumes "w_circuits w = (\<lambda>_. None)" and "w_http_client w = None" and "w_closed_clients w = []" and "cf_settings cf = sample_settings"
  shows "\<exists>w'. call_provider sample_services cf DriveListFilesTool ''ya29.token'' [] w =
     (Inr (JObj [(''files'', JList [])]), w') \<and> w_trace w' = w_trace w @ [EvHttp sample_get] \<and>
     w_db w' = w_db w \<and> w_now w' = w_now w \<and> w_dirty w' = w_dirty w \<and> w_ext w' = w_ext w \<and> w_redis w' = w_redis w \<and>
     w_secrets w' = w_secrets w \<and> w_mono w' = w_mono w"
  using assms
  by (simp add: call_provider_def circuit_for_def new_circuit_def default_settings_def call_with_retries_def
      circuit_object_def on_circuit_def bindM_def tryM_def allow_def sync_def http_def Let_def sample_tool_call record_success_def eval_nat_numeral)

section \<open>A whole invocation\<close>

lemma sample_execute:
  assumes "idle w" and "plain cf"
  shows "\<exists>o' w'. execute_call sample_services cf sample_grant h DriveListFilesTool [] 0 w = (Inr o', w') \<and>
     io_status o' = ''success'' \<and> io_result o' = JObj [(''files'', JList [])] \<and> io_latency_ms o' = 0 \<and> \<not> io_from_cache o' \<and>
     w_trace w' = w_trace w @ [EvHttp sample_get] \<and> w_db w' = w_db w \<and> w_now w' = w_now w \<and> w_dirty w' = w_dirty w \<and>
     w_ext w' = w_ext w \<and> w_redis w' = w_redis w"
proof -
  have a: "ca_expires_at sample_account = None" by (simp add: sample_account_def)
  let ?w = "w\<lparr>w_secrets := [''ya29.token'']\<rparr>"
  obtain w' where c: "call_provider sample_services cf DriveListFilesTool ''ya29.token'' [] ?w = (Inr (JObj [(''files'', JList [])]), w')"
    and f: "w_trace w' = w_trace w @ [EvHttp sample_get]" "w_db w' = w_db w" "w_now w' = w_now w" "w_dirty w' = w_dirty w"
      "w_ext w' = w_ext w" "w_redis w' = w_redis w" "w_mono w' = w_mono w"
    using sample_call_provider [of ?w cf] assms by (auto simp: idle_def plain_def)
  have "execute_call sample_services cf sample_grant h DriveListFilesTool [] 0 w =
      (Inr \<lparr>io_status = ''success'', io_result = JObj [(''files'', JList [])], io_error = None, io_latency_ms = elapsed_ms 0 0,
         io_from_cache = False, io_denied_reason = None\<rparr>, w')"
    using c f(7) assms
    by (simp add: execute_call_def usable_token_def utcnow_run a bindM_def select_quiet awaiting_quiet tryM_def decrypt_sample
        is_revoked_now_def call_loop_def outcome_def monotonic_def idle_def plain_def)
  then show ?thesis using f by (simp add: elapsed_ms_def)
qed

lemma sample_invoke:
  "\<exists>o' w' row. invoke sample_services sample_config sample_token ''drive.read'' [] None sample_live = (Inr o', w') \<and>
     io_status o' = ''success'' \<and> io_result o' = JObj [(''files'', JList [])] \<and>
     w_trace w' = [EvHttp sample_get, EvAudit row] \<and> db_audit (w_db w') = [row]"
proof -
  let ?h = "hash_token sample_services sample_token"
  let ?w0 = "sample_live\<lparr>w_dirty := [], w_locked := None\<rparr>"
  have w0: "?w0 = sample_live" by (simp add: sample_live_def sample_start_def sample_world_def fresh_world_def)
  obtain o' w1 where e: "execute_call sample_services sample_config sample_grant ?h DriveListFilesTool [] 0 sample_live = (Inr o', w1)"
    and f: "io_status o' = ''success''" "io_result o' = JObj [(''files'', JList [])]" "io_latency_ms o' = 0" "w_trace w1 = [EvHttp sample_get]"
      "w_db w1 = w_db sample_live" "w_now w1 = w_now sample_live" "w_dirty w1 = []" "w_ext w1 = 1"
    using sample_execute [of sample_live sample_config ?h] by auto
  have r: "invoke_resolved sample_services sample_config sample_grant ?h ''drive.read'' [] None False 0 sample_live = (Inr o', w1)"
    using e by (simp add: invoke_resolved_def utcnow_run bindM_def with_idempotency_def)
  let ?row = "\<lparr>au_id = 1, au_grant_id = 7, au_tool_name = ''drive.read'', au_arguments_hash = hash_arguments sample_services [],
     au_status = ''success'', au_latency_ms = 0, au_called_at = Aware 1700000000000000\<rparr>"
  let ?db = "sample_db\<lparr>db_grants := [sample_grant], db_audit := [?row]\<rparr>"
  have ins: "insert_audit ?row (w_db sample_live) = Inr ?db"
    by (simp add: insert_audit_def sample_db_def empty_db_def) (simp add: get_grant_def)
  have "invoke_grant sample_services sample_config sample_grant ?h ''drive.read'' [] None False 0 sample_live =
      (Inr o', w1\<lparr>w_ext := 2, w_db := ?db, w_trace := [EvHttp sample_get, EvAudit ?row], w_dirty := [], w_locked := None\<rparr>)"
    using r f ins by (simp add: invoke_grant_def record_call_def uuid4_run utcnow_run Let_def commit_quiet bindM_def catchM_def)
  then have "invoke sample_services sample_config sample_token ''drive.read'' [] None sample_live =
      (Inr o', w1\<lparr>w_ext := 2, w_db := ?db, w_trace := [EvHttp sample_get, EvAudit ?row], w_dirty := [], w_locked := None\<rparr>)"
    by (simp add: invoke_def monotonic_def bindM_def tryM_def verify_run sample_token_verifies with_session_def end_transaction_def
        w0 catchM_def resolve_and_invoke_def select_quiet Let_def)
  then show ?thesis using f by auto
qed

end
