(* ===== verification/Cb_Invoke_Safety.thy ===== *)
theory Cb_Invoke_Safety
  imports Cb_Invoke_Runs
begin

text \<open>
  What \<open>InvokeService.invoke\<close> guarantees however its awaits interleave with the
  rest of the system: one audit row per resolved call, no provider request under a
  revoked grant, and a bound on the requests it sends.
\<close>

section \<open>Outcomes\<close>

lemma outcome_run [prog_simps]:
  "outcome st res err reason start c w =
     (Inr \<lparr>io_status = st, io_result = res, io_error = map_option (scrub_with (w_secrets w)) err,
           io_latency_ms = elapsed_ms (w_mono w) start, io_from_cache = c, io_denied_reason = reason\<rparr>, w)"
  by (cases err) (simp_all add: outcome_def scrub_def monotonic_def)

lemma triple_outcome:
  assumes "\<And>o' w. P w \<Longrightarrow> io_status o' = st \<Longrightarrow> io_result o' = res \<Longrightarrow> io_denied_reason o' = reason \<Longrightarrow> io_from_cache o' = c \<Longrightarrow> Q o' w"
  shows "triple P (outcome st res err reason start c) Q E"
  using assms by (simp add: triple_def outcome_run)

section \<open>Audit rows\<close>

definition audit_rows :: "event list \<Rightarrow> audit_row list" where
  "audit_rows evs = List.map_filter (\<lambda>e. case e of EvAudit row \<Rightarrow> Some row | _ \<Rightarrow> None) evs"

lemma audit_rows_simps [simp]:
  "audit_rows [] = []" "audit_rows (EvAudit row # evs) = row # audit_rows evs"
  "audit_rows (EvHttp q # evs) = audit_rows evs" "audit_rows (EvSleep d # evs) = audit_rows evs"
  "audit_rows (EvGrant g # evs) = audit_rows evs"
  by (simp_all add: audit_rows_def map_filter_simps)

lemma audit_rows_append [simp]: "audit_rows (xs @ ys) = audit_rows xs @ audit_rows ys"
  by (induction xs) (auto simp: audit_rows_def map_filter_simps split: option.split)

text \<open>The audit rows committed since the trace was \<open>t0\<close>.\<close>

definition audits :: "event list \<Rightarrow> (audit_row list \<Rightarrow> bool) \<Rightarrow> ('r, 'x) world \<Rightarrow> bool" where
  "audits t0 ok w \<longleftrightarrow> (\<exists>evs. w_trace w = t0 @ evs \<and> ok (audit_rows evs))"

lemma audits_stable [simp]: "env_stable S (audits t0 ok)"
  by (simp add: env_stable_def audits_def)

lemma audits_core [simp]: "core (audits t0 ok)"
  by (simp add: core_def audits_def)

lemma audits_mono: "audits t0 ok w \<Longrightarrow> (\<And>rs. ok rs \<Longrightarrow> ok' rs) \<Longrightarrow> audits t0 ok' w"
  by (auto simp: audits_def)

lemma audits_step:
  "audits t0 ok w \<Longrightarrow> audits t0 (\<lambda>rs. \<exists>rs'. ok rs' \<and> rs = rs' @ audit_rows evs) (w\<lparr>w_trace := w_trace w @ evs\<rparr>)"
  unfolding audits_def by fastforce

lemma audits_silent: "audits t0 ok w \<Longrightarrow> audit_rows evs = [] \<Longrightarrow> audits t0 ok (w\<lparr>w_trace := w_trace w @ evs\<rparr>)"
  by (drule audits_step [where evs = evs]) (auto elim: audits_mono)

lemma audits_other: "audits t0 ok w \<Longrightarrow> w_trace w' = w_trace w \<Longrightarrow> audits t0 ok w'"
  by (simp add: audits_def)

interpretation unaudited: call_invariant S "audits t0 ok" for S :: "('r, 'x) services" and t0 ok
  by unfold_locales (auto intro: audits_silent elim: audits_other)

definition is_record :: "('r, 'x) services \<Rightarrow> string \<Rightarrow> dict \<Rightarrow> string \<Rightarrow> int \<Rightarrow> audit_row \<Rightarrow> bool" where
  "is_record S tn args st lat row \<longleftrightarrow>
     au_tool_name row = tn \<and> au_arguments_hash row = hash_arguments S args \<and> au_status row = st \<and> au_latency_ms row = lat"

abbreviation few :: "audit_row list \<Rightarrow> bool" where
  "few rs \<equiv> length rs < 2"

lemma audits_few: "audits t0 (\<lambda>rs. rs = []) w \<Longrightarrow> audits t0 few w"
  by (erule audits_mono) simp

lemma record_call_audits:
  fixes S :: "('r, 'x) services"
  shows "triple (audits t0 (\<lambda>rs. rs = [])) (record_call S gid tn args st lat)
     (\<lambda>_. audits t0 (\<lambda>rs. \<exists>row. rs = [row] \<and> au_grant_id row = gid \<and> is_record S tn args st lat row)) (\<lambda>_. audits t0 few)"
proof -
  let ?Q = "audits t0 (\<lambda>rs. \<exists>row. rs = [row] \<and> au_grant_id row = gid \<and> is_record S tn args st lat row) :: ('r, 'x) world \<Rightarrow> bool"
  have c: "triple (audits t0 (\<lambda>rs. rs = [])) (commit S (insert_audit row) [EvAudit row]) (\<lambda>_. ?Q) (\<lambda>_. audits t0 few)"
    if "au_grant_id row = gid" "is_record S tn args st lat row" for row
  proof (rule triple_commit; simp?)
    fix w :: "('r, 'x) world" and db db' assume "audits t0 (\<lambda>rs. rs = []) w"
    then show "?Q (w\<lparr>w_db := db', w_trace := w_trace w @ [EvAudit row], w_dirty := [], w_locked := None\<rparr>)"
      using that by (auto simp: audits_def)
  qed (auto elim: audits_mono)
  have u: "triple (audits t0 (\<lambda>rs. rs = [])) (uuid4 S) (\<lambda>_. audits t0 (\<lambda>rs. rs = [])) (\<lambda>_. audits t0 few)"
    by (rule keeps_weaken [OF keeps_random(1)]) (simp, erule audits_few)
  have t: "triple (audits t0 (\<lambda>rs. rs = [])) utcnow (\<lambda>_. audits t0 (\<lambda>rs. rs = [])) (\<lambda>_. audits t0 few)"
    by (rule keeps_weaken [OF keeps_pure(3)]) (erule audits_few)
  show ?thesis
    unfolding record_call_def Let_def
    by (rule triple_bindM [OF u], rule triple_bindM [OF t], rule triple_bindM [OF c])
      (auto simp: is_record_def intro: wp)
qed


text \<open>The call of a resolved grant: one row when it returns, at most one however it ends.\<close>

lemma invoke_grant_audits:
  fixes S :: "('r, 'x) services"
  shows "triple (audits t0 (\<lambda>rs. rs = [])) (invoke_grant S cf g h tn args k fast start)
    (\<lambda>o'. audits t0 (\<lambda>rs. \<exists>row. rs = [row] \<and> au_grant_id row = gr_id g \<and> is_record S tn args (io_status o') (io_latency_ms o') row))
    (\<lambda>_. audits t0 few)"
proof -
  have m: "triple (audits t0 (\<lambda>rs. rs = [])) (catchM (invoke_resolved S cf g h tn args k fast start)
      (\<lambda>e. if is_Exception e then bindM (rollback S) (\<lambda>_. failed ''internal error during tool invocation'' start) else raise e))
      (\<lambda>_. audits t0 (\<lambda>rs. rs = [])) (\<lambda>_. audits t0 few)"
    by (rule keeps_weaken [OF unaudited.keeps_backstop]) (erule audits_few)
  show ?thesis
    unfolding invoke_grant_def
    by (rule triple_bindM [OF m], rule triple_bindM [OF record_call_audits], rule triple_ret)
qed

text \<open>Before a grant is resolved nothing happens outside.\<close>

definition silent :: "event list \<Rightarrow> ('r, 'x) world \<Rightarrow> bool" where
  "silent t0 w \<longleftrightarrow> w_trace w = t0"

lemma silent_facts [simp]: "core (silent t0)" "env_stable S (silent t0)" "silent (w_trace w) w"
  by (simp_all add: core_def env_stable_def silent_def)

interpretation before_resolution: row_invariant S "silent t0" for S :: "('r, 'x) services" and t0
  by unfold_locales simp_all

definition resolution_reasons :: "string list" where
  "resolution_reasons = [''expired'', ''invalid_token'', ''tool_mismatch'', ''not_found'']"

text \<open>
  The row that resolves a call: the one its first read of the grants finds, after a token
  that verifies for the tool, at whatever moment of the interleaving that read takes place.
\<close>

definition first_read :: "('r, 'x) services \<Rightarrow> config \<Rightarrow> string \<Rightarrow> ('r, 'x, bool \<times> grant list) io" where
  "first_read S cf h =
     bindM (if cf_grant_cache cf then is_revoked S h else ret False) (\<lambda>fast.
     bindM (select S (\<lambda>db. grants_by_hash db h)) (\<lambda>rows.
     ret (fast, rows)))"

definition resolved_grant :: "('r, 'x) services \<Rightarrow> config \<Rightarrow> string \<Rightarrow> string \<Rightarrow> ('r, 'x) world \<Rightarrow> grant option" where
  "resolved_grant S cf token tn w =
     (case verify_at S token (cf_settings cf) (w_now w) of
        Inl _ \<Rightarrow> None
      | Inr claims \<Rightarrow>
          if cl_tool_name claims \<noteq> tn then None
          else (case fst (first_read S cf (hash_token S token) (w\<lparr>w_dirty := [], w_locked := None\<rparr>)) of
                  Inr (_, [g]) \<Rightarrow> Some g
                | _ \<Rightarrow> None))"

lemma first_read_silent: "w_trace (snd (first_read S cf h w)) = w_trace w"
proof -
  have "keeps (silent (w_trace w)) (first_read S cf h)" unfolding first_read_def by (intro wp; simp)
  from keepsD [OF this silent_facts(3)] show ?thesis by (simp add: silent_def)
qed

lemma resolve_first:
  "resolve_and_invoke S cf h tn args k start = bindM (first_read S cf h) (\<lambda>(fast, rows).
     bindM (liftE (scalar_one_or_none rows)) (\<lambda>row.
     case row of None \<Rightarrow> denied ''grant not found'' ''not_found'' start | Some g \<Rightarrow> invoke_grant S cf g h tn args k fast start))"
  by (simp add: resolve_and_invoke_def first_read_def bindM_assoc bindM_ret_left)

lemma session_run:
  "with_session m w = (case m (w\<lparr>w_dirty := [], w_locked := None\<rparr>) of (r, w') \<Rightarrow> (r, w'\<lparr>w_dirty := [], w_locked := None\<rparr>))"
  by (simp add: with_session_def end_transaction_def bindM_def catchM_def split: prod.split sum.split)

text \<open>The invocation, with its resolution in one place.\<close>

lemma invoke_verified:
  assumes "verify_at S token (cf_settings cf) (w_now w) = Inr claims" and "cl_tool_name claims = tn"
  shows "invoke S cf token tn args k w = with_session (resolve_and_invoke S cf (hash_token S token) tn args k (w_mono w)) w"
  using assms by (simp add: invoke_def monotonic_def tryM_def bindM_def verify_run Let_def)

lemma invoke_unresolved:
  assumes "resolved_grant S cf token tn w = None"
  shows "case invoke S cf token tn args k w of (r, w') \<Rightarrow> w_trace w' = w_trace w \<and>
    (case r of Inr o' \<Rightarrow> io_status o' = ''denied'' \<and> io_denied_reason o' \<in> Some ` set resolution_reasons | Inl e \<Rightarrow> True)"
proof (cases "\<exists>claims. verify_at S token (cf_settings cf) (w_now w) = Inr claims \<and> cl_tool_name claims = tn")
  case False
  then show ?thesis
    by (auto simp: invoke_def monotonic_def tryM_def bindM_def verify_run outcome_run resolution_reasons_def split: sum.split)
next
  case True
  let ?h = "hash_token S token" and ?w = "w\<lparr>w_dirty := [], w_locked := None\<rparr>"
  obtain q w2 where q: "first_read S cf ?h ?w = (q, w2)" by force
  have t: "w_trace w2 = w_trace w" using first_read_silent [of S cf ?h ?w] q by simp
  have i: "invoke S cf token tn args k w = with_session (resolve_and_invoke S cf ?h tn args k (w_mono w)) w"
    using True invoke_verified by blast
  have n: "\<And>fast g. q \<noteq> Inr (fast, [g])" using assms True q by (auto simp: resolved_grant_def)
  show ?thesis
  proof (cases q)
    case (Inl e)
    then show ?thesis using q t by (simp add: i session_run resolve_first)
  next
    case (Inr p)
    obtain fast rows where p: "p = (fast, rows)" by force
    then have "rows \<noteq> [hd rows]" using n Inr by blast
    then show ?thesis
      using q t Inr p by (cases rows rule: scalar_one_or_none.cases)
        (simp_all add: i session_run resolve_first outcome_run resolution_reasons_def)
  qed
qed

lemma invoke_resolves:
  assumes "resolved_grant S cf token tn w = Some g"
  obtains fast w2 where "w_trace w2 = w_trace w"
    and "invoke S cf token tn args k w =
      (case invoke_grant S cf g (hash_token S token) tn args k fast (w_mono w) w2 of (r, w') \<Rightarrow> (r, w'\<lparr>w_dirty := [], w_locked := None\<rparr>))"
proof -
  let ?h = "hash_token S token" and ?w = "w\<lparr>w_dirty := [], w_locked := None\<rparr>"
  obtain claims where v: "verify_at S token (cf_settings cf) (w_now w) = Inr claims" "cl_tool_name claims = tn"
    using assms by (auto simp: resolved_grant_def split: sum.splits if_splits)
  obtain q w2 where f: "first_read S cf ?h ?w = (q, w2)" by force
  have "(case q of Inr (_, [g]) \<Rightarrow> Some g | _ \<Rightarrow> None) = Some g"
    using assms unfolding resolved_grant_def v(1) sum.case by (simp add: v(2) f)
  then have "\<exists>fast. q = Inr (fast, [g])" by (auto split: sum.splits prod.splits list.splits)
  then obtain fast where q: "first_read S cf ?h ?w = (Inr (fast, [g]), w2)" using f by blast
  show ?thesis
  proof (rule that)
    show "w_trace w2 = w_trace w" using first_read_silent [of S cf ?h ?w] q by simp
    have "resolve_and_invoke S cf ?h tn args k (w_mono w) ?w = invoke_grant S cf g ?h tn args k fast (w_mono w) w2"
      unfolding resolve_first by (subst bindM_Inr, rule q) simp
    then show "invoke S cf token tn args k w =
        (case invoke_grant S cf g ?h tn args k fast (w_mono w) w2 of (r, w') \<Rightarrow> (r, w'\<lparr>w_dirty := [], w_locked := None\<rparr>))"
      by (simp only: invoke_verified [OF v] session_run)
  qed
qed

text \<open>
  C3: every invocation that resolves a grant is audited exactly once.  Whatever the
  services answer and however other tasks interleave: if the token verifies for the tool
  and the call's first read finds its grant row, then on every return of \<open>invoke\<close>, denials by
  the row and unknown tools included, exactly one audit row has been committed, with the
  id of that grant, the tool, the hash of the arguments, the status and the latency it
  returns; when it raises, at most one.  If no row is resolved, the call is denied with
  no effect at all.
\<close>

theorem invoke_audits_once:
  "case invoke S cf token tn args k w of (r, w') \<Rightarrow>
     \<exists>evs. w_trace w' = w_trace w @ evs \<and>
       (case resolved_grant S cf token tn w of
          None \<Rightarrow>
            evs = [] \<and>
            (case r of Inr o' \<Rightarrow> io_status o' = ''denied'' \<and> io_denied_reason o' \<in> Some ` set resolution_reasons | Inl e \<Rightarrow> True)
        | Some g \<Rightarrow>
            (case r of
               Inr o' \<Rightarrow>
                 \<exists>row. audit_rows evs = [row] \<and> au_grant_id row = gr_id g \<and> au_tool_name row = tn \<and>
                   au_arguments_hash row = hash_arguments S args \<and> au_status row = io_status o' \<and> au_latency_ms row = io_latency_ms o'
             | Inl e \<Rightarrow> length (audit_rows evs) < 2))"
proof (cases "resolved_grant S cf token tn w")
  case None
  then show ?thesis using invoke_unresolved [OF None, of args k] by auto
next
  case (Some g)
  obtain fast w2 where t: "w_trace w2 = w_trace w" and i: "invoke S cf token tn args k w =
      (case invoke_grant S cf g (hash_token S token) tn args k fast (w_mono w) w2 of (r, w') \<Rightarrow> (r, w'\<lparr>w_dirty := [], w_locked := None\<rparr>))"
    by (rule invoke_resolves [OF Some])
  obtain r w' where g: "invoke_grant S cf g (hash_token S token) tn args k fast (w_mono w) w2 = (r, w')" by force
  have "audits (w_trace w) (\<lambda>rs. rs = []) w2" using t by (simp add: audits_def)
  then show ?thesis
    using tripleD_Inr [OF invoke_grant_audits, of "w_trace w" w2] tripleD_Inl [OF invoke_grant_audits, of "w_trace w" w2] g i Some
    by (cases r) (auto simp: audits_def is_record_def)
qed

section \<open>Revoked grants\<close>

text \<open>Every row with this token hash carries a revocation time.\<close>

definition revoked_hash :: "string \<Rightarrow> ('r, 'x) world \<Rightarrow> bool" where
  "revoked_hash h w \<longleftrightarrow> list_all (\<lambda>g. gr_revoked_at g \<noteq> None) (grants_by_hash (w_db w) h)"

lemma revoked_hash_core [simp]: "core (revoked_hash h)"
  by (simp add: core_def revoked_hash_def)

text \<open>The row with this id is gone or carries a revocation time.\<close>

definition revoked_id :: "uuid \<Rightarrow> ('r, 'x) world \<Rightarrow> bool" where
  "revoked_id gid w \<longleftrightarrow> (case get_grant (w_db w) gid of None \<Rightarrow> True | Some g \<Rightarrow> gr_revoked_at g \<noteq> None)"

lemma revoked_id_core [simp]: "core (revoked_id gid)"
  by (simp add: core_def revoked_id_def)

fun is_http :: "event \<Rightarrow> bool" where
  "is_http (EvHttp q) = True"
| "is_http _ = False"

fun is_get :: "event \<Rightarrow> bool" where
  "is_get (EvHttp (HttpGet u h p)) = True"
| "is_get _ = False"

fun is_post :: "event \<Rightarrow> bool" where
  "is_post (EvHttp (HttpPost u d)) = True"
| "is_post _ = False"

text \<open>The re-check before the provider call sees a revocation that has been committed.\<close>

lemma recheck_sees_revocation:
  assumes "env_stable S (revoked_id gid)"
  shows "triple (\<lambda>w. revoked_id gid w \<and> emits ok t0 w) (is_revoked_now S cf gid h)
    (\<lambda>b w. b \<and> revoked_id gid w \<and> emits ok t0 w) (\<lambda>_ w. revoked_id gid w \<and> emits ok t0 w)"
proof -
  let ?I = "\<lambda>w. revoked_id gid w \<and> emits ok t0 w"
  have st: "env_stable S ?I" by (intro env_stable_conj assms emits_stable)
  have c: "core ?I" by (intro core_conj revoked_id_core emits_core)
  have cache: "triple ?I (if cf_grant_cache cf then is_revoked S h else ret False) (\<lambda>_. ?I) (\<lambda>_. ?I)"
    by (intro wp st core_score [OF c])
  show ?thesis
    unfolding is_revoked_now_def
    by (rule triple_bindM [OF cache], intro triple_if triple_ret triple_bindM [OF triple_select [OF st]] triple_case_option)
      (auto simp: revoked_id_def split: option.splits)
qed

text \<open>Where nothing but the token endpoint may be contacted.\<close>

interpretation no_provider: refresh_invariant S "emits (\<lambda>e. \<not> is_get e) t0" for S :: "('r, 'x) services" and t0
  by unfold_locales (auto intro: emits_step simp: emits_def)

lemma revoked_id_update:
  "revoked_id gid w \<Longrightarrow> update_accounts cs (w_db w) = Inr (w_db w') \<Longrightarrow> revoked_id gid w'"
  using update_accounts_frame [of cs "w_db w" "w_db w'"] by (simp add: revoked_id_def get_grant_def)

lemma revoked_refresh:
  assumes "env_stable S (revoked_id gid)"
  shows "refresh_invariant S (\<lambda>w. revoked_id gid w \<and> emits (\<lambda>e. \<not> is_get e) t0 w)"
proof
  fix w u d assume i: "revoked_id gid w \<and> emits (\<lambda>e. \<not> is_get e) t0 w"
  show "revoked_id gid (w\<lparr>w_trace := w_trace w @ [EvHttp (HttpPost u d)]\<rparr>) \<and>
      emits (\<lambda>e. \<not> is_get e) t0 (w\<lparr>w_trace := w_trace w @ [EvHttp (HttpPost u d)]\<rparr>)"
    using i by (simp add: emits_step, simp add: revoked_id_def)
next
  fix w cs db assume i: "revoked_id gid w \<and> emits (\<lambda>e. \<not> is_get e) t0 w" "update_accounts cs (w_db w) = Inr db"
  then show "revoked_id gid (w\<lparr>w_db := db, w_trace := w_trace w, w_dirty := [], w_locked := None\<rparr>) \<and>
      emits (\<lambda>e. \<not> is_get e) t0 (w\<lparr>w_db := db, w_trace := w_trace w, w_dirty := [], w_locked := None\<rparr>)"
    by (auto intro: revoked_id_update simp: emits_def)
qed (intro core_conj env_stable_conj assms revoked_id_core emits_core emits_stable)+

text \<open>An outcome a refresh or a decryption ends the call with is a failure.\<close>

lemma refresh_outcome: "refresh_or_outcome S cf account start w = (Inr (Inl o'), w') \<Longrightarrow> io_status o' = ''failed''"
  by (auto simp: refresh_or_outcome_def catchM_def bindM_def outcome_run split: prod.splits sum.splits if_splits)

lemma usable_token_outcome: "usable_token S cf account start w = (Inr (Inl o'), w') \<Longrightarrow> io_status o' = ''failed''"
  by (auto simp: usable_token_def Let_def bindM_def outcome_run refresh_outcome
      split: prod.splits sum.splits if_splits option.splits)

text \<open>What is left of \<open>_execute_call\<close> from each point that lies ahead of a re-check.\<close>

definition after_recheck :: "('r, 'x) services \<Rightarrow> config \<Rightarrow> uuid \<Rightarrow> string \<Rightarrow> real \<Rightarrow> ('r, 'x, invoke_outcome) io
    \<Rightarrow> ('r, 'x, invoke_outcome) io" where
  "after_recheck S cf gid h start m =
     bindM (is_revoked_now S cf gid h) (\<lambda>revoked. if revoked then denied ''grant has been revoked'' ''revoked'' start else m)"

definition after_rejection :: "('r, 'x) services \<Rightarrow> config \<Rightarrow> uuid \<Rightarrow> string \<Rightarrow> connected_account \<Rightarrow> tool \<Rightarrow> dict \<Rightarrow> real
    \<Rightarrow> ('r, 'x, invoke_outcome) io" where
  "after_rejection S cf gid h account tool args start =
     bindM (refresh_or_outcome S cf account start) (\<lambda>r.
     case r of Inl o' \<Rightarrow> ret o' | Inr t \<Rightarrow> after_recheck S cf gid h start (last_call S cf tool t args start))"

definition after_load :: "('r, 'x) services \<Rightarrow> config \<Rightarrow> uuid \<Rightarrow> string \<Rightarrow> connected_account \<Rightarrow> tool \<Rightarrow> dict \<Rightarrow> real
    \<Rightarrow> ('r, 'x, invoke_outcome) io" where
  "after_load S cf gid h account tool args start =
     bindM (usable_token S cf account start) (\<lambda>r.
     case r of
       Inl o' \<Rightarrow> ret o'
     | Inr (t, refreshed) \<Rightarrow> after_recheck S cf gid h start (call_loop S cf gid h account tool refreshed t args start))"

lemma execute_load:
  "execute_call S cf g h tool args start = bindM (select S (\<lambda>db. get_account db (gr_connected_account_id g))) (\<lambda>row.
     case row of None \<Rightarrow> failed ''connected account no longer exists'' start
     | Some account \<Rightarrow> after_load S cf (gr_id g) h account tool args start)"
  unfolding execute_call_def after_load_def after_recheck_def by (rule refl)

definition late :: "uuid \<Rightarrow> event list \<Rightarrow> ('r, 'x) world \<Rightarrow> bool" where
  "late gid t0 w \<longleftrightarrow> revoked_id gid w \<and> emits (\<lambda>e. \<not> is_get e) t0 w"

abbreviation unserved :: "('r, 'x, invoke_outcome) io \<Rightarrow> uuid \<Rightarrow> event list \<Rightarrow> bool" where
  "unserved m gid t0 \<equiv> triple (late gid t0) m
     (\<lambda>o' w. emits (\<lambda>e. \<not> is_get e) t0 w \<and> io_status o' \<noteq> ''success'') (\<lambda>_. emits (\<lambda>e. \<not> is_get e) t0)"

lemma late_emits: "late gid t0 w \<Longrightarrow> emits (\<lambda>e. \<not> is_get e) t0 w"
  by (simp add: late_def)

lemma recheck_stops:
  assumes "env_stable S (revoked_id gid)"
  shows "unserved (after_recheck S cf gid h start m) gid t0"
proof -
  have chk: "triple (late gid t0) (is_revoked_now S cf gid h) (\<lambda>b w. b \<and> late gid t0 w) (\<lambda>_. emits (\<lambda>e. \<not> is_get e) t0)"
    by (rule triple_conseq [OF recheck_sees_revocation [OF assms]]) (auto simp: late_def)
  show ?thesis
    unfolding after_recheck_def by (rule triple_bindM [OF chk]) (auto simp: triple_def outcome_run late_emits)
qed

lemma rejection_stops:
  assumes "env_stable S (revoked_id gid)"
  shows "unserved (after_rejection S cf gid h account tool args start) gid t0"
proof -
  have ref: "triple (late gid t0) (refresh_or_outcome S cf account start)
      (\<lambda>r w. late gid t0 w \<and> (\<forall>o'. r = Inl o' \<longrightarrow> io_status o' = ''failed'')) (\<lambda>_. emits (\<lambda>e. \<not> is_get e) t0)"
    by (rule triple_conseq [OF triple_conj [OF refresh_invariant.keeps_refresh_or_outcome [OF revoked_refresh [OF assms]]
            triple_result [where Q = "\<lambda>r. \<forall>o'. r = Inl o' \<longrightarrow> io_status o' = ''failed''"]]])
      (auto simp: late_def dest: refresh_outcome)
  show ?thesis
    unfolding after_rejection_def
    by (rule triple_bindM [OF ref], rule triple_case_sum, rule triple_ret)
      (auto intro: triple_pre [OF recheck_stops [OF assms]] simp: late_emits)
qed

lemma load_stops:
  assumes "env_stable S (revoked_id gid)"
  shows "unserved (after_load S cf gid h account tool args start) gid t0"
proof -
  have tok: "triple (late gid t0) (usable_token S cf account start)
      (\<lambda>r w. late gid t0 w \<and> (\<forall>o'. r = Inl o' \<longrightarrow> io_status o' = ''failed'')) (\<lambda>_. emits (\<lambda>e. \<not> is_get e) t0)"
    by (rule triple_conseq [OF triple_conj [OF refresh_invariant.keeps_usable_token [OF revoked_refresh [OF assms]]
            triple_result [where Q = "\<lambda>r. \<forall>o'. r = Inl o' \<longrightarrow> io_status o' = ''failed''"]]])
      (auto simp: late_def dest: usable_token_outcome)
  show ?thesis
    unfolding after_load_def
    by (rule triple_bindM [OF tok], rule triple_case_sum, rule triple_ret)
      (auto intro!: triple_case_prod intro: triple_pre [OF recheck_stops [OF assms]] simp: late_emits)
qed

lemma execute_stops:
  assumes "env_stable S (revoked_id (gr_id g))"
  shows "unserved (execute_call S cf g h tool args start) (gr_id g) t0"
proof -
  have st: "env_stable S (late (gr_id g) t0)"
    unfolding late_def by (intro env_stable_conj assms emits_stable)
  have sel: "triple (late (gr_id g) t0) (select S f) (\<lambda>_. late (gr_id g) t0) (\<lambda>_. emits (\<lambda>e. \<not> is_get e) t0)" for f :: "database \<Rightarrow> connected_account option"
    by (rule keeps_weaken [OF keeps_select [OF st]]) (rule late_emits)
  show ?thesis
    unfolding execute_load
    by (rule triple_bindM [OF sel], rule triple_case_option) (auto intro: load_stops [OF assms] triple_outcome simp: late_emits)
qed

text \<open>
  The read of the re-check itself: a revocation that lands at the very last moment, while
  the check waits for its row, is seen too, even if it were undone right after.
\<close>

lemma reading_stops:
  assumes "(if cf_grant_cache cf then is_revoked S h else ret False) w0 = (Inr False, w1)" and "revoked_id gid (env S w1)"
    and "after_recheck S cf gid h start m w0 = (r, w')"
  shows "w_trace w' = w_trace w1 \<and> (case r of Inr o' \<Rightarrow> io_status o' \<noteq> ''success'' | Inl e \<Rightarrow> True)"
proof -
  obtain b w2 where c: "is_revoked_now S cf gid h w0 = (b, w2)" by force
  have "b = Inr True \<or> (\<exists>e. b = Inl e)" and "w_trace w2 = w_trace w1"
    using c assms(1,2)
    by (auto simp: is_revoked_now_def select_def awaiting_def suspend_def Let_def revoked_id_def bindM_def
        split: option.splits prod.splits sum.splits)
  then show ?thesis using assms(3) c by (auto simp: after_recheck_def bindM_def outcome_run)
qed

section \<open>Points ahead of a re-check\<close>

text \<open>
  The states of the run \<open>execute_call S cf g h tool args start w\<close> from which the next provider
  request, if any, still lies behind a re-check: at the start, once the account is loaded, once the
  credential is ready (refreshed or decrypted), while the re-check reads the row; and
  again, after a request the provider has rejected with a 401, before and after the refresh
  and while the second re-check reads.
\<close>

definition credential_ready :: "('r, 'x) services \<Rightarrow> config \<Rightarrow> grant \<Rightarrow> real \<Rightarrow> ('r, 'x) world \<Rightarrow> connected_account \<Rightarrow> string
    \<Rightarrow> bool \<Rightarrow> ('r, 'x) world \<Rightarrow> bool" where
  "credential_ready S cf g start w account t refreshed p \<longleftrightarrow>
     (\<exists>w1. select S (\<lambda>db. get_account db (gr_connected_account_id g)) w = (Inr (Some account), w1) \<and>
        usable_token S cf account start w1 = (Inr (Inr (t, refreshed)), p))"

definition rejected :: "('r, 'x) services \<Rightarrow> config \<Rightarrow> grant \<Rightarrow> string \<Rightarrow> tool \<Rightarrow> dict \<Rightarrow> real \<Rightarrow> ('r, 'x) world
    \<Rightarrow> connected_account \<Rightarrow> ('r, 'x) world \<Rightarrow> bool" where
  "rejected S cf g h tool args start w account p \<longleftrightarrow>
     can_refresh account \<and>
     (\<exists>t p0 p1 e. credential_ready S cf g start w account t False p0 \<and> is_revoked_now S cf (gr_id g) h p0 = (Inr False, p1) \<and>
        call_provider S cf tool t args p1 = (Inl e, p) \<and> broker_class e = Some ProviderCallError \<and> status_code e = Some 401)"

inductive ahead_of_recheck :: "('r, 'x) services \<Rightarrow> config \<Rightarrow> grant \<Rightarrow> string \<Rightarrow> tool \<Rightarrow> dict \<Rightarrow> real \<Rightarrow> ('r, 'x) world
    \<Rightarrow> ('r, 'x) world \<Rightarrow> bool" for S cf g h tool args start w where
  started: "ahead_of_recheck S cf g h tool args start w w"
| loaded: "select S (\<lambda>db. get_account db (gr_connected_account_id g)) w = (Inr (Some account), p) \<Longrightarrow>
    ahead_of_recheck S cf g h tool args start w p"
| ready: "credential_ready S cf g start w account t refreshed p \<Longrightarrow> ahead_of_recheck S cf g h tool args start w p"
| reading: "credential_ready S cf g start w account t refreshed p0 \<Longrightarrow>
    (if cf_grant_cache cf then is_revoked S h else ret False) p0 = (Inr False, p1) \<Longrightarrow>
    ahead_of_recheck S cf g h tool args start w (env S p1)"
| rejected: "rejected S cf g h tool args start w account p \<Longrightarrow> ahead_of_recheck S cf g h tool args start w p"
| refreshed: "rejected S cf g h tool args start w account p0 \<Longrightarrow> refresh_or_outcome S cf account start p0 = (Inr (Inr t), p) \<Longrightarrow>
    ahead_of_recheck S cf g h tool args start w p"
| reading_again: "rejected S cf g h tool args start w account p0 \<Longrightarrow> refresh_or_outcome S cf account start p0 = (Inr (Inr t), p1) \<Longrightarrow>
    (if cf_grant_cache cf then is_revoked S h else ret False) p1 = (Inr False, p2) \<Longrightarrow>
    ahead_of_recheck S cf g h tool args start w (env S p2)"

text \<open>The rest of the run at each kind of point.\<close>

lemma ready_rest:
  "credential_ready S cf g start w account t refreshed p \<Longrightarrow>
   execute_call S cf g h tool args start w =
     after_recheck S cf (gr_id g) h start (call_loop S cf (gr_id g) h account tool refreshed t args start) p"
  by (auto simp: credential_ready_def execute_load after_load_def bindM_Inr)

lemma rejected_rest:
  assumes "rejected S cf g h tool args start w account p"
  shows "execute_call S cf g h tool args start w = after_rejection S cf (gr_id g) h account tool args start p"
proof -
  obtain t p0 p1 e where r: "credential_ready S cf g start w account t False p0" "is_revoked_now S cf (gr_id g) h p0 = (Inr False, p1)"
    "call_provider S cf tool t args p1 = (Inl e, p)" "broker_class e = Some ProviderCallError" "status_code e = Some 401" "can_refresh account"
    using assms by (auto simp: rejected_def)
  then have "after_recheck S cf (gr_id g) h start (call_loop S cf (gr_id g) h account tool False t args start) p0 =
      call_loop S cf (gr_id g) h account tool False t args start p1"
    by (simp add: after_recheck_def bindM_def)
  also have "\<dots> = after_rejection S cf (gr_id g) h account tool args start p"
    unfolding after_rejection_def after_recheck_def using r(3-6) by (simp add: call_loop_def tryM_def bindM_Inr)
  finally show ?thesis using ready_rest [OF r(1)] by simp
qed

text \<open>
  C2: a revocation that lands mid-flight still stops the call.  Let the grant's row be
  revoked (or gone) at any point \<open>p\<close> of the run of \<open>_execute_call\<close> that lies ahead of a
  re-check, be it during the token refresh, during the decryption or while the check reads
  the row, and also after a first request the provider has rejected; and let revocations
  not be undone.  Then whatever the account and the interleaving, no request goes to the provider
  from \<open>p\<close> on and the call does not succeed.
\<close>

theorem revoked_mid_flight:
  assumes "env_stable S (revoked_id (gr_id g))" and "execute_call S cf g h tool args start w = (r, w')"
    and "ahead_of_recheck S cf g h tool args start w p" and "revoked_id (gr_id g) p"
  shows "\<exists>evs. w_trace w' = w_trace p @ evs \<and> list_all (\<lambda>e. \<not> is_get e) evs \<and>
    (case r of Inr o' \<Rightarrow> io_status o' \<noteq> ''success'' | Inl e \<Rightarrow> True)"
proof -
  have i: "late (gr_id g) (w_trace p) p" using assms(4) by (simp add: late_def)
  have stops: ?thesis if "unserved m (gr_id g) (w_trace p)" and "m p = (r, w')" for m
    using tripleD_Inr [OF that(1) i] tripleD_Inl [OF that(1) i] that(2) by (cases r) (auto simp: emits_def)
  show ?thesis
    using assms(3)
  proof cases
    case started
    then show ?thesis using stops [OF execute_stops [OF assms(1)]] assms(2) by blast
  next
    case (loaded account)
    then show ?thesis using stops [OF load_stops [OF assms(1)]] assms(2) by (simp add: execute_load)
  next
    case (ready account t refreshed)
    then show ?thesis using stops [OF recheck_stops [OF assms(1)]] assms(2) ready_rest by metis
  next
    case (reading account t refreshed p0 p1)
    have "after_recheck S cf (gr_id g) h start (call_loop S cf (gr_id g) h account tool refreshed t args start) p0 = (r, w')"
      using ready_rest [OF reading(2)] assms(2) by simp
    from reading_stops [OF reading(3) _ this] show ?thesis using assms(4) reading(1) by simp
  next
    case (rejected account)
    then show ?thesis using stops [OF rejection_stops [OF assms(1)]] assms(2) rejected_rest by metis
  next
    case (refreshed account p0 t)
    have "execute_call S cf g h tool args start w = after_recheck S cf (gr_id g) h start (last_call S cf tool t args start) p"
      using rejected_rest [OF refreshed(1)] refreshed(2) by (simp add: after_rejection_def)
    then show ?thesis using stops [OF recheck_stops [OF assms(1)]] assms(2) by metis
  next
    case (reading_again account p0 t p1 p2)
    have "after_recheck S cf (gr_id g) h start (last_call S cf tool t args start) p1 = (r, w')"
      using rejected_rest [OF reading_again(2)] reading_again(3) assms(2) by (simp add: after_rejection_def)
    from reading_stops [OF reading_again(4) _ this] show ?thesis using assms(4) reading_again(1) by simp
  qed
qed

definition revoked_start :: "(memory, nat) world" where
  "revoked_start = sample_start\<lparr>w_db := sample_db\<lparr>db_grants := [sample_grant\<lparr>gr_revoked_at := Some (Aware 1700000000000000)\<rparr>]\<rparr>\<rparr>"

text \<open>An operator who revokes the grant while its credential is being decrypted.\<close>

definition revoking :: "(memory, nat) services" where
  "revoking = sample_services\<lparr>sv_interfere := \<lambda>w. if w_secrets w = [] then w else w\<lparr>w_db := w_db revoked_start\<rparr>\<rparr>"

lemma env_revoking: "env revoking w = (if w_secrets w = [] then w else w\<lparr>w_db := w_db revoked_start\<rparr>)"
  by (simp add: env_def revoking_def)

lemma revoked_start_row: "get_grant (w_db revoked_start) 7 = Some (sample_grant\<lparr>gr_revoked_at := Some (Aware 1700000000000000)\<rparr>)"
  by (simp add: revoked_start_def get_grant_def)

lemma revoking_decrypts: "decrypt revoking sample_key blob w = decrypt sample_services sample_key blob w"
  by (simp add: decrypt_def sample_key_def revoking_def Let_def)

lemma revoked_while_decrypting:
  "credential_ready revoking sample_config sample_grant 0 sample_live sample_account ''ya29.token'' False
     (sample_live\<lparr>w_secrets := [''ya29.token''], w_db := w_db revoked_start\<rparr>)"
proof -
  have f: "sv_fault revoking k p w = None" for k p w by (simp add: revoking_def sample_services_def)
  have "select revoking (\<lambda>db. get_account db (gr_connected_account_id sample_grant)) sample_live = (Inr (Some sample_account), sample_live)"
    by (simp add: select_def awaiting_def suspend_def Let_def env_revoking f)
  moreover have "usable_token revoking sample_config sample_account 0 sample_live =
      (Inr (Inr (''ya29.token'', False)), sample_live\<lparr>w_secrets := [''ya29.token''], w_db := w_db revoked_start\<rparr>)"
    by (simp add: usable_token_def utcnow_run bindM_def tryM_def awaiting_def suspend_def Let_def env_revoking f revoking_decrypts
        decrypt_sample) (simp add: sample_account_def)
  ultimately show ?thesis unfolding credential_ready_def by blast
qed

theorem revoked_mid_flight_witness:
  "\<exists>p r w'. ahead_of_recheck revoking sample_config sample_grant ''h'' DriveListFilesTool [] 0 sample_live p \<and>
     \<not> revoked_id (gr_id sample_grant) sample_live \<and> revoked_id (gr_id sample_grant) p \<and>
     execute_call revoking sample_config sample_grant ''h'' DriveListFilesTool [] 0 sample_live = (r, w') \<and>
     list_all (\<lambda>e. \<not> is_get e) (w_trace w')"
proof -
  let ?p = "sample_live\<lparr>w_secrets := [''ya29.token''], w_db := w_db revoked_start\<rparr>"
  have a: "ahead_of_recheck revoking sample_config sample_grant ''h'' DriveListFilesTool [] 0 sample_live ?p"
    by (rule ahead_of_recheck.ready [OF revoked_while_decrypting])
  have s: "env_stable revoking (revoked_id (gr_id sample_grant))"
    by (simp add: env_stable_def env_revoking revoked_id_def revoked_start_row)
  have r: "revoked_id (gr_id sample_grant) ?p" by (simp add: revoked_id_def revoked_start_row)
  have n: "\<not> revoked_id (gr_id sample_grant) sample_live" by (simp add: revoked_id_def)
  obtain x w' where x: "execute_call revoking sample_config sample_grant ''h'' DriveListFilesTool [] 0 sample_live = (x, w')" by force
  then show ?thesis using revoked_mid_flight [OF s x a r] a r n by auto
qed

text \<open>The call of a revoked grant: a denial, audited, and nothing else.\<close>

lemma record_call_quietly: "keeps (emits (\<lambda>e. \<not> is_http e) t0) (record_call S gid tn args st lat)"
proof -
  have c: "keeps (emits (\<lambda>e. \<not> is_http e) t0) (commit S (insert_audit row) [EvAudit row])" for row
    by (rule keeps_commit) (auto simp: emits_def)
  show ?thesis unfolding record_call_def Let_def by (intro wp c; simp)
qed

lemma invoke_revoked_grant:
  assumes "gr_revoked_at g \<noteq> None"
  shows "triple (emits (\<lambda>e. \<not> is_http e) t0) (invoke_grant S cf g h tn args k fast start)
    (\<lambda>o' w. emits (\<lambda>e. \<not> is_http e) t0 w \<and> io_status o' = ''denied'') (\<lambda>_. emits (\<lambda>e. \<not> is_http e) t0)"
proof -
  have d: "triple (emits (\<lambda>e. \<not> is_http e) t0)
      (catchM (invoke_resolved S cf g h tn args k fast start) hd)
      (\<lambda>o' w. emits (\<lambda>e. \<not> is_http e) t0 w \<and> io_status o' = ''denied'') (\<lambda>_. emits (\<lambda>e. \<not> is_http e) t0)" for hd
    using assms by (auto simp: triple_def invoke_resolved_def outcome_run catchM_def)
  have r: "triple (\<lambda>w. emits (\<lambda>e. \<not> is_http e) t0 w \<and> b) (record_call S gid tn args st lat)
      (\<lambda>_ w. emits (\<lambda>e. \<not> is_http e) t0 w \<and> b) (\<lambda>_. emits (\<lambda>e. \<not> is_http e) t0)" for gid st lat b
    using record_call_quietly [of t0 S gid tn args st lat] by (cases b) (auto simp: triple_def)
  show ?thesis
    unfolding invoke_grant_def by (rule triple_bindM [OF d], rule triple_bindM [OF r], rule triple_ret)
qed

lemma invoke_revoked:
  fixes S :: "('r, 'x) services"
  assumes "env_stable S J" and "core J" and "\<And>w. J w \<Longrightarrow> revoked_hash (hash_token S token) w"
  shows "triple (\<lambda>w. J w \<and> emits (\<lambda>e. \<not> is_http e) t0 w) (invoke S cf token tn args k)
    (\<lambda>o' w. emits (\<lambda>e. \<not> is_http e) t0 w \<and> io_status o' = ''denied'') (\<lambda>_. emits (\<lambda>e. \<not> is_http e) t0)"
    (is "triple ?I _ ?Q ?E")
proof -
  let ?h = "hash_token S token"
  have st: "env_stable S ?I" by (intro env_stable_conj assms(1) emits_stable)
  have co: "core ?I" by (intro core_conj assms(2) emits_core)
  have keep: "triple ?I m (\<lambda>_. ?I) ?E" if "keeps ?I m" for m :: "('r, 'x, 'a) io"
    by (rule keeps_weaken [OF that]) simp
  have sel: "triple ?I (select S (\<lambda>db. grants_by_hash db ?h))
      (\<lambda>rows w. ?I w \<and> list_all (\<lambda>g. gr_revoked_at g \<noteq> None) rows) ?E"
    by (rule triple_conseq [OF triple_select [OF st]]) (use assms(3) in \<open>auto simp: revoked_hash_def\<close>)
  have d: "triple ?I (denied err reason start) ?Q ?E" for err reason start
    by (rule triple_outcome) simp
  have row: "triple (\<lambda>w. ?I w \<and> list_all (\<lambda>g. gr_revoked_at g \<noteq> None) rows) (case x of
        None \<Rightarrow> denied ''grant not found'' ''not_found'' start
      | Some g \<Rightarrow> invoke_grant S cf g ?h tn args k fast start) ?Q ?E"
    if "scalar_one_or_none rows = Inr x" for rows x fast start
  proof (cases x)
    case None
    then show ?thesis by (auto intro: triple_pre [OF d])
  next
    case (Some g)
    then have "rows = [g]" using that by (simp add: scalar_Some)
    then show ?thesis
      using Some by (cases "gr_revoked_at g") (auto simp: triple_def [of "\<lambda>_. False"] intro: triple_pre [OF invoke_revoked_grant])
  qed
  have body: "triple ?I (resolve_and_invoke S cf ?h tn args k start) ?Q ?E" for start
    unfolding resolve_and_invoke_def
    apply (rule triple_bindM [OF keep], (intro wp st core_score [OF co]), assumption)
    apply (rule triple_bindM [OF sel], rule triple_lift_bind, simp, rule row, assumption)
    done
  show ?thesis
    unfolding invoke_def Let_def
    apply (rule triple_bindM [OF keep], rule wp, rule triple_bindM [OF keep], rule wp, rule wp)
    apply (intro triple_case_sum triple_if d triple_raise triple_with_session body co; (intro core_conj emits_core)?)
    apply (auto simp: core_def emits_def)
    done
qed

text \<open>
  A revoked grant token is useless.  If every row with the hash of the presented
  token is revoked and revocations are not undone, \<open>invoke\<close> sends no request to
  anyone, and when it returns, it returns a denial.
\<close>

theorem revoked_token_denied:
  fixes S :: "('r, 'x) services"
  assumes "env_stable S (revoked_hash (hash_token S token))" and "revoked_hash (hash_token S token) w"
    and "invoke S cf token tn args k w = (r, w')"
  shows "\<exists>evs. w_trace w' = w_trace w @ evs \<and> list_all (\<lambda>e. \<not> is_http e) evs \<and>
    (case r of Inr o' \<Rightarrow> io_status o' = ''denied'' | Inl e \<Rightarrow> True)"
proof -
  have i: "revoked_hash (hash_token S token) w \<and> emits (\<lambda>e. \<not> is_http e) (w_trace w) w" using assms(2) by simp
  note t = invoke_revoked [OF assms(1) revoked_hash_core, where token = token and cf = cf and tn = tn and args = args and k = k]
  show ?thesis using tripleD_Inr [OF t i] tripleD_Inl [OF t i] assms(3) by (cases r) (auto simp: emits_def)
qed

theorem revoked_token_denied_witness:
  "list_all (\<lambda>e. \<not> is_http e)
     (w_trace (snd (invoke sample_services sample_config sample_token ''drive.read'' [] None revoked_start))) \<and>
   revoked_hash (hash_token sample_services sample_token) revoked_start \<and>
   length (grants_by_hash (w_db revoked_start) (hash_token sample_services sample_token)) = 1"
proof -
  have h: "revoked_hash (hash_token sample_services sample_token) revoked_start"
    by (simp add: revoked_hash_def revoked_start_def grants_by_hash_def)
  show ?thesis
    using revoked_token_denied [of sample_services sample_token revoked_start sample_config "''drive.read''" "[]" None
      "fst (invoke sample_services sample_config sample_token ''drive.read'' [] None revoked_start)"
      "snd (invoke sample_services sample_config sample_token ''drive.read'' [] None revoked_start)"] h
    by (auto simp: revoked_start_def grants_by_hash_def)
qed

end
