(* ===== verification/Cb_Invoke_Bounds.thy ===== *)
theory Cb_Invoke_Bounds
  imports Cb_Invoke_Safety
begin

text \<open>
  How many requests one invocation can send, on every path and under every
  interleaving.
\<close>

section \<open>Counting requests\<close>

definition sent :: "nat \<Rightarrow> nat \<Rightarrow> event list \<Rightarrow> ('r, 'x) world \<Rightarrow> bool" where
  "sent a b t0 w \<longleftrightarrow>
     (\<exists>evs. w_trace w = t0 @ evs \<and> length (filter is_get evs) \<le> a \<and> length (filter is_post evs) \<le> b)"

lemma sent_facts [simp]: "core (sent a b t0)" "env_stable S (sent a b t0)" "sent a b (w_trace w) w"
  by (auto simp: core_def env_stable_def sent_def)

lemma sent_mono: "sent a b t0 w \<Longrightarrow> a \<le> a' \<Longrightarrow> b \<le> b' \<Longrightarrow> sent a' b' t0 w"
  unfolding sent_def by (meson order_trans)

lemma sent_more:
  assumes "sent a b t0 w" and "w_trace w' = w_trace w @ evs"
    and "length (filter is_get evs) \<le> c" and "length (filter is_post evs) \<le> d"
  shows "sent (a + c) (b + d) t0 w'"
  using assms unfolding sent_def by fastforce

text \<open>A run that adds at most so many requests, on every exit.\<close>

definition costs :: "('r, 'x, 'a) io \<Rightarrow> nat \<Rightarrow> nat \<Rightarrow> bool" where
  "costs m c d \<longleftrightarrow> (\<forall>w. \<exists>evs. w_trace (snd (m w)) = w_trace w @ evs \<and>
     length (filter is_get evs) \<le> c \<and> length (filter is_post evs) \<le> d)"

lemma costs_sent: "costs m c d \<Longrightarrow> triple (sent a b t0) m (\<lambda>_. sent (a + c) (b + d) t0) (\<lambda>_. sent (a + c) (b + d) t0)"
  by (rule tripleI; unfold costs_def; metis sent_more snd_conv)

lemma costs_emits:
  assumes "\<And>t0. keeps (emits ok t0) m" and "\<And>e. ok e \<Longrightarrow> \<not> is_get e" and "\<And>e. ok e \<Longrightarrow> \<not> is_post e"
  shows "costs m 0 0"
  unfolding costs_def
proof
  fix w
  have "emits ok (w_trace w) (snd (m w))" by (rule keepsD [OF assms(1) emits_refl])
  then obtain evs where "w_trace (snd (m w)) = w_trace w @ evs" "list_all ok evs" by (auto simp: emits_def)
  then show "\<exists>evs. w_trace (snd (m w)) = w_trace w @ evs \<and> length (filter is_get evs) \<le> 0 \<and> length (filter is_post evs) \<le> 0"
    using assms(2,3) by (auto simp: list_all_iff filter_empty_conv)
qed

section \<open>The provider call\<close>

lemma http_trace [simp]: "w_trace (snd (http w)) = w_trace w"
  by (simp add: http_def Let_def split: option.split)

lemma http_then_call_trace:
  "\<exists>evs. w_trace (snd (bindM http (\<lambda>_. tool_call S tool tok args) w)) = w_trace w @ evs \<and>
     (evs = [] \<or> (\<exists>params. evs = [EvHttp (drive_request tool tok params)]))"
proof -
  obtain c w1 where h: "http w = (Inr c, w1)" by (cases "w_http_client w") (auto simp: http_def Let_def)
  then have "w_trace w1 = w_trace w" using http_trace [of w] by simp
  then show ?thesis using tool_call_trace [of S tool tok args w1] h by simp
qed

lemma http_then_call_one_effect: "one_effect (bindM http (\<lambda>_. tool_call S tool tok args))"
  unfolding one_effect_def using http_then_call_trace [of S tool tok args] by fastforce

lemma circuit_for_cases:
  "\<exists>w1. w_trace w1 = w_trace w \<and>
     (circuit_for st p w = (Inr (circuit_object p), w1) \<or> (\<exists>e. circuit_for st p w = (Inl e, w1)))"
  by (auto simp: circuit_for_def bindM_def split: option.splits sum.splits)

interpretation no_refresh: provider_invariant S "emits (\<lambda>e. \<not> is_post e) t0" for S :: "('r, 'x) services" and t0
  by unfold_locales (auto intro: emits_step)

definition tries :: "config \<Rightarrow> nat" where
  "tries cf = nat (outbound_max_retries (cf_settings cf)) + 1"

lemma gets_not_sleeps: "length (filter is_get evs) \<le> length (filter (\<lambda>e. \<not> is_sleep e) evs)"
  by (induction evs) (auto elim!: is_get.elims)

lemma call_provider_gets:
  "\<exists>evs. w_trace (snd (call_provider S cf tool tok args w)) = w_trace w @ evs \<and>
     length (filter is_get evs) \<le> nat (outbound_max_retries (cf_settings cf)) + 1"
proof -
  let ?m = "outbound_max_retries (cf_settings cf)" and ?b = "outbound_base_delay_seconds (cf_settings cf)"
  let ?fn = "bindM http (\<lambda>_. tool_call S tool tok args)"
  obtain w1 where t: "w_trace w1 = w_trace w"
    and c: "circuit_for (cf_settings cf) (tl_provider tool) w = (Inr (circuit_object (tl_provider tool)), w1)
      \<or> (\<exists>e. circuit_for (cf_settings cf) (tl_provider tool) w = (Inl e, w1))"
    using circuit_for_cases by blast
  obtain evs where e: "w_trace (snd (attempts S ?fn (nat ?m) ?b (Some (circuit_object (tl_provider tool))) default_retryable 0 (nat ?m + 1) w1))
      = w_trace w @ evs" and b: "backoff_trace ?b 0 (nat ?m) evs"
    using attempts_trace [OF http_then_call_one_effect [of S tool tok args], of "Some (circuit_object (tl_provider tool))" 0 "nat ?m + 1" "nat ?m"
        S ?b default_retryable w1] t by auto
  have "length (filter is_get evs) \<le> nat ?m + 1"
    using b gets_not_sleeps [of evs] by (auto simp: backoff_trace_def)
  moreover have "w_trace (snd (call_provider S cf tool tok args w)) \<in> {w_trace w, w_trace w @ evs}"
    using c e t by (auto simp: call_provider_def call_with_retries_def simp del: attempts.simps)
  ultimately show ?thesis by auto
qed

lemma call_provider_costs: "costs (call_provider S cf tool tok args) (tries cf) 0"
  unfolding costs_def tries_def
proof
  fix w
  obtain evs where e: "w_trace (snd (call_provider S cf tool tok args w)) = w_trace w @ evs"
    "length (filter is_get evs) \<le> nat (outbound_max_retries (cf_settings cf)) + 1"
    using call_provider_gets by blast
  have "emits (\<lambda>e. \<not> is_post e) (w_trace w) (snd (call_provider S cf tool tok args w))"
    by (rule keepsD [OF no_refresh.keeps_call_provider emits_refl])
  then have "length (filter is_post evs) \<le> 0" using e(1) by (auto simp: emits_def list_all_iff filter_empty_conv)
  then show "\<exists>evs. w_trace (snd (call_provider S cf tool tok args w)) = w_trace w @ evs \<and>
      length (filter is_get evs) \<le> nat (outbound_max_retries (cf_settings cf)) + 1 \<and> length (filter is_post evs) \<le> 0"
    using e by blast
qed

section \<open>The refresh\<close>

lemma http_send_post_costs: "costs (http_send S (HttpPost u d)) 0 1"
  by (simp add: costs_def http_send_trace)

lemma refresh_costs:
  fixes S :: "('r, 'x) services"
  shows "triple (sent a b t0) (refresh_or_outcome S cf account start) (\<lambda>_. sent a (b + 1) t0) (\<lambda>_. sent a (b + 1) t0)"
proof -
  let ?Q = "sent a (b + 1) t0 :: ('r, 'x) world \<Rightarrow> bool"
  have keep: "triple (sent a b t0) m (\<lambda>_. sent a b t0) (\<lambda>_. ?Q)" if "keeps (sent a b t0) m" for m :: "('r, 'x, 'a) io"
    by (rule keeps_weaken [OF that]) (erule sent_mono; simp)
  have post: "triple (sent a b t0) (http_send S (HttpPost u d)) (\<lambda>_. ?Q) (\<lambda>_. ?Q)" for u d
    using costs_sent [OF http_send_post_costs, of a b t0] by simp
  have r: "triple (sent a b t0) (refresh_access_token S st tok) (\<lambda>_. ?Q) (\<lambda>_. ?Q)" for st tok
    unfolding refresh_access_token_def refresh_request_def
    by (rule triple_bindM [OF post]) (intro wp, simp)
  have c: "keeps ?Q (commit S Inr [])"
    by (rule keeps_commit) (auto simp: sent_def)
  have "triple (sent a b t0) (refresh_credential S cf account) (\<lambda>_. ?Q) (\<lambda>_. ?Q)"
    unfolding refresh_credential_def
    by (rule triple_bindM [OF keep], (intro wp; simp), rule triple_bindM [OF keep], (intro wp; simp),
        rule triple_bindM [OF r]) (intro wp c; simp)
  then show ?thesis
    unfolding refresh_or_outcome_def
    by (intro triple_catchM [where R = "\<lambda>_. ?Q"] triple_bindM [where R = "\<lambda>_. ?Q"] wp)
qed

section \<open>The whole invocation\<close>

lemma keeps_sent:
  fixes m :: "('r, 'x, 'a) io"
  assumes "keeps (sent a b t0) m" and "a \<le> a'" and "b \<le> b'"
  shows "triple (sent a b t0) m (\<lambda>_. sent a b t0) (\<lambda>_. sent a' b' t0)"
  by (rule keeps_weaken [OF assms(1)]) (erule sent_mono [OF _ assms(2,3)])

lemma last_call_costs:
  fixes S :: "('r, 'x) services"
  shows "triple (sent a b t0) (last_call S cf tool tok args start) (\<lambda>_. sent (a + tries cf) b t0) (\<lambda>_. sent (a + tries cf) b t0)"
proof -
  have c: "triple (sent a b t0) (tryM (call_provider S cf tool tok args)) (\<lambda>_. sent (a + tries cf) b t0) (\<lambda>_. sent (a + tries cf) b t0)"
    by (rule triple_conseq [OF triple_tryM [OF costs_sent [OF call_provider_costs]]]) (auto split: sum.splits)
  show ?thesis
    unfolding last_call_def call_failed_def by (rule triple_bindM [OF c], intro wp)
qed

lemma call_loop_costs:
  fixes S :: "('r, 'x) services"
  assumes "refreshed \<or> b = 0"
  shows "triple (sent 0 b t0) (call_loop S cf gid h account tool refreshed tok args start)
    (\<lambda>_. sent (2 * tries cf) (max b 1) t0) (\<lambda>_. sent (2 * tries cf) (max b 1) t0)"
proof -
  let ?n = "tries cf"
  let ?Q = "sent (2 * ?n) (max b 1) t0 :: ('r, 'x) world \<Rightarrow> bool"
  have mono: "triple P m (\<lambda>_. ?Q) (\<lambda>_. ?Q)" if "triple P m (\<lambda>_. sent a' b' t0) (\<lambda>_. sent a' b' t0)" "a' \<le> 2 * ?n" "b' \<le> max b 1"
    for P :: "('r, 'x) world \<Rightarrow> bool" and m :: "('r, 'x, 'a) io" and a' b'
    by (rule triple_conseq [OF that(1)]) (use that(2,3) in \<open>auto elim: sent_mono\<close>)
  have c: "triple (sent 0 b t0) (tryM (call_provider S cf tool tok args)) (\<lambda>_. sent ?n b t0) (\<lambda>_. ?Q)"
    by (rule triple_conseq [OF triple_tryM [OF costs_sent [OF call_provider_costs], where E' = "\<lambda>_ _. False"]])
      (auto split: sum.splits)
  have leave: "triple (sent ?n b t0) m (\<lambda>_. ?Q) (\<lambda>_. ?Q)" if "keeps (sent ?n b t0) m" for m :: "('r, 'x, 'a) io"
    by (rule mono [OF that]) simp_all
  have r: "triple (sent ?n b t0) (refresh_or_outcome S cf account start) (\<lambda>_. sent ?n (b + 1) t0) (\<lambda>_. ?Q)" if "b = 0"
    by (rule triple_conseq [OF refresh_costs [of ?n b]]) (use that in \<open>auto elim: sent_mono\<close>)
  have chk: "triple (sent ?n (b + 1) t0) (is_revoked_now S cf gid h) (\<lambda>_. sent ?n (b + 1) t0) (\<lambda>_. ?Q)" if "b = 0"
    by (rule keeps_sent) (use that in \<open>auto intro: wp\<close>)
  have after: "triple (sent ?n (b + 1) t0) (if x then denied err reason start else last_call S cf tool nt args start) (\<lambda>_. ?Q) (\<lambda>_. ?Q)"
    if "b = 0" for x err reason nt
    by (intro triple_if mono [OF keeps_outcome] mono [OF last_call_costs]) (use that in simp_all)
  have stop: "triple (sent ?n (b + 1) t0) (ret o') (\<lambda>_. ?Q) (\<lambda>_. ?Q)" if "b = 0" for o' :: invoke_outcome
    by (rule triple_ret) (use that in \<open>auto elim: sent_mono\<close>)
  have fail: "keeps (sent ?n b t0) (call_failed tool start e)" for e :: exn and S :: "('r, 'x) services"
    unfolding call_failed_def by (intro wp)
  show ?thesis
    unfolding call_loop_def
    apply (rule triple_bindM [OF c], rule triple_case_sum, rule triple_if)
      apply (rule triple_bindM [OF r], use assms in blast, rule triple_case_sum, rule stop, use assms in blast)
      apply (rule triple_bindM [OF chk], use assms in blast, rule after, use assms in blast)
     apply (rule leave [OF fail])
    apply (rule leave [OF keeps_outcome])
    done
qed

lemma usable_token_costs:
  fixes S :: "('r, 'x) services"
  shows "triple (sent 0 0 t0) (usable_token S cf account start)
    (\<lambda>r. case r of Inl _ \<Rightarrow> sent 0 1 t0 | Inr (_, refreshed) \<Rightarrow> sent 0 (if refreshed then 1 else 0) t0) (\<lambda>_. sent 0 1 t0)"
    (is "triple _ _ ?Q _")
proof -
  let ?Z = "sent 0 0 t0 :: ('r, 'x) world \<Rightarrow> bool"
  have up: "sent 0 1 t0 w" if "?Z w" for w using that by (rule sent_mono) simp_all
  have keep: "triple ?Z m (\<lambda>_. ?Z) (\<lambda>_. sent 0 1 t0)" if "keeps ?Z m" for m :: "('r, 'x, 'a) io"
    by (rule keeps_sent [OF that]) simp_all
  have fl: "triple ?Z (bindM (failed msg start) (\<lambda>o'. ret (Inl o'))) ?Q (\<lambda>_. sent 0 1 t0)" for msg
    by (rule triple_bindM [OF keep [OF keeps_outcome]], rule triple_ret) (simp add: up del: One_nat_def)
  have stored: "triple ?Z (bindM (tryM (awaiting S AwaitThread (decrypt S (cf_cipher cf) blob))) (\<lambda>r. case r of
      Inl e \<Rightarrow> if is_ClientError e \<or> is_ValueError e
        then bindM (failed ''stored credential could not be decrypted'' start) (\<lambda>o'. ret (Inl o')) else raise e
      | Inr t \<Rightarrow> ret (Inr (t, False)))) ?Q (\<lambda>_. sent 0 1 t0)" for blob
    by (rule triple_bindM [OF keep], (intro wp; simp), intro triple_case_sum triple_if fl triple_raise triple_ret) (simp_all add: up del: One_nat_def)
  have r: "triple ?Z (refresh_or_outcome S cf account start) (\<lambda>_. sent 0 1 t0) (\<lambda>_. sent 0 1 t0)"
    using refresh_costs [of 0 0 t0 S cf account start] by simp
  show ?thesis
    unfolding usable_token_def Let_def
    by (rule triple_bindM [OF keep [OF keeps_pure(3)]])
      (intro triple_if stored fl triple_bindM [OF r] triple_case_sum triple_ret; simp)
qed

text \<open>
  From the provider call to the whole invocation: whatever \<open>_execute_call\<close>
  establishes from \<open>P\<close> on every exit, \<open>invoke\<close> establishes, when the rest of the path
  cannot tell the two predicates from rows and effects and an audit row keeps them.
\<close>

locale execution_contract =
  fixes S :: "('r, 'x) services" and cf :: config and P Q :: "('r, 'x) world \<Rightarrow> bool"
  assumes cores: "core P" "core Q" and stables: "env_stable S P" "env_stable S Q"
    and weaker: "\<And>w. P w \<Longrightarrow> Q w"
    and execute: "\<And>g h tool args start. triple P (execute_call S cf g h tool args start) (\<lambda>_. Q) (\<lambda>_. Q)"
    and audit: "\<And>w row db. Q w \<Longrightarrow>
      Q (w\<lparr>w_db := db\<lparr>db_audit := db_audit db @ [row]\<rparr>, w_trace := w_trace w @ [EvAudit row], w_dirty := [], w_locked := None\<rparr>)"
begin

lemma scores: "score P" "score Q"
  using cores by simp_all

lemma before: "keeps P m \<Longrightarrow> triple P m (\<lambda>_. P) (\<lambda>_. Q)"
  by (rule keeps_weaken) (auto intro: weaker)

lemma leaving: "keeps P m \<Longrightarrow> triple P m (\<lambda>_. Q) (\<lambda>_. Q)"
  by (erule triple_conseq) (auto intro: weaker)

lemma idempotent:
  assumes "triple P m (\<lambda>_. Q) (\<lambda>_. Q)"
  shows "triple P (with_idempotency S cf g tn k start m) (\<lambda>_. Q) (\<lambda>_. Q)"
proof -
  have fin: "triple P (finish_idempotent S window key owner m) (\<lambda>_. Q) (\<lambda>_. Q)" for window key owner
    unfolding finish_idempotent_def
  proof (rule triple_bindM [where R = "\<lambda>_. Q"], rule triple_catchM [OF assms])
    fix e show "keeps Q (if is_Exception e then bindM (release S key (Some owner)) (\<lambda>_. raise e) else raise e :: ('r, 'x, invoke_outcome) io)"
      by (intro wp stables scores)
  qed (intro wp stables scores)
  show ?thesis
  proof (cases "k = None \<or> cf_idempotency cf = None")
    case True
    then show ?thesis using assms by (auto simp: with_idempotency_def split: option.split)
  next
    case False
    then obtain key window where kw: "k = Some key" "cf_idempotency cf = Some window" by auto
    have g: "keeps P (tryM (idem_get S n))" "keeps P (reserve S n)" for n by (intro wp stables scores)+
    show ?thesis
      unfolding with_idempotency_def kw Let_def
      by simp (rule triple_bindM [OF before [OF g(1)]],
        intro triple_case_sum triple_if leaving [OF keeps_outcome] triple_raise triple_bindM [OF before [OF g(2)]]
          triple_case_option fin, erule weaker)
  qed
qed

lemma resolved: "triple P (invoke_resolved S cf g h tn args k fast start) (\<lambda>_. Q) (\<lambda>_. Q)"
proof -
  have c: "keeps P (if cf_rate_limiter cf then check S key n 60 else ret True)" for key n by (intro wp stables scores)
  have l: "keeps P (bindM (inc x) (\<lambda>_. denied err reason start))" for x err reason by (intro wp stables scores)
  show ?thesis
    unfolding invoke_resolved_def
    by (intro triple_if leaving [OF keeps_outcome] triple_bindM [OF before [OF keeps_pure(3)]] triple_bindM [OF before [OF c]]
        leaving [OF l] triple_case_sum idempotent execute)
qed

lemma recorded: "keeps Q (record_call S gid tn args st lat)"
proof -
  have "keeps Q (commit S (insert_audit row) [EvAudit row])" for row
    by (rule keeps_commit [OF stables(2) cores(2)]) (auto dest!: insert_audit_frame intro: audit)
  then show ?thesis unfolding record_call_def Let_def by (intro wp scores)
qed

lemma granted: "triple P (invoke_grant S cf g h tn args k fast start) (\<lambda>_. Q) (\<lambda>_. Q)"
  unfolding invoke_grant_def
proof (rule triple_bindM [where R = "\<lambda>_. Q"], rule triple_catchM [OF resolved])
  fix e show "keeps Q (if is_Exception e
      then bindM (rollback S) (\<lambda>_. failed ''internal error during tool invocation'' start) else raise e)"
    by (intro wp stables cores)
qed (intro wp recorded)

lemma session_body: "triple P (resolve_and_invoke S cf h tn args k start) (\<lambda>_. Q) (\<lambda>_. Q)"
proof -
  have c: "keeps P (if cf_grant_cache cf then is_revoked S h else ret False)" by (intro wp stables scores)
  show ?thesis
    unfolding resolve_and_invoke_def
    by (rule triple_bindM [OF before [OF c]], rule triple_bindM [OF before [OF keeps_select [OF stables(1)]]],
        rule triple_lift_bind, erule weaker, intro triple_case_option leaving [OF keeps_outcome] granted)
qed

lemma whole: "triple P (invoke S cf token tn args k) (\<lambda>_. Q) (\<lambda>_. Q)"
  unfolding invoke_def Let_def
  by (rule triple_bindM [OF before [OF keeps_pure(2)]], rule triple_bindM [OF before [OF keeps_tryM [OF keeps_verify]]],
      intro triple_case_sum triple_if leaving [OF keeps_outcome] triple_raise triple_with_session session_body cores,
      erule weaker)

end

lemma execute_call_costs:
  fixes S :: "('r, 'x) services"
  shows "triple (sent 0 0 t0) (execute_call S cf g h tool args start) (\<lambda>_. sent (2 * tries cf) 1 t0) (\<lambda>_. sent (2 * tries cf) 1 t0)"
proof -
  let ?B = "sent (2 * tries cf) 1 t0 :: ('r, 'x) world \<Rightarrow> bool"
  have up: "?B w" if "sent 0 b t0 w" "b \<le> 1" for w b using that by (auto elim: sent_mono)
  have sel: "triple (sent 0 0 t0) (select S (\<lambda>db. get_account db i)) (\<lambda>_. sent 0 0 t0) (\<lambda>_. ?B)" for i
    by (rule keeps_sent) (auto intro: wp)
  have tok: "triple (sent 0 0 t0) (usable_token S cf account start)
    (\<lambda>r. case r of Inl _ \<Rightarrow> sent 0 1 t0 | Inr (_, refreshed) \<Rightarrow> sent 0 (if refreshed then 1 else 0) t0) (\<lambda>_. ?B)" for account
    by (rule triple_conseq [OF usable_token_costs]) (auto intro: up [where b = 1] simp del: One_nat_def)
  have chk: "triple (sent 0 b t0) (is_revoked_now S cf gid h) (\<lambda>_. sent 0 b t0) (\<lambda>_. ?B)" if "b \<le> 1" for gid b
    by (rule keeps_sent) (use that in \<open>auto intro: wp\<close>)
  have go: "triple (sent 0 b t0) (if x then denied err reason start else call_loop S cf gid h account tool refreshed t args start) (\<lambda>_. ?B) (\<lambda>_. ?B)"
    if "b = (if refreshed then 1 else 0)" for b refreshed x err reason gid account t
  proof (rule triple_if)
    show "triple (sent 0 b t0) (denied err reason start) (\<lambda>_. ?B) (\<lambda>_. ?B)"
      by (rule triple_conseq [OF keeps_outcome [of "sent 0 b t0"]]) (use that up in auto)
    show "triple (sent 0 b t0) (call_loop S cf gid h account tool refreshed t args start) (\<lambda>_. ?B) (\<lambda>_. ?B)"
      using call_loop_costs [of refreshed b t0 S cf gid h account tool t args start] that by (simp add: max_def split: if_splits)
  qed
  show ?thesis
    unfolding execute_call_def
    apply (rule triple_bindM [OF sel], rule triple_case_option)
     apply (rule triple_conseq [OF keeps_outcome [of "sent 0 0 t0"]]; (assumption | erule up; simp)?)
    apply (rule triple_bindM [OF tok], rule triple_case_sum)
     apply (rule triple_ret, simp del: One_nat_def, erule up, simp)
    subgoal for row account r x
      by (cases x) (auto intro!: triple_bindM [OF chk] go simp del: One_nat_def)
    done
qed

interpretation counted: execution_contract S cf "sent 0 0 t0" "sent (2 * tries cf) 1 t0"
  for S :: "('r, 'x) services" and cf t0
  by unfold_locales (auto intro: sent_mono execute_call_costs [simplified] simp: sent_def)

text \<open>
  C16: the requests of one invocation are bounded.  On every exit and under every
  interleaving an invocation has sent at most \<open>2 * (1 + max_retries)\<close> requests to
  the provider and at most one to the token endpoint.
\<close>

theorem invoke_request_bounds:
  "\<exists>evs. w_trace (snd (invoke S cf token tn args k w)) = w_trace w @ evs \<and>
     int (length (filter is_get evs)) \<le> 2 * (1 + max 0 (outbound_max_retries (cf_settings cf))) \<and>
     length (filter is_post evs) \<le> 1"
proof -
  obtain r w' where i: "invoke S cf token tn args k w = (r, w')" by force
  have "sent 0 0 (w_trace w) w" by simp
  then have "sent (2 * tries cf) 1 (w_trace w) w'"
    using tripleD_Inr [OF counted.whole] tripleD_Inl [OF counted.whole] i by (cases r) blast+
  then show ?thesis using i by (auto simp: sent_def tries_def nat_le_iff le_nat_iff)
qed

end
