(* ===== verification/Cb_Invoke_Checks.thy ===== *)
theory Cb_Invoke_Checks
  imports Cb_Invoke_Bounds
begin

text \<open>
  The checks between a grant token and the provider: a call that fails one of them
  sends nothing, however the checks interleave with the rest of the system.
\<close>

section \<open>Closed gates\<close>

text \<open>The token does not verify for the requested tool.\<close>

definition no_claims :: "('r, 'x) services \<Rightarrow> config \<Rightarrow> string \<Rightarrow> string \<Rightarrow> ('r, 'x) world \<Rightarrow> bool" where
  "no_claims S cf token tn w \<longleftrightarrow>
     (case verify_at S token (cf_settings cf) (w_now w) of Inl _ \<Rightarrow> True | Inr claims \<Rightarrow> cl_tool_name claims \<noteq> tn)"

text \<open>A row that does not authorise the call from instant \<open>t\<close> on: revoked, expired, or not of the tool's scope.\<close>

definition bad_row :: "config \<Rightarrow> string \<Rightarrow> int \<Rightarrow> grant \<Rightarrow> bool" where
  "bad_row cf tn t g \<longleftrightarrow>
     gr_revoked_at g \<noteq> None \<or> instant (gr_expires_at g) \<le> t \<or>
     (case get_tool (cf_tools cf) tn of Inl _ \<Rightarrow> True | Inr tool \<Rightarrow> gr_scope g \<noteq> tl_scope tool)"

definition bad_rows :: "('r, 'x) services \<Rightarrow> config \<Rightarrow> string \<Rightarrow> string \<Rightarrow> int \<Rightarrow> ('r, 'x) world \<Rightarrow> bool" where
  "bad_rows S cf token tn t w \<longleftrightarrow>
     list_all (bad_row cf tn t) (grants_by_hash (w_db w) (hash_token S token)) \<and> t \<le> w_now w"

abbreviation inside :: "event list \<Rightarrow> ('r, 'x) world \<Rightarrow> bool" where
  "inside t0 \<equiv> emits (\<lambda>e. \<not> is_http e) t0"

abbreviation unsuccessful :: "event list \<Rightarrow> invoke_outcome \<Rightarrow> ('r, 'x) world \<Rightarrow> bool" where
  "unsuccessful t0 \<equiv> (\<lambda>o' w. inside t0 w \<and> io_status o' \<noteq> ''success'')"

lemma bad_rows_core: "core (bad_rows S cf token tn t)"
  by (simp add: core_def bad_rows_def)

lemma recorded_inside:
  "triple (unsuccessful t0 o') (record_call S gid tn args st lat) (\<lambda>_. unsuccessful t0 o') (\<lambda>_. inside t0)"
  using record_call_quietly [of t0 S gid tn args st lat] by (cases "io_status o' = ''success''") (auto simp: triple_def)

text \<open>A bad row stops at one of the checks.\<close>

lemma bad_row_resolved:
  fixes S :: "('r, 'x) services"
  assumes "bad_row cf tn t g" and "env_stable S J" and "core J" and "\<And>w. J w \<Longrightarrow> t \<le> w_now w"
  shows "triple (\<lambda>w. J w \<and> inside t0 w) (invoke_resolved S cf g h tn args k fast start)
    (unsuccessful t0) (\<lambda>_. inside t0)"
proof -
  let ?I = "\<lambda>w. J w \<and> inside t0 w"
  have st: "env_stable S ?I" by (intro env_stable_conj assms emits_stable)
  have co: "core ?I" by (intro core_conj assms emits_core)
  have d: "triple ?I (denied err reason start) (unsuccessful t0) (\<lambda>_. inside t0)" for err reason
    by (rule triple_outcome) simp
  have now: "triple ?I utcnow (\<lambda>now w. ?I w \<and> t \<le> instant now) (\<lambda>_. inside t0)"
    using assms(4) by (simp add: triple_def utcnow_run)
  have lim: "keeps ?I (if cf_rate_limiter cf then check S key n 60 else ret True)" for key n
    by (intro wp st core_score [OF co])
  have over: "triple ?I (bindM (inc x) (\<lambda>_. denied err reason start)) (unsuccessful t0) (\<lambda>_. inside t0)" for x err reason
    by (rule triple_bindM [OF keeps_weaken [OF keeps_local(1) [OF core_score [OF co]]] d]) simp
  have tail: "triple ?I (case get_tool (cf_tools cf) tn of
      Inl e \<Rightarrow> denied (exn_str e) ''not_found'' start
    | Inr tool \<Rightarrow> if gr_scope g \<noteq> tl_scope tool then denied (err tool) ''scope_mismatch'' start else m tool)
      (unsuccessful t0) (\<lambda>_. inside t0)"
    if "gr_revoked_at g = None" "\<not> instant (gr_expires_at g) \<le> t" for err m
    using assms(1) that by (auto simp: bad_row_def split: sum.splits intro: d)
  show ?thesis
    unfolding invoke_resolved_def
    apply (intro triple_if d triple_bindM [OF now] triple_fact)
    apply (rule triple_bindM [OF keeps_weaken [OF lim]], simp, intro triple_if over)
    apply (rule tail, auto)
    done
qed

lemma bad_row_granted:
  fixes S :: "('r, 'x) services"
  assumes "bad_row cf tn t g" and "env_stable S J" and "core J" and "\<And>w. J w \<Longrightarrow> t \<le> w_now w"
  shows "triple (\<lambda>w. J w \<and> inside t0 w) (invoke_grant S cf g h tn args k fast start) (unsuccessful t0) (\<lambda>_. inside t0)"
  unfolding invoke_grant_def
proof (rule triple_bindM [where R = "unsuccessful t0"], rule triple_catchM)
  show "triple (\<lambda>w. J w \<and> inside t0 w) (invoke_resolved S cf g h tn args k fast start) (unsuccessful t0) (\<lambda>_. inside t0)"
    by (rule bad_row_resolved [OF assms])
  fix e show "triple (inside t0) (if is_Exception e
      then bindM (rollback S) (\<lambda>_. failed ''internal error during tool invocation'' start) else raise e) (unsuccessful t0) (\<lambda>_. inside t0)"
    by (intro triple_if triple_raise triple_bindM [OF keeps_rollback] triple_outcome) simp_all
qed (intro triple_bindM [OF recorded_inside] triple_ret)

lemma bad_rows_invoke:
  fixes S :: "('r, 'x) services"
  assumes "env_stable S (bad_rows S cf token tn t)"
  shows "triple (\<lambda>w. bad_rows S cf token tn t w \<and> inside t0 w) (invoke S cf token tn args k) (unsuccessful t0) (\<lambda>_. inside t0)"
    (is "triple ?I _ _ _")
proof -
  let ?h = "hash_token S token"
  have st: "env_stable S ?I" by (intro env_stable_conj assms emits_stable)
  have co: "core ?I" by (intro core_conj bad_rows_core emits_core)
  have d: "triple ?I (denied err reason start) (unsuccessful t0) (\<lambda>_. inside t0)" for err reason start
    by (rule triple_outcome) simp
  have keep: "triple ?I m (\<lambda>_. ?I) (\<lambda>_. inside t0)" if "keeps ?I m" for m :: "('r, 'x, 'a) io"
    by (rule keeps_weaken [OF that]) simp
  have cache: "keeps ?I (if cf_grant_cache cf then is_revoked S ?h else ret False)" by (intro wp st core_score [OF co])
  have sel: "triple ?I (select S (\<lambda>db. grants_by_hash db ?h)) (\<lambda>rows w. ?I w \<and> list_all (bad_row cf tn t) rows) (\<lambda>_. inside t0)"
    by (rule triple_conseq [OF triple_select [OF st]]) (auto simp: bad_rows_def)
  have g: "triple ?I (invoke_grant S cf g ?h tn args k fast start) (unsuccessful t0) (\<lambda>_. inside t0)" if "bad_row cf tn t g" for g fast start
    by (rule bad_row_granted [OF that assms bad_rows_core]) (simp add: bad_rows_def)
  have row: "triple (\<lambda>w. ?I w \<and> list_all (bad_row cf tn t) rows) (case x of
        None \<Rightarrow> denied ''grant not found'' ''not_found'' start
      | Some g \<Rightarrow> invoke_grant S cf g ?h tn args k fast start) (unsuccessful t0) (\<lambda>_. inside t0)"
    if "scalar_one_or_none rows = Inr x" for rows x fast start
    by (rule triple_fact) (use that in \<open>cases rows rule: scalar_one_or_none.cases; auto intro: d g\<close>)
  have body: "triple ?I (resolve_and_invoke S cf ?h tn args k start) (unsuccessful t0) (\<lambda>_. inside t0)" for start
    unfolding resolve_and_invoke_def
    by (rule triple_bindM [OF keep [OF cache]], rule triple_bindM [OF sel], rule triple_lift_bind, simp, rule row)
  have oc: "core (unsuccessful t0 o')" for o' by (simp add: core_def emits_def)
  show ?thesis
    unfolding invoke_def Let_def
    by (rule triple_bindM [OF keep [OF keeps_pure(2)]], rule triple_bindM [OF keep [OF keeps_tryM [OF keeps_verify]]],
        intro triple_case_sum triple_if d triple_raise triple_with_session body co oc emits_core) simp
qed

section \<open>Nothing is decrypted\<close>

text \<open>
  The services with other decryption functions: a run that is the same under all of them
  has not called any.
\<close>

definition decrypting_by :: "(bytes \<Rightarrow> bytes \<Rightarrow> bytes \<Rightarrow> exn + bytes option) \<Rightarrow> (string \<Rightarrow> bytes \<Rightarrow> 'x \<Rightarrow> (exn + bytes) \<times> 'x)
    \<Rightarrow> ('r, 'x) services \<Rightarrow> ('r, 'x) services" where
  "decrypting_by aes kms S = S\<lparr>sv_aes_decrypt := aes, sv_kms_decrypt := kms\<rparr>"

lemma decrypting_by_fields [simp]:
  "sv_redis (decrypting_by aes kms S) = sv_redis S" "sv_uuid4 (decrypting_by aes kms S) = sv_uuid4 S"
  "sv_sha256_hex (decrypting_by aes kms S) = sv_sha256_hex S" "sv_jwt_decode (decrypting_by aes kms S) = sv_jwt_decode S"
  by (simp_all add: decrypting_by_def)

lemma decrypting_by_awaits [simp]: "awaiting (decrypting_by aes kms S) = awaiting S"
proof -
  have "suspend (decrypting_by aes kms S) = suspend S" by (intro ext) (simp add: suspend_def env_def decrypting_by_def)
  then show ?thesis unfolding awaiting_def by (rule arg_cong)
qed

lemma decrypting_by_redis [simp]:
  "redis_exists (decrypting_by aes kms S) = redis_exists S" "redis_incr (decrypting_by aes kms S) = redis_incr S"
  "redis_expire (decrypting_by aes kms S) = redis_expire S"
  by (intro ext; simp add: redis_exists_def redis_incr_def redis_expire_def)+

lemma decrypting_by_same [simp]:
  "select (decrypting_by aes kms S) f = select S f" "commit (decrypting_by aes kms S) ins evs = commit S ins evs"
  "rollback (decrypting_by aes kms S) = rollback S" "is_revoked (decrypting_by aes kms S) h = is_revoked S h"
  "check (decrypting_by aes kms S) key n win = check S key n win" "hash_token (decrypting_by aes kms S) token = hash_token S token"
  "record_call (decrypting_by aes kms S) gid tn args st lat = record_call S gid tn args st lat"
  "verify_at (decrypting_by aes kms S) token st' now = verify_at S token st' now"
  by (simp_all add: select_def commit_def rollback_def is_revoked_def check_def
      hash_token_def record_call_def uuid4_def hash_arguments_def verify_at_def Let_def cong: if_cong)

text \<open>A bad row never gets as far as the credential.\<close>

lemma bad_row_same:
  assumes "bad_row cf tn t g" and "t \<le> w_now w"
  shows "invoke_grant (decrypting_by aes kms S) cf g h tn args k fast start w = invoke_grant S cf g h tn args k fast start w"
proof -
  have "invoke_resolved (decrypting_by aes kms S) cf g h tn args k fast start w = invoke_resolved S cf g h tn args k fast start w"
  proof (cases "fast \<or> gr_revoked_at g \<noteq> None \<or> instant (gr_expires_at g) \<le> t")
    case True
    then show ?thesis using assms(2) by (auto simp: invoke_resolved_def utcnow_run bindM_def)
  next
    case False
    then have "case get_tool (cf_tools cf) tn of Inl _ \<Rightarrow> True | Inr tool \<Rightarrow> gr_scope g \<noteq> tl_scope tool"
      using assms(1) by (simp add: bad_row_def)
    then show ?thesis by (cases "get_tool (cf_tools cf) tn") (simp_all add: invoke_resolved_def cong: if_cong)
  qed
  then show ?thesis unfolding invoke_grant_def bindM_def catchM_def decrypting_by_same by simp
qed

lemma bad_rows_same:
  assumes "env_stable S (bad_rows S cf token tn t)" and "bad_rows S cf token tn t w"
  shows "invoke (decrypting_by aes kms S) cf token tn args k w = invoke S cf token tn args k w"
proof -
  let ?h = "hash_token S token" and ?w = "w\<lparr>w_dirty := [], w_locked := None\<rparr>"
  have i: "bad_rows S cf token tn t ?w" using assms(2) by (simp add: bad_rows_def)
  have keep: "keeps (bad_rows S cf token tn t) (if cf_grant_cache cf then is_revoked S ?h else ret False)"
    by (intro wp assms(1) core_score [OF bad_rows_core])
  have sel: "triple (bad_rows S cf token tn t) (select S (\<lambda>db. grants_by_hash db ?h))
      (\<lambda>rows w. bad_rows S cf token tn t w \<and> list_all (bad_row cf tn t) rows) (\<lambda>_ _. True)"
    by (rule triple_conseq [OF triple_select [OF assms(1)]]) (auto simp: bad_rows_def)
  have fr: "triple (bad_rows S cf token tn t) (first_read S cf ?h)
      (\<lambda>(fast, rows) w. t \<le> w_now w \<and> list_all (bad_row cf tn t) rows) (\<lambda>_ _. True)"
    unfolding first_read_def
    by (rule triple_bindM [OF keeps_weaken [OF keep]], simp, rule triple_bindM [OF sel]) (auto simp: triple_def bad_rows_def)
  have r: "first_read (decrypting_by aes kms S) cf ?h = first_read S cf ?h" by (simp add: first_read_def)
  have "resolve_and_invoke (decrypting_by aes kms S) cf ?h tn args k start ?w = resolve_and_invoke S cf ?h tn args k start ?w" for start
  proof (cases "first_read S cf ?h ?w")
    case (Pair q w2)
    show ?thesis
    proof (cases q)
      case (Inr p)
      obtain fast rows where p: "p = (fast, rows)" by force
      then have "t \<le> w_now w2" "list_all (bad_row cf tn t) rows" using tripleD_Inr [OF fr i] Pair Inr by auto
      then show ?thesis
        using Pair Inr p by (cases rows rule: scalar_one_or_none.cases) (simp_all add: resolve_first r bad_row_same)
    qed (simp add: resolve_first r Pair)
  qed
  then show ?thesis
    by (cases "\<exists>claims. verify_at S token (cf_settings cf) (w_now w) = Inr claims \<and> cl_tool_name claims = tn")
      (auto simp: invoke_verified session_run, auto simp: invoke_def monotonic_def tryM_def bindM_def verify_run Let_def split: sum.split)
qed

lemma no_claims_invoke:
  assumes "no_claims S cf token tn w"
  shows "case invoke S cf token tn args k w of
    (Inr o', w') \<Rightarrow> w' = w \<and> io_status o' \<noteq> ''success'' | (Inl e, w') \<Rightarrow> w' = w"
  using assms
  by (auto simp: invoke_def monotonic_def tryM_def bindM_def verify_run no_claims_def outcome_run split: sum.splits)

lemma no_claims_same:
  "no_claims S cf token tn w \<Longrightarrow> invoke (decrypting_by aes kms S) cf token tn args k w = invoke S cf token tn args k w"
  by (auto simp: invoke_def monotonic_def tryM_def bindM_def verify_run no_claims_def split: sum.splits)

text \<open>
  C4: every check must pass before anything leaves the broker.  If the token does not
  verify for the requested tool, or the rows with its hash are all revoked, expired
  or of another scope (or the tool is unknown) and the environment does not change
  that, then \<open>invoke\<close> sends no request to the provider or to the token endpoint,
  decrypts nothing, so that its outcome and everything it leaves behind, the registered
  secrets and the state of the key service included, would be the same under any other
  decryption, and does not report success.
\<close>

theorem unauthorised_call_stays_inside:
  assumes "no_claims S cf token tn w \<or> env_stable S (bad_rows S cf token tn t) \<and> bad_rows S cf token tn t w"
    and "invoke S cf token tn args k w = (r, w')"
  shows "(\<exists>evs. w_trace w' = w_trace w @ evs \<and> list_all (\<lambda>e. \<not> is_http e) evs) \<and>
    (\<forall>aes kms. invoke (decrypting_by aes kms S) cf token tn args k w = (r, w')) \<and>
    (case r of Inr o' \<Rightarrow> io_status o' \<noteq> ''success'' | Inl e \<Rightarrow> True)"
proof (cases "no_claims S cf token tn w")
  case True
  then show ?thesis using no_claims_invoke [OF True, of args k] no_claims_same [OF True] assms(2) by (cases r) auto
next
  case False
  then have st: "env_stable S (bad_rows S cf token tn t)" and b: "bad_rows S cf token tn t w" using assms(1) by auto
  then have i: "bad_rows S cf token tn t w \<and> inside (w_trace w) w" by simp
  note run = tripleD_Inr [OF bad_rows_invoke [OF st] i] tripleD_Inl [OF bad_rows_invoke [OF st] i]
  show ?thesis using run [of args k] bad_rows_same [OF st b] assms(2) by (cases r) (auto simp: emits_def)
qed

definition other_scope :: "(memory, nat) world" where
  "other_scope = sample_live\<lparr>w_db := sample_db\<lparr>db_grants := [sample_grant\<lparr>gr_scope := ''write''\<rparr>]\<rparr>\<rparr>"

theorem unauthorised_call_stays_inside_witness:
  "\<not> no_claims sample_services sample_config sample_token ''drive.read'' other_scope \<and>
   list_all (\<lambda>e. \<not> is_http e)
     (w_trace (snd (invoke sample_services sample_config sample_token ''drive.read'' [] None other_scope)))"
proof -
  have b: "bad_rows sample_services sample_config sample_token ''drive.read'' 0 other_scope"
    by (simp add: bad_rows_def other_scope_def grants_by_hash_def bad_row_def)
  have "no_claims sample_services sample_config sample_token ''drive.read'' other_scope \<longleftrightarrow> False"
    by (simp add: no_claims_def other_scope_def sample_token_verifies)
  then show ?thesis
    using unauthorised_call_stays_inside [of sample_services sample_config sample_token "''drive.read''" other_scope 0 "[]" None
      "fst (invoke sample_services sample_config sample_token ''drive.read'' [] None other_scope)"
      "snd (invoke sample_services sample_config sample_token ''drive.read'' [] None other_scope)"] b
    by (auto simp: other_scope_def)
qed

end
