(* ===== verification/Cb_Invoke_Results.thy ===== *)
theory Cb_Invoke_Results
  imports Cb_Invoke_Checks
begin

text \<open>
  What an undisturbed invocation does with its results: errors carry no secret, a
  success is replayed, an unexpected exception becomes an audited failure, a
  refreshed credential is the one that is stored.
\<close>

section \<open>Frames of single fields\<close>

lemma keeps_field: "(\<And>w. f (snd (m w)) = f w) \<Longrightarrow> keeps (\<lambda>w. P (f w)) m"
  by (rule keepsI) simp

lemmas flow = triple_ret triple_raise triple_getM triple_liftE triple_if triple_case_option triple_case_sum
  triple_case_prod triple_case_json keeps_bindM keeps_catchM keeps_tryM keeps_awaiting quiet_stable

lemma secrets_prims:
  fixes S :: "('r, 'x) services"
  assumes "quiet S"
  defines "I \<equiv> (\<lambda>v (w :: ('r, 'x) world). w_secrets w = v)"
  shows "keeps (I v) (draw f)" "keeps (I v) utcnow" "keeps (I v) (redis_get S k)" "keeps (I v) (redis_set S k x nx ex)"
    "keeps (I v) (redis_delete S k)" "keeps (I v) (commit S ins evs)" "keeps (I v) end_transaction" "keeps (I v) (rollback S)"
  unfolding I_def
  by (rule keeps_field; simp add: draw_def world_prim_defs awaiting_quiet [OF assms(1)] commit_def rollback_def catchM_def bindM_def
      flush_and_commit_def split: prod.split sum.split)+

section \<open>Errors carry no secret\<close>

definition clean :: "invoke_outcome \<Rightarrow> string list \<Rightarrow> bool" where
  "clean o' secrets \<longleftrightarrow> (\<forall>e. io_error o' = Some e \<longrightarrow> (\<exists>msg. e = scrub_with secrets msg))"

abbreviation scrubbed :: "('r, 'x, invoke_outcome) io \<Rightarrow> bool" where
  "scrubbed m \<equiv> triple (\<lambda>_. True) m (\<lambda>o' w. clean o' (w_secrets w)) (\<lambda>_ _. True)"

lemma scrubbed_outcome: "scrubbed (outcome st res err reason start c)"
  by (auto simp: triple_def outcome_run clean_def)

lemma scrubbed_bind: "(\<And>x. scrubbed (f x)) \<Longrightarrow> scrubbed (bindM m f)"
  by (rule triple_bindM [OF triple_any])

lemma scrubbed_refresh:
  "triple (\<lambda>_. True) (refresh_or_outcome S cf account start)
     (\<lambda>r w. case r of Inl o' \<Rightarrow> clean o' (w_secrets w) | Inr _ \<Rightarrow> True) (\<lambda>_ _. True)"
  unfolding refresh_or_outcome_def
  by (auto simp: triple_def catchM_def bindM_def outcome_run clean_def split: prod.splits sum.splits)

lemma scrubbed_call_failed: "scrubbed (call_failed tool start e)"
  unfolding call_failed_def by (intro triple_if scrubbed_outcome triple_raise) simp

lemma scrubbed_last_call: "scrubbed (last_call S cf tool tok args start)"
  unfolding last_call_def by (intro scrubbed_bind triple_case_sum scrubbed_call_failed scrubbed_outcome)

lemma scrubbed_after_refresh:
  assumes "\<And>t. scrubbed (f t)"
  shows "scrubbed (bindM (refresh_or_outcome S cf account start) (\<lambda>r. case r of Inl o' \<Rightarrow> ret o' | Inr t \<Rightarrow> f t))"
  by (rule triple_bindM [OF scrubbed_refresh], rule triple_case_sum)
    (auto intro: triple_ret triple_pre [OF assms])

lemma scrubbed_call_loop: "scrubbed (call_loop S cf gid h account tool refreshed tok args start)"
  unfolding call_loop_def
  by (intro scrubbed_bind triple_case_sum triple_if scrubbed_after_refresh scrubbed_call_failed scrubbed_outcome scrubbed_last_call)

lemma scrubbed_usable_token:
  "triple (\<lambda>_. True) (usable_token S cf account start)
     (\<lambda>r w. case r of Inl o' \<Rightarrow> clean o' (w_secrets w) | Inr _ \<Rightarrow> True) (\<lambda>_ _. True)"
proof -
  have f: "triple (\<lambda>_. True) (bindM (failed msg start) (\<lambda>o'. ret (Inl o')))
      (\<lambda>r w. case r of Inl o' \<Rightarrow> clean o' (w_secrets w) | Inr _ \<Rightarrow> True) (\<lambda>_ _. True)" for msg
    by (rule triple_bindM [OF scrubbed_outcome], rule triple_ret) simp
  show ?thesis
    unfolding usable_token_def Let_def
    by (intro triple_bindM [OF triple_any] triple_if f triple_case_sum triple_ret triple_raise triple_bindM [OF scrubbed_refresh]) simp_all
qed

lemma scrubbed_execute: "scrubbed (execute_call S cf g h tool args start)"
  unfolding execute_call_def
  apply (rule scrubbed_bind, rule triple_case_option, rule scrubbed_outcome)
  apply (rule triple_bindM [OF scrubbed_usable_token], rule triple_case_sum)
   apply (rule triple_ret, simp)
  apply (rule triple_pre [where P = "\<lambda>_. True"], intro triple_case_prod scrubbed_bind triple_if scrubbed_outcome scrubbed_call_loop, simp)
  done

lemma clean_kept:
  assumes "\<And>v. keeps (\<lambda>w. w_secrets w = v) m"
  shows "triple (\<lambda>w. clean o' (w_secrets w)) m (\<lambda>_ w. clean o' (w_secrets w)) (\<lambda>_ _. True)"
proof (rule tripleI)
  fix s x s' assume "clean o' (w_secrets s)" "m s = (Inr x, s')"
  then show "clean o' (w_secrets s')" using tripleD_Inr [OF assms [of "w_secrets s"], of s x s'] by simp
qed simp

lemma scrubbed_resolved:
  assumes "quiet S"
  shows "scrubbed (invoke_resolved S cf g h tn args k fast start)"
proof -
  have c: "keeps (\<lambda>w. w_secrets w = v) (if b then complete S n key x ow else release S key ow')" for v b n key x ow ow'
    unfolding complete_def release_def Let_def by (intro flow secrets_prims [OF assms] assms; simp)
  have fin: "scrubbed (finish_idempotent S window key owner m)" if "scrubbed m" for window key owner m
    unfolding finish_idempotent_def
    by (rule triple_bindM [where R = "\<lambda>o' w. clean o' (w_secrets w)"], rule triple_catchM [OF that])
      (intro triple_if scrubbed_bind triple_raise triple_bindM [OF clean_kept [OF c]] triple_ret; simp)+
  have idem: "scrubbed (with_idempotency S cf g tn k start m)" if "scrubbed m" for m
    unfolding with_idempotency_def Let_def using that
    by (auto split: option.split intro!: scrubbed_bind triple_case_sum triple_if scrubbed_outcome triple_raise triple_case_option fin)
  show ?thesis
    unfolding invoke_resolved_def
    by (intro triple_if scrubbed_outcome scrubbed_bind triple_case_sum idem scrubbed_execute)
qed

lemma scrubbed_invoke:
  assumes "quiet S"
  shows "scrubbed (invoke S cf token tn args k)"
proof -
  have rec: "keeps (\<lambda>w. w_secrets w = v) (record_call S gid tn args st lat)" for v gid st lat
    unfolding record_call_def uuid4_def Let_def by (intro flow secrets_prims [OF assms]; simp)
  have g: "scrubbed (invoke_grant S cf g h tn args k fast start)" for g h fast start
    unfolding invoke_grant_def
    by (rule triple_bindM [where R = "\<lambda>o' w. clean o' (w_secrets w)"], rule triple_catchM [OF scrubbed_resolved [OF assms]])
      (intro triple_if scrubbed_bind scrubbed_outcome triple_raise triple_bindM [OF clean_kept [OF rec]] triple_ret; simp)+
  have body: "scrubbed (resolve_and_invoke S cf h tn args k start)" for h start
    unfolding resolve_and_invoke_def by (intro scrubbed_bind triple_case_option scrubbed_outcome g)
  have fin: "triple (\<lambda>w. clean o' (w_secrets w)) (bindM end_transaction (\<lambda>_. ret o')) (\<lambda>o' w. clean o' (w_secrets w)) (\<lambda>_ _. True)" for o'
    by (simp add: triple_def end_transaction_def)
  have sess: "scrubbed (with_session m)" if "scrubbed m" for m
    unfolding with_session_def
    apply (rule scrubbed_bind, rule triple_bindM [where R = "\<lambda>o' w. clean o' (w_secrets w)"], rule triple_catchM [OF that])
     apply (rule scrubbed_bind, rule triple_raise, simp)
    apply (rule fin)
    done
  show ?thesis
    unfolding invoke_def Let_def
    by (intro scrubbed_bind triple_case_sum triple_if scrubbed_outcome triple_raise sess body) simp
qed

text \<open>
  C14: no error message of an invocation carries a registered credential.  Whatever
  the services put into their exceptions, the error text of the outcome contains none
  of the secrets known to the redaction registry when the invocation ends, among them
  every credential it decrypted or obtained on the way.
\<close>

theorem invoke_error_has_no_secret:
  assumes "quiet S" and "invoke S cf token tn args k w = (Inr o', w')"
    and "io_error o' = Some e" and "\<forall>s \<in> set (w_secrets w'). scrubbable s" and "s \<in> set (w_secrets w')"
  shows "\<not> sublist s e"
proof -
  have "clean o' (w_secrets w')" using tripleD_Inr [OF scrubbed_invoke [OF assms(1)] _ assms(2)] by simp
  then obtain msg where "e = scrub_with (w_secrets w') msg" using assms(3) by (auto simp: clean_def)
  then show ?thesis using scrub_with_absent [of s "w_secrets w'" msg] assms(4,5) by blast
qed

theorem invoke_error_has_no_secret_witness:
  "\<exists>o' e. fst (invoke sample_services sample_config ''forged'' ''drive.read'' [] None (sample_live\<lparr>w_secrets := [''ya29.secret-token'']\<rparr>)) = Inr o' \<and>
     io_error o' = Some e \<and> \<not> sublist ''ya29.secret-token'' e"
proof -
  let ?w = "sample_live\<lparr>w_secrets := [''ya29.secret-token'']\<rparr>"
  obtain o' e where r: "invoke sample_services sample_config ''forged'' ''drive.read'' [] None ?w = (Inr o', ?w)" and e: "io_error o' = Some e"
    by (simp add: invoke_def monotonic_def tryM_def bindM_def verify_run verify_at_def sample_jwt_decode_def outcome_run)
  have "\<not> sublist ''ya29.secret-token'' e"
    by (rule invoke_error_has_no_secret [OF sample_quiet r e]) (simp_all add: scrubbable_def MIN_SECRET_LEN_def)
  then show ?thesis using r e by auto
qed

section \<open>Replays\<close>

abbreviation server_at :: "'r \<Rightarrow> int \<Rightarrow> ('r, 'x) world \<Rightarrow> bool" where
  "server_at r t \<equiv> (\<lambda>w. (w_redis w, w_now w) = (r, t))"

lemma server_prims:
  fixes S :: "('r, 'x) services"
  assumes "quiet S"
  defines "I \<equiv> (\<lambda>r t (w :: ('r, 'x) world). (w_redis w, w_now w) = (r, t))"
  shows "keeps (I r t) (draw f)" "keeps (I r t) utcnow" "keeps (I r t) monotonic" "keeps (I r t) (redis_exists S k)"
    "keeps (I r t) (select S q)" "keeps (I r t) (assign i c)" "keeps (I r t) (commit S ins evs)"
    "keeps (I r t) (http_send S hq)" "keeps (I r t) (sleep S d)" "keeps (I r t) http" "keeps (I r t) (on_circuit p g)"
    "keeps (I r t) (register_secret sec)" "keeps (I r t) (scrub m)"
    "keeps (I r t) (\<lambda>w. case kd (w_ext w) of (a, x) \<Rightarrow> (a :: exn + 'k, w\<lparr>w_ext := x\<rparr>))"
    "keeps (I r t) (modM (\<lambda>w. w\<lparr>w_circuits := cs w\<rparr>))"
  unfolding I_def
  by (rule keeps_field [where f = "\<lambda>w. (w_redis w, w_now w)" and P = "\<lambda>v. v = (r, t)"];
      simp add: draw_def world_prim_defs awaiting_quiet [OF assms(1)] commit_def catchM_def bindM_def
      flush_and_commit_def http_send_def sleep_def http_def on_circuit_def Let_def register_secret_def scrub_def
      split: prod.split sum.split option.split)+

lemma server_cipher:
  assumes "quiet S"
  shows "keeps (server_at r t) (generate_data_key S km)" "keeps (server_at r t) (decrypt_data_key S km b)"
    "keeps (server_at r t) (encrypt S km p)" "keeps (server_at r t) (decrypt S km b)" "keeps (server_at r t) (encrypt_value S km v)"
proof -
  have g: "keeps (server_at r t) (generate_data_key S km)" "keeps (server_at r t) (decrypt_data_key S km b)" for b
    by (cases km; simp only: generate_data_key.simps decrypt_data_key.simps urandom_def; intro flow server_prims [OF assms])+
  show "keeps (server_at r t) (generate_data_key S km)" "keeps (server_at r t) (decrypt_data_key S km b)" using g by simp_all
  show "keeps (server_at r t) (encrypt S km p)"
    unfolding encrypt_def urandom_def by (intro flow server_prims [OF assms] g)
  show "keeps (server_at r t) (decrypt S km b)"
    unfolding decrypt_def Let_def by (intro flow server_prims [OF assms] g)
  show "keeps (server_at r t) (encrypt_value S km v)"
    unfolding encrypt_value_def encrypt_def register_value_def urandom_def by (intro flow server_prims [OF assms] g)
qed

lemma server_refresh:
  assumes "quiet S"
  shows "keeps (server_at r t) (refresh_or_outcome S cf account start)"
  unfolding refresh_or_outcome_def refresh_credential_def refresh_access_token_def parse_token_response_def parse_payload_def
    register_value_def outcome_def Let_def
  by (intro flow server_prims [OF assms] server_cipher [OF assms] assms)

lemma server_outcome: "keeps (server_at r t) (outcome st res err reason start c)"
  by (simp add: triple_def outcome_run)

lemma server_attempts:
  assumes "quiet S" and "keeps (server_at r t) fn"
  shows "keeps (server_at r t) (attempts S fn m base (Some (circuit_object p)) retryable i n)"
proof (induction n arbitrary: i)
  case 0
  show ?case unfolding attempts.simps by (intro flow)
next
  case (Suc n)
  show ?case
    unfolding attempts.simps option.case circuit_object_def circuit_ops.simps
    by (intro flow server_prims [OF assms(1)] assms(2) Suc.IH [unfolded circuit_object_def])
qed

lemma server_call_provider:
  assumes "quiet S"
  shows "keeps (server_at r t) (call_provider S cf tool tok args)"
proof -
  have fn: "keeps (server_at r t) (bindM http (\<lambda>_. tool_call S tool tok args))"
    unfolding tool_call_def by (intro flow server_prims [OF assms])
  have c: "triple (server_at r t) (circuit_for st p) (\<lambda>c w. server_at r t w \<and> c = circuit_object p) (\<lambda>_. server_at r t)" for st p
    by (auto simp: triple_def circuit_for_def bindM_def split: option.splits sum.splits)
  have r: "keeps (server_at r t) (call_with_retries S (bindM http (\<lambda>_. tool_call S tool tok args)) m b (Some (circuit_object p)) default_retryable)" for m b p
    unfolding call_with_retries_def by (intro triple_if triple_raise server_attempts [OF assms] fn)
  show ?thesis
    unfolding call_provider_def
    by (rule triple_bindM [OF c], rule triple_fact, erule ssubst, rule r)
qed

lemma server_execute:
  assumes "quiet S"
  shows "keeps (server_at r t) (execute_call S cf g h tool args start)"
proof -
  note prims = server_prims [OF assms] server_cipher [OF assms] server_refresh [OF assms] server_outcome
    server_call_provider [OF assms]
  have chk: "keeps (server_at r t) (is_revoked_now S cf gid h)" for gid
    unfolding is_revoked_now_def is_revoked_def by (intro flow prims)
  have fl: "keeps (server_at r t) (call_failed tool start e)" for e
    unfolding call_failed_def by (intro flow prims)
  have lc: "keeps (server_at r t) (last_call S cf tool tok args start)" for tok
    unfolding last_call_def by (intro flow prims fl)
  show ?thesis
    unfolding execute_call_def usable_token_def call_loop_def Let_def by (intro flow prims chk fl lc assms)
qed

definition stored_result :: "invoke_outcome \<Rightarrow> json" where
  "stored_result o' = (if json_truthy (io_result o') then io_result o' else JObj [])"

lemma stored_not_null [simp]: "stored_result o' \<noteq> JNull"
  by (auto simp: stored_result_def)

lemma completed_read:
  assumes "redis_server (sv_redis S)" and "quiet S" and "0 < win" and "wf_json (sv_float S) v"
    and "slot_of S key w = Pending (pending_value owner)" and "complete S win key v (Some owner) w = (b, w1)"
    and "w_now w \<le> w_now w2" and "w_now w2 < w_now w + win * 1000000" and "w_redis w2 = w_redis w1"
  shows "b = Inr () \<and> idem_get S key w2 = (Inr v, w2)"
proof -
  have w1: "b = Inr ()" "w_redis w1 = snd (rd_set (sv_redis S) (w_now w) (name key) (dumps default_opts v) False win (w_redis w))"
    using assms(5,6) by (auto simp: complete_run [OF assms(1-3)])
  have "rd_get (sv_redis S) (w_now w2) (name key) (w_redis w2) = Some (dumps default_opts v)"
    using redis_server.set_fresh_get [OF assms(1,3,7)] assms(8,9) w1 by (simp add: expiry_at_def)
  then have "slot_of S key w2 = Done (dumps default_opts v)"
    using dumps_not_pending [OF assms(4)] by (simp add: slot_of_def slot_simps)
  then show ?thesis using w1 loads_dumps [OF assms(4)] by (simp add: idem_get_run [OF assms(2)])
qed

lemma first_success:
  assumes "redis_server (sv_redis S)" and "quiet S" and "cf_idempotency cf = Some window"
    and "with_idempotency S cf g tn (Some k) start m w = (Inr o1, w1)"
    and "io_status o1 = ''success''" and "\<not> io_from_cache o1"
  shows "\<exists>owner v v1. reserve S (full_key g tn k) w = (Inr (Some owner), v) \<and> m v = (Inr o1, v1) \<and>
    complete S window (full_key g tn k) (stored_result o1) (Some owner) v1 = (Inr (), w1)"
proof -
  let ?key = "full_key g tn k"
  have free: "idem_get S ?key w = (Inr JNull, w)"
    using assms(3-6) by (auto simp: with_idempotency_def Let_def bindM_def tryM_def idem_get_run [OF assms(2)] outcome_run
        split: slot.splits option.splits if_splits)
  obtain own v where r: "reserve S ?key w = (Inr own, v)"
    using reserve_run [OF assms(1,2), of w] by (metis surj_pair)
  then obtain owner where own: "own = Some owner"
    using assms(3-6) free by (cases own) (auto simp: with_idempotency_def Let_def bindM_def tryM_def outcome_run)
  have f: "finish_idempotent S window ?key owner m v = (Inr o1, w1)"
    using assms(3,4) free r own by (simp add: with_idempotency_def Let_def bindM_def tryM_def)
  obtain x v1 where m: "m v = (x, v1)" by force
  have "x = Inr o1"
    using f m by (auto simp: finish_idempotent_def bindM_def catchM_def split: sum.splits prod.splits if_splits)
  then have "complete S window ?key (stored_result o1) (Some owner) v1 = (Inr (), w1)"
    using f m assms(5) by (auto simp: finish_idempotent_def bindM_def catchM_def stored_result_def split: sum.splits prod.splits if_splits)
  then show ?thesis using r own m \<open>x = Inr o1\<close> by blast
qed

text \<open>
  C15: a successful call is replayed, not repeated.  When a call with an idempotency
  key has succeeded, every call of the same agent, account, tool and key within the
  idempotency window returns the stored result, marked as cached; the second call is
  not executed at all and changes nothing.
\<close>

theorem success_is_replayed:
  assumes "redis_server (sv_redis S)" and "quiet S" and "cf_idempotency cf = Some window" and "0 < window"
    and "with_idempotency S cf g tn (Some k) start (execute_call S cf g h tool args start) w = (Inr o1, w1)"
    and "io_status o1 = ''success''" and "\<not> io_from_cache o1" and "wf_json (sv_float S) (stored_result o1)"
    and "gr_agent_id g2 = gr_agent_id g" and "gr_connected_account_id g2 = gr_connected_account_id g"
    and "w_redis w2 = w_redis w1" and "w_now w \<le> w_now w2" and "w_now w2 < w_now w + window * 1000000"
  shows "\<exists>o2. with_idempotency S cf g2 tn (Some k) start2 m2 w2 = (Inr o2, w2) \<and>
    io_status o2 = ''success'' \<and> io_result o2 = stored_result o1 \<and> io_from_cache o2"
proof -
  let ?key = "full_key g tn k"
  obtain owner v v1 where r: "reserve S ?key w = (Inr (Some owner), v)"
    and e: "execute_call S cf g h tool args start v = (Inr o1, v1)"
    and c: "complete S window ?key (stored_result o1) (Some owner) v1 = (Inr (), w1)"
    using first_success [OF assms(1-3,5-7)] by blast
  have h: "held S ?key owner (w_now w) (w_now w + 60 * 1000000) (w_redis v)" and n: "w_now v = w_now w"
    using reserve_held [OF assms(1,2) r] by simp_all
  have "(w_redis v1, w_now v1) = (w_redis v, w_now v)"
    by (rule tripleD_Inr [OF server_execute [OF assms(2)] refl e])
  then have p: "slot_of S ?key v1 = Pending (pending_value owner)" and n1: "w_now v1 = w_now w"
    using h n by (auto simp: held_def slot_of_def slot_simps)
  have "idem_get S ?key w2 = (Inr (stored_result o1), w2)"
    using completed_read [OF assms(1,2,4,8) p c] assms(11-13) n1 by simp
  moreover have "full_key g2 tn k = ?key" using assms(9,10) by (simp add: full_key_def)
  ultimately show ?thesis
    by (simp add: with_idempotency_def assms(3) Let_def bindM_def tryM_def outcome_run)
qed

definition idempotent_config :: config where
  "idempotent_config = sample_config\<lparr>cf_idempotency := Some 3600\<rparr>"

lemma sample_first_call:
  "\<exists>o1 w1. with_idempotency sample_services idempotent_config sample_grant ''drive.read'' (Some ''k1'') 0
       (execute_call sample_services idempotent_config sample_grant ''h'' DriveListFilesTool [] 0) sample_live = (Inr o1, w1) \<and>
     io_status o1 = ''success'' \<and> \<not> io_from_cache o1 \<and> io_result o1 = JObj [(''files'', JList [])]"
proof -
  let ?key = "full_key sample_grant ''drive.read'' ''k1''"
  have p: "plain idempotent_config" by (simp add: plain_def idempotent_config_def)
  have r0: "w_redis sample_live = w_redis sample_world" by (simp add: sample_live_def sample_start_def)
  have fr: "slot_of sample_services key sample_live = Free" for key
    using sample_redis_empty by (simp add: slot_of_def slot_at_def r0)
  obtain v where r: "reserve sample_services ?key sample_live = (Inr (Some (hex_fixed 32 1)), v)" and i: "idle v"
    using reserve_run [of sample_services sample_live "hex_fixed 32 1" 2 ?key] fr
    by (simp add: idle_def del: hex_fixed.simps)
  obtain o1 v1 where e: "execute_call sample_services idempotent_config sample_grant ''h'' DriveListFilesTool [] 0 v = (Inr o1, v1)"
    and f: "io_status o1 = ''success''" "\<not> io_from_cache o1" "io_result o1 = JObj [(''files'', JList [])]"
    using sample_execute [OF i p, of "''h''"] by auto
  obtain v2 where c: "complete sample_services 3600 ?key (io_result o1) (Some (hex_fixed 32 1)) v1 = (Inr (), v2)"
    using complete_run [of sample_services 3600 ?key "io_result o1" "Some (hex_fixed 32 1)" v1] by auto
  have "with_idempotency sample_services idempotent_config sample_grant ''drive.read'' (Some ''k1'') 0
       (execute_call sample_services idempotent_config sample_grant ''h'' DriveListFilesTool [] 0) sample_live = (Inr o1, v2)"
    using r e c f fr
    by (simp add: with_idempotency_def idempotent_config_def Let_def bindM_def tryM_def idem_get_run finish_idempotent_def catchM_def
        del: hex_fixed.simps)
  then show ?thesis using f by blast
qed

theorem success_is_replayed_witness:
  "\<exists>o1 w1 o2. with_idempotency sample_services idempotent_config sample_grant ''drive.read'' (Some ''k1'') 0
       (execute_call sample_services idempotent_config sample_grant ''h'' DriveListFilesTool [] 0) sample_live = (Inr o1, w1) \<and>
     with_idempotency sample_services idempotent_config sample_grant ''drive.read'' (Some ''k1'') 5
       (raise (ValueError ''not run'')) (w1\<lparr>w_now := 1700000060000000\<rparr>) = (Inr o2, w1\<lparr>w_now := 1700000060000000\<rparr>) \<and>
     io_result o2 = JObj [(''files'', JList [])] \<and> io_from_cache o2"
proof -
  obtain o1 w1 where r: "with_idempotency sample_services idempotent_config sample_grant ''drive.read'' (Some ''k1'') 0
       (execute_call sample_services idempotent_config sample_grant ''h'' DriveListFilesTool [] 0) sample_live = (Inr o1, w1)"
    and f: "io_status o1 = ''success''" "\<not> io_from_cache o1" "io_result o1 = JObj [(''files'', JList [])]"
    using sample_first_call by blast
  have s: "stored_result o1 = JObj [(''files'', JList [])]" using f by (simp add: stored_result_def)
  have "utf8_ok (map code ''files'')" by code_simp
  then have wf: "wf_json (sv_float sample_services) (stored_result o1)" by (simp add: s)
  have c: "cf_idempotency idempotent_config = Some 3600" by (simp add: idempotent_config_def)
  show ?thesis
    using success_is_replayed [OF _ _ c _ r f(1,2) wf, of sample_grant "w1\<lparr>w_now := 1700000060000000\<rparr>" 5 "raise (ValueError ''not run'')"]
      r s by auto
qed

section \<open>Unexpected exceptions\<close>

text \<open>
  C31: an unexpected exception never reaches the agent and is audited.  When anything
  after the resolution of the grant raises an \<open>Exception\<close>, the invocation returns a
  failure with the generic message only, drops what the session had pending and
  commits one audit row saying \<open>failed\<close>.
\<close>

theorem unexpected_error_is_audited:
  assumes "quiet S" and "invoke_resolved S cf g h tn args k fast start w = (Inl e, w1)" and "is_Exception e"
    and "sv_uuid4 S (w_ext w1) = (u, x)" and "u \<notin> au_id ` set (db_audit (w_db w1))" and "get_grant (w_db w1) (gr_id g) \<noteq> None"
  shows "\<exists>o' w' row. invoke_grant S cf g h tn args k fast start w = (Inr o', w') \<and>
    io_status o' = ''failed'' \<and> io_error o' = Some (scrub_with (w_secrets w1) ''internal error during tool invocation'') \<and>
    w_db w' = (w_db w1)\<lparr>db_audit := db_audit (w_db w1) @ [row]\<rparr> \<and>
    au_grant_id row = gr_id g \<and> au_status row = ''failed'' \<and> au_tool_name row = tn \<and> w_dirty w' = []"
proof -
  have ins: "insert_audit row (w_db w1) = Inr ((w_db w1)\<lparr>db_audit := db_audit (w_db w1) @ [row]\<rparr>)"
    if "au_id row = u" "au_grant_id row = gr_id g" for row
    using that assms(5,6) by (auto simp: insert_audit_def image_iff)
  show ?thesis
    using assms(2-4)
    by (simp add: invoke_grant_def catchM_def bindM_def rollback_def end_transaction_def awaiting_quiet [OF assms(1)] outcome_run
        record_call_def uuid4_run utcnow_run Let_def commit_quiet [OF assms(1)] ins)
      (intro exI conjI, rule refl, simp_all)
qed

lemma sample_type_error:
  "\<exists>e w1. invoke_resolved sample_services sample_config sample_grant h ''drive.read'' [(''page_size'', JNull)] None False 0 sample_live
     = (Inl e, w1) \<and> is_Exception e \<and> w_db w1 = w_db sample_live \<and> w_ext w1 = 1"
proof -
  have a: "ca_expires_at sample_account = None" by (simp add: sample_account_def)
  let ?e = "TypeError ''int() argument must be a string, a bytes-like object or a real number''"
  let ?w = "sample_live\<lparr>w_secrets := [''ya29.token'']\<rparr>"
  have t: "tool_call sample_services DriveListFilesTool ''ya29.token'' [(''page_size'', JNull)] w = (Inl ?e, w)" for w
    by (simp add: tool_call_def drive_params_def json_int_def)
  obtain w1 where c: "call_provider sample_services sample_config DriveListFilesTool ''ya29.token'' [(''page_size'', JNull)] ?w = (Inl ?e, w1)"
    and f: "w_db w1 = w_db sample_live" "w_ext w1 = 1"
    by (simp add: call_provider_def circuit_for_def new_circuit_def default_settings_def call_with_retries_def
        circuit_object_def on_circuit_def bindM_def tryM_def allow_def sync_def http_def Let_def t default_retryable_def eval_nat_numeral)
  have "execute_call sample_services sample_config sample_grant h DriveListFilesTool [(''page_size'', JNull)] 0 sample_live = (Inl ?e, w1)"
    using c
    by (simp add: execute_call_def usable_token_def utcnow_run a bindM_def select_quiet awaiting_quiet tryM_def decrypt_sample
        is_revoked_now_def call_loop_def call_failed_def)
  then have "invoke_resolved sample_services sample_config sample_grant h ''drive.read'' [(''page_size'', JNull)] None False 0 sample_live = (Inl ?e, w1)"
    by (simp add: invoke_resolved_def utcnow_run bindM_def with_idempotency_def)
  then show ?thesis using f by auto
qed

theorem unexpected_error_is_audited_witness:
  "\<exists>o' w'. invoke_grant sample_services sample_config sample_grant ''h'' ''drive.read'' [(''page_size'', JNull)] None False 0 sample_live
       = (Inr o', w') \<and> io_status o' = ''failed'' \<and> map au_status (db_audit (w_db w')) = [''failed'']"
proof -
  obtain e w1 where r: "invoke_resolved sample_services sample_config sample_grant ''h'' ''drive.read'' [(''page_size'', JNull)] None False 0 sample_live
     = (Inl e, w1)" "is_Exception e" and f: "w_db w1 = w_db sample_live" "w_ext w1 = 1"
    using sample_type_error by blast
  have u: "sv_uuid4 sample_services (w_ext w1) = (1, 2)" using f by simp
  have n: "db_audit (w_db w1) = []" "get_grant (w_db w1) (gr_id sample_grant) \<noteq> None" using f by simp_all
  show ?thesis
    using unexpected_error_is_audited [OF sample_quiet r u] n by auto
qed

section \<open>The refreshed credential\<close>

lemma get_mapped_account:
  "List.find (\<lambda>a. ca_id a = j) (map (\<lambda>a. if ca_id a = i then set_column c a else a) as) =
     map_option (\<lambda>a. if ca_id a = i then set_column c a else a) (List.find (\<lambda>a. ca_id a = j) as)"
  by (induction as) auto

lemma get_updated_account:
  assumes "update_account i c db = Inr db'"
  shows "get_account db' j = map_option (\<lambda>a. if ca_id a = i then set_column c a else a) (get_account db j)"
  using assms get_mapped_account by (auto simp: update_account_def get_account_def split: if_splits)

lemma get_updated_accounts:
  assumes "update_accounts cs db = Inr db'" and "list_all (\<lambda>(i', c). i' = i) cs" and "get_account db i = Some a"
  shows "get_account db' i = Some (fold set_column (map snd cs) a) \<and> (\<forall>j. j \<noteq> i \<longrightarrow> get_account db' j = get_account db j)"
  using assms
proof (induction cs db arbitrary: a rule: update_accounts.induct)
  case (2 i' c cs db)
  obtain db1 where u: "update_account i c db = Inr db1" using 2(2,3) by (auto split: sum.splits)
  have g: "get_account db1 i = Some (set_column c a)" "\<And>j. j \<noteq> i \<Longrightarrow> get_account db1 j = get_account db j"
    using get_updated_account [OF u] 2(4) get_account_in [of db]
    by (auto simp: option.map_ident_strong intro!: option.map_ident_strong dest: get_account_in)
  show ?case using 2(1) [of db1 "set_column c a"] 2(2,3) u g by auto
qed simp

text \<open>The session between loading the account and committing the rotation.\<close>

definition pending :: "database \<Rightarrow> (uuid \<times> account_set) list \<Rightarrow> ('r, 'x) world \<Rightarrow> bool" where
  "pending db cs w \<longleftrightarrow> w_db w = db \<and> w_dirty w = cs"

lemma pending_score [simp]: "score (pending db cs)"
  by (simp add: score_def pending_def)

lemma pending_assign: "triple (pending db cs) (assign i c) (\<lambda>_. pending db (cs @ [(i, c)])) E"
  by (simp add: triple_def assign_def pending_def)


definition decrypts_to :: "('r, 'x) services \<Rightarrow> key_manager \<Rightarrow> bytes \<Rightarrow> string \<Rightarrow> bool" where
  "decrypts_to S km blob p \<longleftrightarrow> (\<forall>v. fst (decrypt S km blob v) = Inr p)"

lemma encrypted_decrypts:
  assumes "kms_service S" and "quiet S"
  shows "triple I (awaiting S AwaitThread (encrypt S km p)) (\<lambda>blob _. utf8_decode p = Some p \<longrightarrow> decrypts_to S km blob p) (\<lambda>_ _. True)"
proof -
  have "decrypts_to S km blob p" if "encrypt S km p w = (Inr blob, w')" "utf8_decode p = Some p" for blob w w'
    using data_key_manager.decrypt_encrypt [OF kms_service.any_manager [OF assms(1)] that]
    unfolding decrypts_to_def by (metis fst_conv)
  then show ?thesis unfolding awaiting_quiet [OF assms(2)] by (auto intro: tripleI)
qed

text \<open>The columns written besides the access token.\<close>

abbreviation other_columns :: "uuid \<Rightarrow> (uuid \<times> account_set) list \<Rightarrow> bool" where
  "other_columns a cs \<equiv> list_all (\<lambda>(j, c). j = a \<and> (\<forall>b. c \<noteq> SetAccessToken b)) cs"

definition rotated :: "('r, 'x) services \<Rightarrow> key_manager \<Rightarrow> database \<Rightarrow> uuid \<Rightarrow> string \<Rightarrow> ('r, 'x) world \<Rightarrow> bool" where
  "rotated S km db a tok w \<longleftrightarrow>
     (\<exists>blob cs. update_accounts ((a, SetAccessToken blob) # cs) db = Inr (w_db w) \<and> w_dirty w = [] \<and>
        (utf8_decode tok = Some tok \<longrightarrow> decrypts_to S km blob tok) \<and> other_columns a cs)"

lemma pending_keeps: "keeps (pending db cs) m \<Longrightarrow> triple (pending db cs) m (\<lambda>_. pending db cs) (\<lambda>_ _. True)"
  by (rule keeps_weaken) simp_all

lemma pending_commit:
  "quiet S \<Longrightarrow> triple (pending db cs) (commit S Inr []) (\<lambda>_ w. update_accounts cs db = Inr (w_db w) \<and> w_dirty w = []) (\<lambda>_ _. True)"
  by (auto simp: triple_def commit_def awaiting_quiet flush_and_commit_def catchM_def end_transaction_def bindM_def
      pending_def split: sum.splits)

lemma pending_encrypt:
  assumes "kms_service S" and "quiet S"
  shows "triple (pending db []) (awaiting S AwaitThread (encrypt S km p))
      (\<lambda>blob w. pending db [] w \<and> (utf8_decode p = Some p \<longrightarrow> decrypts_to S km blob p)) (\<lambda>_ _. True)"
proof -
  have "keeps (pending db []) (awaiting S AwaitThread (encrypt S km p))" by (intro wp quiet_stable assms pending_score)
  from triple_conj [OF pending_keeps [OF this] encrypted_decrypts [OF assms, of "\<lambda>_. True"]] show ?thesis by simp
qed

lemma pending_rest:
  fixes S :: "('r, 'x) services"
  assumes "quiet S" and "utf8_decode tok = Some tok \<longrightarrow> decrypts_to S km blob tok"
  shows "triple (pending db [(a, SetAccessToken blob)])
     (bindM (if json_truthy v then
               bindM (awaiting S AwaitThread (encrypt_value S km v)) (\<lambda>blob2. assign a (SetRefreshToken (Some blob2)))
             else ret ()) (\<lambda>_.
      bindM (case e of None \<Rightarrow> ret None
        | Some n \<Rightarrow> bindM utcnow (\<lambda>now. bindM (liftE (datetime_add now n)) (\<lambda>t. ret (Some t)))) (\<lambda>expires_at.
      bindM (assign a (SetExpiresAt expires_at)) (\<lambda>_.
      bindM (commit S Inr []) (\<lambda>_. ret tok)))))
     (rotated S km db a) (\<lambda>_ _. True)"
proof -
  have tl: "triple (pending db ((a, SetAccessToken blob) # cs))
      (bindM (case e of None \<Rightarrow> ret None
        | Some n \<Rightarrow> bindM utcnow (\<lambda>now. bindM (liftE (datetime_add now n)) (\<lambda>t. ret (Some t)))) (\<lambda>expires_at.
      bindM (assign a (SetExpiresAt expires_at)) (\<lambda>_.
      bindM (commit S Inr []) (\<lambda>_. ret tok))))
      (rotated S km db a) (\<lambda>_ _. True)" if "other_columns a cs" for cs
  proof (rule triple_bindM [OF pending_keeps])
    show "keeps (pending db ((a, SetAccessToken blob) # cs)) (case e of None \<Rightarrow> ret None
        | Some n \<Rightarrow> bindM utcnow (\<lambda>now. bindM (liftE (datetime_add now n)) (\<lambda>t. ret (Some t))))"
      by (intro wp)
    fix x :: "datetime option"
    show "triple (pending db ((a, SetAccessToken blob) # cs))
        (bindM (assign a (SetExpiresAt x)) (\<lambda>_. bindM (commit S Inr []) (\<lambda>_. ret tok))) (rotated S km db a) (\<lambda>_ _. True)"
      by (rule triple_bindM [OF pending_assign], rule triple_bindM [OF pending_commit [OF assms(1)]], rule triple_ret)
        (use that assms(2) in \<open>auto simp: rotated_def intro!: exI [of _ blob] exI [of _ "cs @ [(a, SetExpiresAt x)]"]\<close>)
  qed
  have enc: "keeps (pending db [(a, SetAccessToken blob)]) (awaiting S AwaitThread (encrypt_value S km v))"
    by (intro wp quiet_stable assms pending_score)
  show ?thesis
  proof (cases "json_truthy v")
    case True
    show ?thesis
      using tl [of "[(a, SetRefreshToken (Some b))]" for b] True
      by (auto simp: bindM_assoc intro!: triple_bindM [OF pending_keeps [OF enc]] triple_bindM [OF pending_assign])
  next
    case False
    then show ?thesis using tl [of "[]"] by (simp add: bindM_ret_left)
  qed
qed

lemma refresh_rotates:
  assumes "kms_service S" and "quiet S"
  shows "triple (pending db []) (refresh_credential S cf account) (rotated S (cf_cipher cf) db (ca_id account)) (\<lambda>_ _. True)"
proof -
  have d: "keeps (pending db []) (awaiting S AwaitThread (decrypt S km b))" for km b
    by (intro wp quiet_stable assms pending_score)
  have r: "keeps (pending db []) (refresh_access_token S st t)" for st t
    by (rule keeps_refresh_access_token) (use assms in \<open>auto simp: pending_def\<close>)
  have c: "triple (pending db []) (bindM (assign i c) f) Q E" if "triple (pending db [(i, c)]) (f ()) Q E"
    for i c f and Q :: "string \<Rightarrow> ('a, 'b) world \<Rightarrow> bool" and E
    by (rule triple_bindM [OF pending_assign]) (use that in simp)
  show ?thesis
    unfolding refresh_credential_def
    by (rule triple_bindM [OF pending_keeps [OF d]], rule triple_bindM [OF pending_keeps [OF keeps_http [OF pending_score]]],
        rule triple_bindM [OF pending_keeps [OF r]], rule triple_bindM [OF pending_encrypt [OF assms]], rule triple_fact,
        rule c, rule pending_rest [OF assms(2)])
qed

text \<open>
  C22: the token a refresh returns is the one it stored.  After a successful refresh
  the account's row holds a blob that decrypts to the returned access token, at any
  later time; no other account and no other table has changed and nothing is pending.
\<close>

theorem refreshed_credential_is_stored:
  assumes "kms_service S" and "quiet S" and "w_dirty w = []" and "get_account (w_db w) (ca_id account) = Some row"
    and "refresh_credential S cf account w = (Inr token, w')" and "utf8_decode token = Some token"
  shows "\<exists>row'. get_account (w_db w') (ca_id account) = Some row' \<and>
    (\<forall>v. fst (decrypt S (cf_cipher cf) (ca_encrypted_access_token row') v) = Inr token) \<and>
    (\<forall>j. j \<noteq> ca_id account \<longrightarrow> get_account (w_db w') j = get_account (w_db w) j) \<and>
    db_grants (w_db w') = db_grants (w_db w) \<and> db_audit (w_db w') = db_audit (w_db w) \<and>
    db_agents (w_db w') = db_agents (w_db w) \<and> w_dirty w' = []"
proof -
  let ?a = "ca_id account"
  have "pending (w_db w) [] w" using assms(3) by (simp add: pending_def)
  then obtain blob cs where u: "update_accounts ((?a, SetAccessToken blob) # cs) (w_db w) = Inr (w_db w')" and d: "w_dirty w' = []"
    and b: "decrypts_to S (cf_cipher cf) blob token" and o1: "other_columns ?a cs"
    using tripleD_Inr [OF refresh_rotates [OF assms(1,2)] _ assms(5)] assms(6) unfolding rotated_def by blast
  have "list_all (\<lambda>(j, c). j = ?a) ((?a, SetAccessToken blob) # cs)" using o1 by (auto simp: list_all_iff)
  note g = get_updated_accounts [OF u this assms(4)]
  have "ca_encrypted_access_token (fold set_column (map snd cs) r) = ca_encrypted_access_token r" for r
    using o1
  proof (induction cs arbitrary: r)
    case (Cons c cs)
    then show ?case by (cases c; cases "snd c") auto
  qed simp
  then show ?thesis
    using g update_accounts_frame [OF u] d b by (auto simp: decrypts_to_def)
qed

definition refreshable :: connected_account where
  "refreshable = sample_account\<lparr>ca_encrypted_refresh_token := Some (ca_encrypted_access_token sample_account)\<rparr>"

definition refreshable_start :: "(memory, nat) world" where
  "refreshable_start = sample_live\<lparr>w_db := sample_db\<lparr>db_accounts := [refreshable]\<rparr>\<rparr>"

lemma refreshable_sel [simp]:
  "ca_id refreshable = 9" "ca_encrypted_refresh_token refreshable = Some (ca_encrypted_access_token sample_account)"
  "w_dirty refreshable_start = []" "w_secrets refreshable_start = []" "w_now refreshable_start = 1700000000000000"
  "w_db refreshable_start = sample_db\<lparr>db_accounts := [refreshable]\<rparr>"
  "get_account (sample_db\<lparr>db_accounts := [refreshable]\<rparr>) 9 = Some refreshable"
  by (simp_all add: refreshable_def refreshable_start_def get_account_def)

lemma dumps_str_ascii: "is_ascii (dumps_str s)"
proof -
  have "is_ascii (esc_point p)" for p
    using hex_fixed_ascii by (auto simp: esc_point_def u_escape_def is_ascii_def backslash_def)
  then show ?thesis by (auto simp: dumps_str_def is_ascii_def dquote_def)
qed

lemma sample_token_answer:
  "response_json JNonFinite \<lparr>rs_status_code = 200,
     rs_content = dumps default_opts (JObj [(''access_token'', JStr ''fresh-access-token''), (''expires_in'', JInt 3600)])\<rparr> =
     Inr (JObj [(''access_token'', JStr ''fresh-access-token''), (''expires_in'', JInt 3600)])"
proof -
  let ?v = "JObj [(''access_token'', JStr ''fresh-access-token''), (''expires_in'', JInt 3600)]"
  have "list_all (\<lambda>k. utf8_ok (map code k)) [''access_token'', ''fresh-access-token'', ''expires_in'']" by code_simp
  then have "loads JNonFinite (dumps default_opts ?v) = Some ?v" by (intro loads_dumps) simp
  moreover have "is_ascii (py_str_int i)" for i
    using py_str_int_chars [of _ i] by (fastforce simp: is_ascii_def)
  then have "is_ascii (dumps default_opts ?v)"
    using dumps_str_ascii by (auto simp: default_opts_def order_items_def is_ascii_def)
  ultimately show ?thesis by (simp add: response_json_def utf8_decode_ascii del: dumps.simps)
qed

lemma sample_parse:
  "parse_token_response sample_services \<lparr>rs_status_code = 200,
     rs_content = dumps default_opts (JObj [(''access_token'', JStr ''fresh-access-token''), (''expires_in'', JInt 3600)])\<rparr> w =
     (Inr \<lparr>tr_access_token = ''fresh-access-token'', tr_refresh_token = JNull, tr_expires_in = Some 3600,
        tr_scopes = []\<rparr>, w\<lparr>w_secrets := registered (Some (SecretStr ''fresh-access-token'')) (w_secrets w)\<rparr>)"
proof -
  have "py_split_ws '''' = []" by code_simp
  then show ?thesis
    by (simp add: parse_token_response_def sample_token_answer parse_payload_def dict_get_or_def Let_def register_secret_def
        register_value_def json_int_def bindM_def del: dumps.simps)
qed

lemma sample_encrypt_runs:
  "\<exists>blob. encrypt sample_services sample_key p w =
     (Inr blob, w\<lparr>w_secrets := registered (Some (SecretStr p)) (w_secrets w), w_ext := w_ext w + 3\<rparr>)"
  by (simp add: encrypt_def sample_key_def register_secret_def urandom_def draw_def sample_encrypt_def sample_tag_def kms_sizes bindM_def)

lemma sample_refresh_runs:
  "\<exists>w'. refresh_credential sample_services sample_config refreshable refreshable_start = (Inr ''fresh-access-token'', w')"
proof -
  let ?w1 = "refreshable_start\<lparr>w_secrets := [''ya29.token''], w_http_client := Some 0, w_owns_http_client := True,
    w_trace := [EvHttp (refresh_request sample_settings ''ya29.token'')]\<rparr>"
  let ?w2 = "?w1\<lparr>w_secrets := registered (Some (SecretStr ''fresh-access-token'')) (w_secrets ?w1)\<rparr>"
  have r: "refresh_access_token sample_services sample_settings ''ya29.token'' (refreshable_start\<lparr>w_secrets := [''ya29.token''],
      w_http_client := Some 0, w_owns_http_client := True\<rparr>) =
      (Inr \<lparr>tr_access_token = ''fresh-access-token'', tr_refresh_token = JNull, tr_expires_in = Some 3600, tr_scopes = []\<rparr>, ?w2)"
    by (simp add: refresh_access_token_def http_send_quiet refresh_request_def sample_parse refreshable_start_def del: dumps.simps)
  obtain blob where e: "encrypt sample_services sample_key ''fresh-access-token'' ?w2 =
      (Inr blob, ?w2\<lparr>w_secrets := registered (Some (SecretStr ''fresh-access-token'')) (w_secrets ?w2), w_ext := w_ext ?w2 + 3\<rparr>)"
    using sample_encrypt_runs by blast
  have h: "w_http_client refreshable_start = None" "w_closed_clients refreshable_start = []" "w_trace refreshable_start = []"
    by (simp_all add: refreshable_start_def)
  have u: "\<exists>db. update_accounts [(9, SetAccessToken blob), (9, SetExpiresAt t)] (sample_db\<lparr>db_accounts := [refreshable]\<rparr>) = Inr db" for t
    by (simp add: update_account_def get_account_def)
  obtain db where db: "update_accounts [(9, SetAccessToken blob), (9, SetExpiresAt (Some (Aware 1700003600000000)))]
      (sample_db\<lparr>db_accounts := [refreshable]\<rparr>) = Inr db" using u by blast
  show ?thesis
    using r e h db
    by (simp add: refresh_credential_def awaiting_quiet decrypt_sample http_def Let_def assign_def utcnow_run datetime_add_def
        add_seconds_def commit_def flush_and_commit_def bindM_def catchM_def del: update_accounts.simps)
qed

theorem refreshed_credential_is_stored_witness:
  "\<exists>w' row'. refresh_credential sample_services sample_config refreshable refreshable_start = (Inr ''fresh-access-token'', w') \<and>
     get_account (w_db w') 9 = Some row' \<and>
     fst (decrypt sample_services sample_key (ca_encrypted_access_token row') sample_world) = Inr ''fresh-access-token''"
proof -
  obtain w' where r: "refresh_credential sample_services sample_config refreshable refreshable_start = (Inr ''fresh-access-token'', w')"
    using sample_refresh_runs by blast
  have u: "utf8_decode ''fresh-access-token'' = Some ''fresh-access-token''" by code_simp
  have g: "get_account (w_db refreshable_start) (ca_id refreshable) = Some refreshable" by simp
  show ?thesis
    using refreshed_credential_is_stored [OF sample_kms.kms_service_axioms sample_quiet _ g r u] r by auto
qed

section \<open>Audit hashes and idempotency keys\<close>

text \<open>
  The audit hash does not depend on the order of the arguments.  Two argument
  dictionaries with the same items hash alike, whatever order they were built in.
\<close>

theorem hash_arguments_order:
  assumes "distinct (map fst args)" and "mset args = mset args'"
  shows "hash_arguments S args = hash_arguments S args'"
  using canonical_insertion_order [OF assms] by (simp add: hash_arguments_def)

theorem hash_arguments_order_witness:
  "hash_arguments sample_services [(''query'', JStr ''q''), (''page_size'', JInt 5)] =
   hash_arguments sample_services [(''page_size'', JInt 5), (''query'', JStr ''q'')]"
  by (rule hash_arguments_order) simp_all

lemma length_uuid_str: "length (uuid_str u) = 36"
  by (simp add: uuid_str_def Let_def)

text \<open>
  C30: an idempotency key never crosses agents or accounts.  Two calls share a stored
  key only if they are of the same agent and the same connected account, whatever
  tool names and client keys they carry.
\<close>

theorem idempotency_key_bound:
  assumes "full_key g tn k = full_key g' tn' k'"
  shows "gr_agent_id g = gr_agent_id g' \<and> gr_connected_account_id g = gr_connected_account_id g'"
proof -
  let ?a = "uuid_str (gr_agent_id g)" and ?a' = "uuid_str (gr_agent_id g')"
  let ?c = "uuid_str (gr_connected_account_id g)" and ?c' = "uuid_str (gr_connected_account_id g')"
  have len: "length ?a = length ?a'" "length ?c = length ?c'" by (simp_all only: length_uuid_str)
  have "?a @ '':'' @ ?c @ '':'' @ tn @ '':'' @ k = ?a' @ '':'' @ ?c' @ '':'' @ tn' @ '':'' @ k'"
    using assms by (simp only: full_key_def append_assoc)
  then have a: "?a = ?a'" and "'':'' @ ?c @ '':'' @ tn @ '':'' @ k = '':'' @ ?c' @ '':'' @ tn' @ '':'' @ k'"
    by (simp_all only: append_eq_append_conv [OF disjI1 [OF len(1)]])
  then have "?c @ '':'' @ tn @ '':'' @ k = ?c' @ '':'' @ tn' @ '':'' @ k'" by (simp only: same_append_eq)
  then have c: "?c = ?c'" by (simp only: append_eq_append_conv [OF disjI1 [OF len(2)]])
  show ?thesis using a c by (simp only: uuid_str_inject simp_thms)
qed

theorem idempotency_key_bound_witness:
  "full_key sample_grant ''drive.read'' ''k'' = full_key (sample_grant\<lparr>gr_id := 3\<rparr>) ''drive.read'' ''k'' \<and>
   gr_agent_id sample_grant = gr_agent_id (sample_grant\<lparr>gr_id := 3\<rparr>)"
  using idempotency_key_bound [of sample_grant "''drive.read''" "''k''" "sample_grant\<lparr>gr_id := 3\<rparr>" "''drive.read''" "''k''"]
  by (simp add: full_key_def)

end
