(* ===== verification/Cb_Outcomes.thy ===== *)
theory Cb_Outcomes
  imports Cb_Invoke_Results
begin

text \<open>
  The shape of an invocation: the loop around the provider call comes to an end, and
  whatever \<open>invoke\<close> returns is a well-formed \<open>InvokeOutcome\<close>.
\<close>

section \<open>The loop around the provider call\<close>

text \<open>
  Step 10 of \<open>_execute_call\<close> as it is written, a \<open>while True\<close> over the variables
  \<open>refreshed\<close> and \<open>access_token\<close>.  A loop that goes round for ever is \<open>None\<close>.
\<close>

partial_function (option) provider_loop ::
  "('r, 'x) services \<Rightarrow> config \<Rightarrow> uuid \<Rightarrow> string \<Rightarrow> connected_account \<Rightarrow> tool \<Rightarrow> dict \<Rightarrow> real \<Rightarrow> bool \<Rightarrow> string
    \<Rightarrow> ('r, 'x) world \<Rightarrow> ((exn + invoke_outcome) \<times> ('r, 'x) world) option" where
  "provider_loop S cf grant_id token_hash account tool arguments start refreshed access_token w =
     (case call_provider S cf tool access_token arguments w of
        (Inr result, w1) \<Rightarrow> Some (outcome ''success'' result None None start False w1)
      | (Inl e, w1) \<Rightarrow>
          if broker_class e = Some ProviderCallError \<and> status_code e = Some 401 \<and> \<not> refreshed \<and> can_refresh account then
            (case refresh_or_outcome S cf account start w1 of
               (Inl e', w2) \<Rightarrow> Some (Inl e', w2)
             | (Inr (Inl o'), w2) \<Rightarrow> Some (Inr o', w2)
             | (Inr (Inr refresh_result), w2) \<Rightarrow>
                 (case is_revoked_now S cf grant_id token_hash w2 of
                    (Inl e', w3) \<Rightarrow> Some (Inl e', w3)
                  | (Inr revoked, w3) \<Rightarrow>
                      if revoked then Some (denied ''grant has been revoked'' ''revoked'' start w3)
                      else provider_loop S cf grant_id token_hash account tool arguments start True refresh_result w3))
          else Some (call_failed tool start e w1))"

text \<open>The second round is the last one: \<open>refreshed\<close> is set.\<close>

lemma last_round:
  "provider_loop S cf gid h account tool args start True tok w = Some (last_call S cf tool tok args start w)"
  by (subst provider_loop.simps) (simp add: last_call_def tryM_def bindM_def split: prod.split sum.split)

text \<open>
  C17: the provider loop ends.  From every state, with every credential, account and
  provider behaviour, the \<open>while True\<close> of \<open>_execute_call\<close> comes to an end: it goes
  round at most twice, because the second round starts with \<open>refreshed\<close> set, and what
  it returns or raises is what the two rounds written out one after the other do, which is
  the form in which the rest of the development reasons about it.
\<close>

theorem provider_loop_ends:
  "provider_loop S cf gid h account tool args start refreshed tok w
     = Some (call_loop S cf gid h account tool refreshed tok args start w)"
  by (subst provider_loop.simps) (auto simp: call_loop_def last_round tryM_def bindM_def split: prod.split sum.split)

section \<open>Well-formed outcomes\<close>

definition DENIED_REASONS :: "string list" where
  "DENIED_REASONS = [''invalid_token'', ''expired'', ''revoked'', ''not_found'', ''tool_mismatch'', ''scope_mismatch'',
     ''rate_limited'', ''idempotency_conflict'']"

text \<open>What the docstring of \<open>InvokeOutcome\<close> promises of its fields.\<close>

definition well_formed :: "invoke_outcome \<Rightarrow> bool" where
  "well_formed o' \<longleftrightarrow> 0 \<le> io_latency_ms o' \<and>
     (if io_status o' = ''success'' then io_error o' = None \<and> io_denied_reason o' = None
      else io_result o' = JNull \<and> io_error o' \<noteq> None \<and> \<not> io_from_cache o' \<and>
        (if io_status o' = ''denied'' then io_denied_reason o' \<in> Some ` set DENIED_REASONS
         else io_status o' = ''failed'' \<and> io_denied_reason o' = None))"

abbreviation yields :: "('r, 'x, invoke_outcome) io \<Rightarrow> bool" where
  "yields m \<equiv> triple (\<lambda>_. True) m (\<lambda>o' _. well_formed o') (\<lambda>_ _. True)"

lemma yields_success: "yields (outcome ''success'' result None None start c)"
  by (simp add: triple_def outcome_run well_formed_def elapsed_ms_def)

lemma yields_denied: "reason \<in> set DENIED_REASONS \<Longrightarrow> yields (denied msg reason start)"
  by (simp add: triple_def outcome_run well_formed_def elapsed_ms_def)

lemma yields_failed: "yields (failed msg start)"
  by (simp add: triple_def outcome_run well_formed_def elapsed_ms_def)

lemma yields_bind: "(\<And>x. yields (f x)) \<Longrightarrow> yields (bindM m f)"
  by (rule triple_bindM [OF triple_any])

lemma yields_after: "yields m \<Longrightarrow> yields (bindM m (\<lambda>o'. bindM (g o') (\<lambda>_. ret o')))"
  by (auto simp: triple_def bindM_def split: prod.splits sum.splits)

lemmas yields_intros = triple_if triple_case_sum triple_case_option triple_case_prod triple_raise
  yields_success yields_failed yields_denied

lemma reasons:
  "''invalid_token'' \<in> set DENIED_REASONS" "''expired'' \<in> set DENIED_REASONS" "''revoked'' \<in> set DENIED_REASONS"
  "''not_found'' \<in> set DENIED_REASONS" "''tool_mismatch'' \<in> set DENIED_REASONS" "''scope_mismatch'' \<in> set DENIED_REASONS"
  "''rate_limited'' \<in> set DENIED_REASONS" "''idempotency_conflict'' \<in> set DENIED_REASONS"
  by (simp_all add: DENIED_REASONS_def)

text \<open>A step that gives up with an outcome or goes on with a value.\<close>

abbreviation yields_or :: "('r, 'x, invoke_outcome + 'a) io \<Rightarrow> bool" where
  "yields_or m \<equiv> triple (\<lambda>_. True) m (\<lambda>r _. case r of Inl o' \<Rightarrow> well_formed o' | Inr _ \<Rightarrow> True) (\<lambda>_ _. True)"

lemma yields_or_bind:
  assumes "yields_or m" and "\<And>x. yields (f x)"
  shows "yields (bindM m (\<lambda>r. case r of Inl o' \<Rightarrow> ret o' | Inr x \<Rightarrow> f x))"
  by (rule triple_bindM [OF assms(1)], rule triple_case_sum) (auto intro: triple_ret triple_pre [OF assms(2)])

lemma yields_or_failed: "yields_or (bindM (failed msg start) (\<lambda>o'. ret (Inl o')))"
  by (rule triple_bindM [OF yields_failed], rule triple_ret) simp

lemma yields_or_refresh: "yields_or (refresh_or_outcome S cf account start)"
  unfolding refresh_or_outcome_def
  by (rule triple_catchM [where R = "\<lambda>_ _. True"])
    (rule triple_bindM [OF triple_any], rule triple_ret, simp, intro triple_if yields_or_failed triple_raise, simp)

lemma yields_or_usable: "yields_or (usable_token S cf account start)"
  unfolding usable_token_def Let_def
  by (intro triple_bindM [OF triple_any] triple_if yields_or_failed triple_case_sum triple_ret triple_raise
      triple_bindM [OF yields_or_refresh]) simp_all

lemma yields_call_failed: "yields (call_failed tool start e)"
  unfolding call_failed_def by (intro yields_intros) simp

lemma yields_last_call: "yields (last_call S cf tool tok args start)"
  unfolding last_call_def by (intro yields_bind yields_intros yields_call_failed)

lemma yields_call_loop: "yields (call_loop S cf gid h account tool refreshed tok args start)"
  unfolding call_loop_def
  by (intro yields_bind triple_case_sum triple_if yields_or_bind [OF yields_or_refresh] yields_call_failed yields_success
      yields_denied reasons yields_last_call)

lemma yields_execute: "yields (execute_call S cf g h tool args start)"
  unfolding execute_call_def
  by (intro yields_bind triple_case_option yields_failed yields_or_bind [OF yields_or_usable] triple_case_prod triple_if
      yields_denied reasons yields_call_loop)

lemma yields_idempotent: "yields m \<Longrightarrow> yields (with_idempotency S cf g tn k start m)"
  unfolding with_idempotency_def Let_def finish_idempotent_def
  by (auto split: option.split intro!: yields_bind yields_intros reasons yields_after triple_catchM)

lemma yields_resolved: "yields (invoke_resolved S cf g h tn args k fast start)"
  unfolding invoke_resolved_def
  by (intro yields_bind triple_if triple_case_sum yields_denied reasons yields_idempotent yields_execute)

lemma yields_invoke_grant: "yields (invoke_grant S cf g h tn args k fast start)"
  unfolding invoke_grant_def
  by (intro yields_after triple_catchM [OF yields_resolved] triple_if yields_bind yields_failed triple_raise) simp

lemma yields_session: "yields m \<Longrightarrow> yields (with_session m)"
  unfolding with_session_def
  by (intro yields_bind yields_after triple_catchM [where R = "\<lambda>_ _. True"] triple_raise) simp_all

text \<open>
  C36: every outcome is well formed.  Under every configuration, whatever the services
  answer, whatever the rest of the world does meanwhile and whichever step fails, what
  \<open>invoke\<close> returns has one of the three statuses, a latency that is not negative, an
  error message exactly when it is no success, a result only when it is one, the
  machine-readable reason of its refusal, one of the eight documented codes, exactly when it
  is a denial, and comes from the idempotency cache only as a success.
\<close>

theorem invoke_well_formed:
  "case fst (invoke S cf token tool_name args key w) of Inr o' \<Rightarrow> well_formed o' | Inl e \<Rightarrow> True"
proof -
  have "yields (resolve_and_invoke S cf h tool_name args key start)" for h start
    unfolding resolve_and_invoke_def
    by (intro yields_bind triple_case_option yields_denied reasons yields_invoke_grant)
  then have "yields (invoke S cf token tool_name args key)"
    unfolding invoke_def Let_def
    by (intro yields_bind triple_case_sum triple_if yields_denied reasons yields_session triple_raise) simp_all
  then show ?thesis by (cases "invoke S cf token tool_name args key w") (auto simp: triple_def split: prod.splits sum.splits)
qed

end
