(* ===== verification/Cb_Idem_Shared.thy ===== *)
theory Cb_Idem_Shared
  imports Cb_Idempotency
begin

text \<open>
  The idempotency store while other callers, of this process and of others, work on the
  same key between any two Redis commands (\<open>credbroker/reliability/idempotency.py\<close>).

  Rely and guarantee.  What a key holds until some instant (\<open>holds\<close>) is kept by every
  operation that presents another owner's token, at each of its commands
  (\<open>powerless_keeps\<close>); the environment is relied on for the same, and for a clock that
  does not go back.  What this excludes is an operation begun before the reservation was
  made, whose comparison is already behind it: the race the module's documentation accepts.
\<close>

section \<open>What a key holds\<close>

definition holds :: "('r, 'x) services \<Rightarrow> string \<Rightarrow> string \<Rightarrow> int \<Rightarrow> ('r, 'x) world \<Rightarrow> bool" where
  "holds S key content t1 w \<longleftrightarrow>
     (\<forall>t. w_now w \<le> t \<longrightarrow> t < t1 \<longrightarrow> rd_get (sv_redis S) t (name key) (w_redis w) = Some content)"

lemma holds_over [simp]: "t1 \<le> w_now w \<Longrightarrow> holds S key content t1 w"
  by (simp add: holds_def)

lemma holds_now: "holds S key content t1 w \<Longrightarrow> rd_get (sv_redis S) (w_now w) (name key) (w_redis w) = Some content \<or> t1 \<le> w_now w"
  by (cases "t1 \<le> w_now w") (auto simp: holds_def)

text \<open>An operation that cannot touch a key that holds \<open>content\<close>.\<close>

fun powerless :: "string \<Rightarrow> idem_op \<Rightarrow> bool" where
  "powerless content (OpComplete own v) \<longleftrightarrow> own \<noteq> None \<and> content \<noteq> pending_value (the own)"
| "powerless content (OpRelease own) \<longleftrightarrow> \<not> prefix PENDING_MARKER content \<or> own \<noteq> None \<and> content \<noteq> pending_value (the own)"
| "powerless content _ \<longleftrightarrow> True"



locale shared_key =
  fixes S :: "('r, 'x) services" and key content :: string
  assumes server: "redis_server (sv_redis S)" and forward: "clock_forward S"
    and kept: "env_stable S (holds S key content t1)"
begin

lemma later: "env_stable S (\<lambda>w. T \<le> w_now w)"
  using forward by (auto simp: env_stable_def clock_forward_def intro: order_trans)

text \<open>A read sees the content, or comes too late.\<close>

lemma read:
  "triple (holds S key content t1) (redis_get S (name key)) (\<lambda>v w. holds S key content t1 w \<and> (v = Some content \<or> t1 \<le> w_now w))
    (\<lambda>_. holds S key content t1)"
  unfolding redis_get_def
proof (rule triple_awaiting [OF kept])
  show "triple (holds S key content t1) (getM (\<lambda>w. rd_get (sv_redis S) (w_now w) (name key) (w_redis w)))
      (\<lambda>v w. holds S key content t1 w \<and> (v = Some content \<or> t1 \<le> w_now w)) (\<lambda>_. holds S key content t1)"
    by (auto simp: triple_def dest: holds_now)
  show "env_stable S (\<lambda>w. holds S key content t1 w \<and> (v = Some content \<or> t1 \<le> w_now w))" for v
    using kept [of t1] later [of t1] by (auto simp: env_stable_def)
qed (auto intro: kept)

text \<open>A claim fails, or comes too late.\<close>

lemma claim:
  "triple (holds S key content t1) (redis_set S (name key) v True RESERVATION_TTL_SECONDS)
    (\<lambda>b w. holds S key content t1 w \<and> (b \<longrightarrow> t1 \<le> w_now w)) (\<lambda>_. holds S key content t1)"
  unfolding redis_set_def
proof (rule triple_awaiting [OF kept])
  show "triple (holds S key content t1)
      (\<lambda>w. case rd_set (sv_redis S) (w_now w) (name key) v True RESERVATION_TTL_SECONDS (w_redis w) of (b, r) \<Rightarrow> (b, w\<lparr>w_redis := r\<rparr>))
      (\<lambda>b w. holds S key content t1 w \<and> (b \<longrightarrow> t1 \<le> w_now w)) (\<lambda>_. holds S key content t1)"
    unfolding triple_def
  proof (intro allI impI)
    fix w assume h: "holds S key content t1 w"
    show "case (case rd_set (sv_redis S) (w_now w) (name key) v True RESERVATION_TTL_SECONDS (w_redis w) of (b, r) \<Rightarrow> (b, w\<lparr>w_redis := r\<rparr>)) of
        (Inl e, w') \<Rightarrow> holds S key content t1 w' | (Inr b, w') \<Rightarrow> holds S key content t1 w' \<and> (b \<longrightarrow> t1 \<le> w_now w')"
      using holds_now [OF h] h redis_server.set_result [OF server RESERVATION_TTL_pos, of "w_now w" "name key" v True "w_redis w"]
        redis_server.set_kept [OF server RESERVATION_TTL_pos, of True "w_now w" "name key" "w_redis w" _ v]
      by (auto simp: holds_def split: prod.split sum.split)
  qed
  show "env_stable S (\<lambda>w. holds S key content t1 w \<and> (b \<longrightarrow> t1 \<le> w_now w))" for b
    using kept [of t1] later [of t1] by (auto simp: env_stable_def)
qed (auto intro: kept)

lemma too_late:
  assumes "\<And>T. keeps (\<lambda>w. T \<le> w_now w) m"
  shows "triple (\<lambda>w. t1 \<le> w_now w) m (\<lambda>_. holds S key content t1) (\<lambda>_. holds S key content t1)"
  by (rule triple_conseq [OF assms [of t1]]) auto

lemma late_read: "keeps (\<lambda>w. T \<le> w_now w) (redis_get S k)"
  by (intro keeps_redis later; simp add: score_def)

lemma late_commands [intro]:
  "keeps (\<lambda>w. T \<le> w_now w) (redis_set S k v nx ex)" "keeps (\<lambda>w. T \<le> w_now w) (redis_delete S k)"
  by (intro keeps_redis later; simp add: score_def)+

theorem powerless_keeps:
  assumes "powerless content op"
  shows "triple (holds S key content t1) (run_op S win key op)
    (\<lambda>r w. holds S key content t1 w \<and> (r \<noteq> None \<longrightarrow> t1 \<le> w_now w)) (\<lambda>_. holds S key content t1)"
proof -
  let ?I = "holds S key content t1"
  have after: "triple (\<lambda>w. ?I w \<and> (v = Some content \<or> t1 \<le> w_now w)) m (\<lambda>_. ?I) (\<lambda>_. ?I)"
    if "v = Some content \<Longrightarrow> triple ?I m (\<lambda>_. ?I) (\<lambda>_. ?I)" and "triple (\<lambda>w. t1 \<le> w_now w) m (\<lambda>_. ?I) (\<lambda>_. ?I)" for v and m :: "('r, 'x, 'a) io"
    using that by (cases "v = Some content") (auto simp: triple_def)
  have none: "triple ?I (bindM m (\<lambda>_. ret None)) (\<lambda>r w. ?I w \<and> (r \<noteq> None \<longrightarrow> t1 \<le> w_now w)) (\<lambda>_. ?I)"
    if "triple ?I m (\<lambda>_. ?I) (\<lambda>_. ?I)" for m :: "('r, 'x, 'a) io"
    by (rule triple_bindM [OF that]) (simp add: triple_def)
  show ?thesis
  proof (cases op)
    case OpGet
    have "triple ?I (idem_get S key) (\<lambda>_. ?I) (\<lambda>_. ?I)"
      unfolding idem_get_def by (rule triple_bindM [OF read]) (auto simp: triple_def split: option.split)
    then show ?thesis using none OpGet by simp
  next
    case OpReserve
    have "triple ?I (token_hex S 16) (\<lambda>_. ?I) (\<lambda>_. ?I)"
      by (auto simp: triple_def token_hex_def draw_def holds_def split: prod.split)
    then have "triple ?I (reserve S key) (\<lambda>r w. ?I w \<and> (r \<noteq> None \<longrightarrow> t1 \<le> w_now w)) (\<lambda>_. ?I)"
      unfolding reserve_def by (rule triple_bindM) (rule triple_bindM [OF claim], auto simp: triple_def)
    then show ?thesis using OpReserve by simp
  next
    case (OpComplete own v)
    then obtain o' where o': "own = Some o'" "content \<noteq> pending_value o'" using assms by auto
    have "triple ?I (complete S win key v own) (\<lambda>_. ?I) (\<lambda>_. ?I)"
      unfolding complete_def Let_def o'(1) option.case
      by (rule triple_bindM [OF read], rule after) (use o'(2) in \<open>auto intro!: triple_if triple_ret too_late keeps_bindM late_commands\<close>)
    then show ?thesis using none OpComplete by simp
  next
    case (OpRelease own)
    then have p: "\<not> prefix PENDING_MARKER content \<or> own \<noteq> None \<and> content \<noteq> pending_value (the own)" using assms by simp
    have "triple ?I (release S key own) (\<lambda>_. ?I) (\<lambda>_. ?I)"
      unfolding release_def
      by (rule triple_bindM [OF read], rule after)
        (use p in \<open>auto intro!: triple_if triple_ret too_late triple_case_option late_commands\<close>)
    then show ?thesis using none OpRelease by simp
  qed
qed

text \<open>A claim that succeeds writes the content.\<close>

lemma claimed:
  "triple (\<lambda>w. T \<le> w_now w) (redis_set S (name key) content True RESERVATION_TTL_SECONDS)
    (\<lambda>b w. b \<longrightarrow> holds S key content (T + RESERVATION_TTL_SECONDS * 1000000) w) (\<lambda>_ _. True)"
  unfolding redis_set_def
proof (rule triple_awaiting)
  have "holds S key content (T + RESERVATION_TTL_SECONDS * 1000000)
      (w\<lparr>w_redis := snd (rd_set (sv_redis S) (w_now w) (name key) content True RESERVATION_TTL_SECONDS (w_redis w))\<rparr>)"
    if "T \<le> w_now w" "fst (rd_set (sv_redis S) (w_now w) (name key) content True RESERVATION_TTL_SECONDS (w_redis w)) = Inr True" for w
    using that redis_server.set_result [OF server RESERVATION_TTL_pos, of "w_now w" "name key" content True "w_redis w"]
      redis_server.set_written [OF server RESERVATION_TTL_pos, of True "w_now w" "name key" "w_redis w" _ content]
    by (auto simp: holds_def expiry_at_def)
  then show "triple (\<lambda>w. T \<le> w_now w)
      (\<lambda>w. case rd_set (sv_redis S) (w_now w) (name key) content True RESERVATION_TTL_SECONDS (w_redis w) of (b, r) \<Rightarrow> (b, w\<lparr>w_redis := r\<rparr>))
      (\<lambda>b w. b \<longrightarrow> holds S key content (T + RESERVATION_TTL_SECONDS * 1000000) w) (\<lambda>_ _. True)"
    by (fastforce simp: triple_def split: prod.split sum.split)
  show "env_stable S (\<lambda>w. b \<longrightarrow> holds S key content (T + RESERVATION_TTL_SECONDS * 1000000) w)" for b
    using kept by (auto simp: env_stable_def)
qed (auto intro: later)

text \<open>Completing writes the content, and from then on reading returns it.\<close>

lemma written:
  assumes "0 < win"
  shows "triple (\<lambda>w. T \<le> w_now w) (redis_set S (name key) content False win) (\<lambda>_. holds S key content (T + win * 1000000)) (\<lambda>_ _. True)"
  unfolding redis_set_def
proof (rule triple_awaiting)
  have "holds S key content (T + win * 1000000) (w\<lparr>w_redis := snd (rd_set (sv_redis S) (w_now w) (name key) content False win (w_redis w))\<rparr>)"
    if "T \<le> w_now w" for w
    using that redis_server.set_fresh_get [OF server assms, of "w_now w" _ "name key" content "w_redis w"]
    by (auto simp: holds_def expiry_at_def)
  then show "triple (\<lambda>w. T \<le> w_now w)
      (\<lambda>w. case rd_set (sv_redis S) (w_now w) (name key) content False win (w_redis w) of (b, r) \<Rightarrow> (b, w\<lparr>w_redis := r\<rparr>))
      (\<lambda>_. holds S key content (T + win * 1000000)) (\<lambda>_ _. True)"
    by (fastforce simp: triple_def split: prod.split sum.split)
qed (auto intro: kept later)

lemma read_back:
  assumes "loads (sv_float S) content = Some v" and "\<not> prefix PENDING_MARKER content"
  shows "triple (holds S key content t1) (idem_get S key) (\<lambda>r w. r = v \<or> t1 \<le> w_now w)
    (\<lambda>e w. t1 \<le> w_now w \<or> (\<exists>k p u. sv_fault S k p u = Some e))"
proof -
  have f: "\<exists>k p u. sv_fault S k p u = Some e" if "redis_get S k' w = (Inl e, w')" for k' w e w'
    using that by (auto simp: redis_get_def awaiting_def suspend_def Let_def split: option.splits)
  have get: "triple (holds S key content t1) (redis_get S (name key)) (\<lambda>r w. r = Some content \<or> t1 \<le> w_now w)
      (\<lambda>e w. t1 \<le> w_now w \<or> (\<exists>k p u. sv_fault S k p u = Some e))"
    by (rule tripleI) (use f tripleD_Inr [OF read] in blast)+
  have rest: "triple (\<lambda>w. r = Some content \<or> t1 \<le> w_now w) (case r of None \<Rightarrow> ret JNull
      | Some v \<Rightarrow> if prefix PENDING_MARKER v
          then raise (broker_error IdempotencyConflictError ''a concurrent call with the same idempotency key is in flight'')
          else case loads (sv_float S) v of None \<Rightarrow> raise JSONDecodeError | Some j \<Rightarrow> ret j)
      (\<lambda>r w. r = v \<or> t1 \<le> w_now w) (\<lambda>e w. t1 \<le> w_now w \<or> (\<exists>k p u. sv_fault S k p u = Some e))" for r
    using assms by (auto simp: triple_def split: option.split)
  show ?thesis unfolding idem_get_def by (rule triple_bindM [OF get rest])
qed

end

lemma run_op_later:
  assumes "clock_forward S"
  shows "keeps (\<lambda>w. T \<le> w_now w) (run_op S win key op)" "keeps (\<lambda>w. T \<le> w_now w) (complete S win key v own)"
    "keeps (\<lambda>w. T \<le> w_now w) (idem_get S key)"
proof -
  have st: "env_stable S (\<lambda>w. T \<le> w_now w)"
    using assms by (auto simp: env_stable_def clock_forward_def intro: order_trans)
  show "keeps (\<lambda>w. T \<le> w_now w) (run_op S win key op)" "keeps (\<lambda>w. T \<le> w_now w) (complete S win key v own)"
    "keeps (\<lambda>w. T \<le> w_now w) (idem_get S key)"
    by (cases op) (auto intro!: keeps_bindM keeps_idem triple_ret st simp: score_def)
qed

section \<open>A sequence of callers\<close>

fun run_each :: "('r, 'x) services \<Rightarrow> int \<Rightarrow> string \<Rightarrow> idem_op list \<Rightarrow> ('r, 'x) world
    \<Rightarrow> (exn + string option) list \<times> ('r, 'x) world" where
  "run_each S win key [] w = ([], w)"
| "run_each S win key (op # ops) w =
     (case run_op S win key op w of (b, w1) \<Rightarrow>
      case run_each S win key ops w1 of (bs, w2) \<Rightarrow> (b # bs, w2))"

lemma run_each_later:
  assumes "clock_forward S" and "run_each S win key ops w = (bs, w1)"
  shows "w_now w \<le> w_now w1"
  using assms(2)
proof (induction ops arbitrary: w bs)
  case (Cons op ops)
  obtain b w' bs' where r: "run_op S win key op w = (b, w')" "run_each S win key ops w' = (bs', w1)"
    using Cons.prems by (auto split: prod.splits)
  have "w_now w \<le> w_now w'" using keepsD [OF run_op_later(1) [OF assms(1)], of "w_now w" w win key op] r(1) by simp
  then show ?case using Cons.IH [OF r(2)] by simp
qed simp

lemma run_each_keeps:
  assumes "shared_key S key content" and "\<forall>op \<in> set ops. powerless content op" and "holds S key content t1 w"
    and "run_each S win key ops w = (bs, w1)"
  shows "holds S key content t1 w1 \<and> (w_now w1 < t1 \<longrightarrow> (\<forall>b \<in> set bs. \<forall>o'. b \<noteq> Inr (Some o')))"
  using assms(2-4)
proof (induction ops arbitrary: w bs)
  case (Cons op ops)
  obtain b w' bs' where r: "run_op S win key op w = (b, w')" "run_each S win key ops w' = (bs', w1)" "bs = b # bs'"
    using Cons.prems(3) by (auto split: prod.splits)
  note t = shared_key.powerless_keeps [OF assms(1), of op]
  have b: "holds S key content t1 w'" "\<And>o'. b = Inr (Some o') \<Longrightarrow> t1 \<le> w_now w'"
    using tripleD_Inr [OF t Cons.prems(2)] tripleD_Inl [OF t Cons.prems(2)] Cons.prems(1) r(1) by (cases b; fastforce)+
  have "w_now w' \<le> w_now w1" using run_each_later [OF shared_key.forward [OF assms(1)] r(2)] .
  then show ?case using Cons.IH [OF _ b(1) r(2)] Cons.prems(1) b(2) r(3) by fastforce
qed simp



section \<open>An environment of other callers\<close>

text \<open>
  The reliance is what the store's own operations offer: if between any two commands
  other callers run operations that cannot touch the content, and time passes, the
  environment is one of those above.
\<close>

definition with_callers :: "('r, 'x) services \<Rightarrow> int \<Rightarrow> string \<Rightarrow> (('r, 'x) world \<Rightarrow> idem_op list) \<Rightarrow> (('r, 'x) world \<Rightarrow> int)
    \<Rightarrow> ('r, 'x) services" where
  "with_callers S win key others later =
     S\<lparr>sv_interfere := \<lambda>w. snd (run_each S win key (others w) (w\<lparr>w_now := later w\<rparr>))\<rparr>"

lemma with_callers_sel [simp]:
  "sv_redis (with_callers S win key others later) = sv_redis S" "sv_fault (with_callers S win key others later) = sv_fault S"
  "sv_token_hex (with_callers S win key others later) = sv_token_hex S" "sv_float (with_callers S win key others later) = sv_float S"
  by (simp_all add: with_callers_def)

lemma with_callers_env:
  "w_redis (env (with_callers S win key others later) w) = w_redis (snd (run_each S win key (others w) (w\<lparr>w_now := later w\<rparr>)))"
  "w_now (env (with_callers S win key others later) w) = w_now (snd (run_each S win key (others w) (w\<lparr>w_now := later w\<rparr>)))"
  by (simp_all add: with_callers_def env_def)

lemma quiet_shared: "quiet S \<Longrightarrow> redis_server (sv_redis S) \<Longrightarrow> shared_key S key content"
  by (simp add: shared_key_def env_stable_def clock_forward_def env_def quiet_def)

lemma callers_shared:
  assumes "quiet S" and "redis_server (sv_redis S)" and "\<And>w. \<forall>op \<in> set (others w). powerless content op" and "\<And>w. w_now w \<le> later w"
  shows "shared_key (with_callers S win key others later) key content"
proof (rule shared_key.intro)
  let ?S = "with_callers S win key others later"
  note sh = quiet_shared [OF assms(1,2)]
  show "redis_server (sv_redis ?S)" using assms(2) by simp
  show "clock_forward ?S"
    unfolding clock_forward_def with_callers_env
  proof
    fix w show "w_now w \<le> w_now (snd (run_each S win key (others w) (w\<lparr>w_now := later w\<rparr>)))"
      using run_each_later [OF shared_key.forward [OF sh], of win key "others w" "w\<lparr>w_now := later w\<rparr>"] assms(4) [of w]
      by (cases "run_each S win key (others w) (w\<lparr>w_now := later w\<rparr>)") fastforce
  qed
  have h: "holds ?S key content t1 w \<longleftrightarrow> holds S key content t1 w" for t1 w by (simp add: holds_def)
  show "env_stable ?S (holds ?S key content t1)" for t1
    unfolding env_stable_def h
  proof (intro allI impI)
    fix w assume "holds S key content t1 w"
    then have "holds S key content t1 (w\<lparr>w_now := later w\<rparr>)" using assms(4) [of w] by (auto simp: holds_def)
    then have "holds S key content t1 (snd (run_each S win key (others w) (w\<lparr>w_now := later w\<rparr>)))"
      using run_each_keeps [OF sh assms(3)] by (metis prod.collapse)
    then show "holds S key content t1 (env ?S w)" by (simp add: holds_def with_callers_env)
  qed
qed

text \<open>Others who try everything on a key that is taken, and a clock that ticks.\<close>

definition busy :: "(memory, nat) services" where
  "busy = with_callers sample_services 3600 ''k''
     (\<lambda>w. if slot_of sample_services ''k'' w = Free then []
          else [OpGet, OpReserve, OpRelease (Some ''x''), OpComplete (Some ''x'') JNull]) (\<lambda>w. w_now w + 1)"

lemma busy_shared: "content \<noteq> pending_value ''x'' \<Longrightarrow> shared_key busy ''k'' content"
  unfolding busy_def by (rule callers_shared) auto

interpretation busy: shared_key busy "''k''" "pending_value (hex_fixed 32 1)"
proof -
  have "length (hex_fixed 32 1) \<noteq> length ''x''" by simp
  then have "hex_fixed 32 1 \<noteq> ''x''" by metis
  then show "shared_key busy ''k'' (pending_value (hex_fixed 32 1))" by (intro busy_shared) (simp only: pending_value_inject not_False_eq_True)
qed

lemma busy_sel [simp]: "sv_redis busy = mem_redis" "sv_fault busy = sv_fault sample_services" "sv_fault sample_services k p w = None"
  "sv_token_hex busy = sv_token_hex sample_services" "sv_float busy = JNonFinite"
  by (simp_all add: busy_def) (simp add: sample_services_def)











end
