(* ===== verification/Cb_Invoke_Once.thy ===== *)
theory Cb_Invoke_Once
  imports Cb_Invoke_Results
begin

text \<open>
  At most one provider call per idempotency key, under concurrency: while another
  invocation holds the key, by its reservation or by its result, no second one gets
  through to the provider, however the two overlap.
\<close>

section \<open>The key is taken\<close>

text \<open>
  Every grant with the token's hash belongs to the agent and the account of the key,
  and the store holds something under it at this moment, of which \<open>V\<close> says what it may be.
\<close>

definition key_taken :: "('r, 'x) services \<Rightarrow> string \<Rightarrow> string \<Rightarrow> string \<Rightarrow> string \<Rightarrow> (string \<Rightarrow> bool) \<Rightarrow> ('r, 'x) world \<Rightarrow> bool" where
  "key_taken S h tn k key V w \<longleftrightarrow>
     list_all (\<lambda>g. full_key g tn k = key) (grants_by_hash (w_db w) h) \<and>
     (\<exists>v. rd_get (sv_redis S) (w_now w) (name key) (w_redis w) = Some v \<and> V v)"

text \<open>Predicates on the shared state and the effects, which the session's own work does not touch.\<close>

definition outer :: "(('r, 'x) world \<Rightarrow> bool) \<Rightarrow> bool" where
  "outer I \<longleftrightarrow> (\<forall>w w'. w_db w = w_db w' \<longrightarrow> w_redis w = w_redis w' \<longrightarrow> w_now w = w_now w' \<longrightarrow> w_trace w = w_trace w' \<longrightarrow>
     I w \<longrightarrow> I w')"

lemma keeps_outer:
  assumes "outer I" and "\<And>w. w_db (snd (m w)) = w_db w" and "\<And>w. w_redis (snd (m w)) = w_redis w"
    and "\<And>w. w_now (snd (m w)) = w_now w" and "\<And>w. w_trace (snd (m w)) = w_trace w"
  shows "keeps I m"
  using assms unfolding outer_def by (intro keepsI) metis

lemma outer_prims:
  assumes "outer I"
  shows "keeps I (draw f)" "keeps I (inc mt)" "keeps I end_transaction" "keeps I (scrub msg)"
  by (rule keeps_outer [OF assms]; simp add: draw_def inc_def end_transaction_def scrub_def split: prod.split)+

lemma outer_core: "core I \<Longrightarrow> outer I"
  unfolding core_def outer_def by blast

definition blocked :: "('r, 'x) services \<Rightarrow> string \<Rightarrow> string \<Rightarrow> string \<Rightarrow> string \<Rightarrow> (string \<Rightarrow> bool) \<Rightarrow> event list \<Rightarrow> ('r, 'x) world \<Rightarrow> bool" where
  "blocked S h tn k key V t0 w \<longleftrightarrow> key_taken S h tn k key V w \<and> emits (\<lambda>e. \<not> is_http e) t0 w"

lemma blocked_outer: "outer (blocked S h tn k key V t0)"
  by (simp add: outer_def blocked_def key_taken_def emits_def)

lemma blocked_stable: "env_stable S (key_taken S h tn k key V) \<Longrightarrow> env_stable S (blocked S h tn k key V t0)"
  unfolding blocked_def by (intro env_stable_conj emits_stable)

lemma other_key: "name key \<noteq> counter_key b i"
  by (simp add: name_def IDEM_PREFIX_def counter_key_def RATELIMIT_PREFIX_def)

lemma blocked_redis:
  assumes "redis_server (sv_redis S)" and "env_stable S (key_taken S h tn k key V)"
  shows "keeps (blocked S h tn k key V t0) (redis_get S k')" "keeps (blocked S h tn k key V t0) (redis_exists S k')"
    "keeps (blocked S h tn k key V t0) (redis_incr S (counter_key b i))"
    "keeps (blocked S h tn k key V t0) (redis_expire S (counter_key b i) s)"
proof -
  note st = blocked_stable [OF assms(2)]
  show "keeps (blocked S h tn k key V t0) (redis_get S k')" "keeps (blocked S h tn k key V t0) (redis_exists S k')"
    unfolding redis_get_def redis_exists_def by (intro keeps_awaiting st keepsI; simp)+
  show "keeps (blocked S h tn k key V t0) (redis_incr S (counter_key b i))"
    unfolding redis_incr_def
    by (intro keeps_awaiting st keepsI)
      (use redis_server.incr_other [OF assms(1) other_key order_refl] in \<open>auto simp: blocked_def key_taken_def emits_def split: prod.split; metis snd_conv option.distinct(1)\<close>)
  show "keeps (blocked S h tn k key V t0) (redis_expire S (counter_key b i) s)"
    unfolding redis_expire_def
    by (intro keeps_awaiting st keepsI)
      (simp add: blocked_def key_taken_def emits_def redis_server.expire_other [OF assms(1) other_key order_refl])
qed

lemma blocked_check:
  assumes "redis_server (sv_redis S)" and "env_stable S (key_taken S h tn k key V)"
  shows "keeps (blocked S h tn k key V t0) (check S b limit win)"
  unfolding check_def Let_def by (intro wp blocked_redis assms)

text \<open>No reservation is given out.\<close>

lemma blocked_reserve:
  assumes "redis_server (sv_redis S)" and "env_stable S (key_taken S h tn k key V)"
  shows "triple (blocked S h tn k key V t0) (reserve S key) (\<lambda>r w. blocked S h tn k key V t0 w \<and> r = None) (\<lambda>_. blocked S h tn k key V t0)"
proof -
  let ?B = "blocked S h tn k key V t0"
  note st = blocked_stable [OF assms(2)]
  have set: "triple ?B (\<lambda>w. case rd_set (sv_redis S) (w_now w) (name key) v True RESERVATION_TTL_SECONDS (w_redis w) of (b, r) \<Rightarrow> (b, w\<lparr>w_redis := r\<rparr>))
      (\<lambda>b w. ?B w \<and> \<not> b) (\<lambda>_. ?B)" for v
  proof (rule tripleI)
    fix w x w' assume b: "?B w"
    then have n: "True \<and> rd_get (sv_redis S) (w_now w) (name key) (w_redis w) \<noteq> None" by (auto simp: blocked_def key_taken_def)
    obtain q r where s: "rd_set (sv_redis S) (w_now w) (name key) v True RESERVATION_TTL_SECONDS (w_redis w) = (q, r)" by force
    have f: "q = Inr False" "rd_get (sv_redis S) (w_now w) (name key) r = rd_get (sv_redis S) (w_now w) (name key) (w_redis w)"
      using redis_server.set_result [OF assms(1) RESERVATION_TTL_pos, of "w_now w" "name key" v True "w_redis w"]
        redis_server.set_kept [OF assms(1) RESERVATION_TTL_pos n order_refl, of v] n s by simp_all
    have k: "?B (w\<lparr>w_redis := r\<rparr>)" using b f(2) by (simp add: blocked_def key_taken_def emits_def)
    show "(case rd_set (sv_redis S) (w_now w) (name key) v True RESERVATION_TTL_SECONDS (w_redis w) of (b, r) \<Rightarrow> (b, w\<lparr>w_redis := r\<rparr>)) = (Inr x, w') \<Longrightarrow>
        ?B w' \<and> \<not> x" using k s f(1) by auto
    show "(case rd_set (sv_redis S) (w_now w) (name key) v True RESERVATION_TTL_SECONDS (w_redis w) of (b, r) \<Rightarrow> (b, w\<lparr>w_redis := r\<rparr>)) = (Inl e, w') \<Longrightarrow>
        ?B w'" for e using k s f(1) by auto
  qed
  have red: "triple ?B (redis_set S (name key) v True RESERVATION_TTL_SECONDS) (\<lambda>b w. ?B w \<and> \<not> b) (\<lambda>_. ?B)" for v
    unfolding redis_set_def by (rule triple_awaiting [OF st set]) (use st in \<open>auto simp: env_stable_def\<close>)
  show ?thesis
    unfolding reserve_def token_hex_def
    by (rule triple_bindM [OF outer_prims(1) [OF blocked_outer]], rule triple_bindM [OF red], rule triple_ret) simp
qed

section \<open>Nothing reaches the provider\<close>

text \<open>What may come out: no request, and no success but a replay.\<close>

definition replayed :: "(string \<Rightarrow> json) \<Rightarrow> (string \<Rightarrow> bool) \<Rightarrow> json \<Rightarrow> bool" where
  "replayed fl V j \<longleftrightarrow> (\<exists>v. V v \<and> \<not> prefix PENDING_MARKER v \<and> loads fl v = Some j)"

definition held_back :: "('r, 'x) services \<Rightarrow> (string \<Rightarrow> bool) \<Rightarrow> event list \<Rightarrow> invoke_outcome \<Rightarrow> ('r, 'x) world \<Rightarrow> bool" where
  "held_back S V t0 o' w \<longleftrightarrow> emits (\<lambda>e. \<not> is_http e) t0 w \<and>
     (io_status o' = ''success'' \<longrightarrow> io_from_cache o' \<and> replayed (sv_float S) V (io_result o'))"

abbreviation calm :: "event list \<Rightarrow> exn \<Rightarrow> ('r, 'x) world \<Rightarrow> bool" where
  "calm t0 \<equiv> \<lambda>_. emits (\<lambda>e. \<not> is_http e) t0"

lemma blocked_calm: "blocked S h tn k key V t0 w \<Longrightarrow> calm t0 e w"
  by (simp add: blocked_def)

lemma held_back_core: "core (held_back S V t0 o')"
  by (simp add: core_def held_back_def emits_def)

lemma blocked_outcome:
  "st \<noteq> ''success'' \<or> c \<and> replayed (sv_float S) V res \<Longrightarrow> triple (blocked S h tn k key V t0) (outcome st res err reason start c) (held_back S V t0) (calm t0)"
  by (rule triple_outcome) (auto simp: held_back_def blocked_def)

lemma blocked_keep: "keeps (blocked S h tn k key V t0) m \<Longrightarrow> triple (blocked S h tn k key V t0) m (\<lambda>_. blocked S h tn k key V t0) (calm t0)"
  by (rule keeps_weaken) (simp_all add: blocked_def)

text \<open>A read gives what is stored.\<close>

lemma blocked_get:
  assumes "env_stable S (key_taken S h tn k key V)"
  shows "triple (blocked S h tn k key V t0) (idem_get S key)
    (\<lambda>j w. blocked S h tn k key V t0 w \<and> replayed (sv_float S) V j) (\<lambda>_. blocked S h tn k key V t0)"
proof -
  let ?B = "blocked S h tn k key V t0"
  note st = blocked_stable [OF assms]
  have get: "triple ?B (redis_get S (name key)) (\<lambda>v w. ?B w \<and> (\<exists>x. v = Some x \<and> V x)) (\<lambda>_. ?B)"
    unfolding redis_get_def
    by (rule triple_awaiting [OF st])
      (use st in \<open>auto simp: triple_def blocked_def key_taken_def env_stable_def\<close>)
  show ?thesis
    unfolding idem_get_def
    by (rule triple_bindM [OF get]) (auto simp: triple_def replayed_def split: option.splits)
qed

lemma blocked_idempotency:
  assumes "redis_server (sv_redis S)" and "env_stable S (key_taken S h tn k (full_key g tn k) V)" and "cf_idempotency cf = Some window"
  shows "triple (blocked S h tn k (full_key g tn k) V t0) (with_idempotency S cf g tn (Some k) start m) (held_back S V t0) (calm t0)"
proof -
  let ?B = "blocked S h tn k (full_key g tn k) V t0"
  have get: "triple ?B (tryM (idem_get S (full_key g tn k)))
      (\<lambda>r w. ?B w \<and> (case r of Inl e \<Rightarrow> True | Inr j \<Rightarrow> replayed (sv_float S) V j)) (calm t0)"
    by (rule triple_conseq [OF triple_tryM [OF blocked_get [OF assms(2)]]]) (auto split: sum.splits)
  have res: "triple ?B (reserve S (full_key g tn k)) (\<lambda>r w. ?B w \<and> r = None) (calm t0)"
    by (rule triple_conseq [OF blocked_reserve [OF assms(1,2)]]) (auto simp: blocked_calm)
  have none: "triple (\<lambda>w. ?B w \<and> r = None) (case r of
        None \<Rightarrow> denied ''concurrent call with same idempotency key'' ''idempotency_conflict'' start
      | Some owner \<Rightarrow> finish_idempotent S window (full_key g tn k) owner m) (held_back S V t0) (calm t0)" for r
    by (rule triple_fact) (simp add: blocked_outcome)
  show ?thesis
    unfolding with_idempotency_def assms(3) option.case prod.case Let_def
    by (rule triple_bindM [OF get], rule triple_case_sum; rule triple_fact)
      (intro triple_if blocked_outcome triple_raise triple_bindM [OF res] none; simp add: blocked_calm)+
qed

lemma blocked_resolved:
  assumes "redis_server (sv_redis S)" and "env_stable S (key_taken S h tn k (full_key g tn k) V)" and "cf_idempotency cf = Some window"
  shows "triple (blocked S h tn k (full_key g tn k) V t0) (invoke_resolved S cf g h' tn args (Some k) fast start) (held_back S V t0) (calm t0)"
  unfolding invoke_resolved_def
  by (intro triple_if triple_case_sum blocked_outcome blocked_idempotency [OF assms] triple_bindM [OF blocked_keep [OF keeps_pure(3)]]
      triple_bindM [OF blocked_keep [OF triple_if [OF blocked_check [OF assms(1,2)] triple_ret]]]
      triple_bindM [OF blocked_keep [OF outer_prims(2) [OF blocked_outer]]]) simp_all

lemma blocked_grant:
  assumes "redis_server (sv_redis S)" and "env_stable S (key_taken S h tn k (full_key g tn k) V)" and "cf_idempotency cf = Some window"
  shows "triple (blocked S h tn k (full_key g tn k) V t0) (invoke_grant S cf g h' tn args (Some k) fast start) (held_back S V t0) (calm t0)"
proof -
  have recover: "triple (calm t0 e) (if is_Exception e then bindM (rollback S) (\<lambda>_. failed ''internal error during tool invocation'' start)
      else raise e) (held_back S V t0) (calm t0)" for e
    by (intro triple_if triple_bindM [OF keeps_rollback] triple_raise triple_outcome) (auto simp: held_back_def emits_stable emits_core)
  have rec: "triple (held_back S V t0 o') (record_call S gid tn args st lat) (\<lambda>_. held_back S V t0 o') (calm t0)" for o' gid st lat
    using record_call_quietly [of t0 S gid tn args st lat] unfolding held_back_def
    by (fastforce simp: triple_def split: sum.split)
  show ?thesis
    unfolding invoke_grant_def
    by (rule triple_bindM [where R = "held_back S V t0"], rule triple_catchM [OF blocked_resolved [OF assms]], rule recover,
        rule triple_bindM [OF rec], rule triple_ret)
qed

lemma blocked_body:
  assumes "redis_server (sv_redis S)" and "env_stable S (key_taken S h tn k key V)" and "cf_idempotency cf = Some window"
  shows "triple (blocked S h tn k key V t0) (resolve_and_invoke S cf h tn args (Some k) start) (held_back S V t0) (calm t0)"
proof -
  let ?B = "blocked S h tn k key V t0"
  note st = blocked_stable [OF assms(2)]
  have cache: "triple ?B (if cf_grant_cache cf then is_revoked S h else ret False) (\<lambda>_. ?B) (calm t0)"
    unfolding is_revoked_def by (intro blocked_keep wp blocked_redis assms)
  have sel: "triple ?B (select S (\<lambda>db. grants_by_hash db h)) (\<lambda>rows w. ?B w \<and> list_all (\<lambda>g. full_key g tn k = key) rows) (calm t0)"
    by (rule triple_conseq [OF triple_select [OF st]]) (auto simp: blocked_def key_taken_def)
  have row: "triple (\<lambda>w. ?B w \<and> list_all (\<lambda>g. full_key g tn k = key) rows) (case x of
        None \<Rightarrow> denied ''grant not found'' ''not_found'' start
      | Some g \<Rightarrow> invoke_grant S cf g h tn args (Some k) fast start) (held_back S V t0) (calm t0)"
    if "scalar_one_or_none rows = Inr x" for rows x fast
  proof (rule triple_fact)
    assume r: "list_all (\<lambda>g. full_key g tn k = key) rows"
    show "triple ?B (case x of
        None \<Rightarrow> denied ''grant not found'' ''not_found'' start
      | Some g \<Rightarrow> invoke_grant S cf g h tn args (Some k) fast start) (held_back S V t0) (calm t0)"
    proof (cases x)
      case (Some g)
      then have "key = full_key g tn k" using that r by (simp add: scalar_Some)
      then show ?thesis using Some blocked_grant [OF assms(1) _ assms(3), of h tn k g] assms(2) by simp
    qed (simp add: blocked_outcome)
  qed
  show ?thesis
    unfolding resolve_and_invoke_def
    by (rule triple_bindM [OF cache], rule triple_bindM [OF sel], rule triple_lift_bind) (auto simp: blocked_calm intro: row)
qed

lemma blocked_session:
  assumes "triple (blocked S h tn k key V t0) m (held_back S V t0) (calm t0)"
  shows "triple (blocked S h tn k key V t0) (with_session m) (held_back S V t0) (calm t0)"
proof -
  have e: "triple (held_back S V t0 x) end_transaction (\<lambda>_. held_back S V t0 x) (calm t0)"
    "triple (calm t0 y) (bindM end_transaction (\<lambda>_. raise y)) (held_back S V t0) (calm t0)" for x y
    by (auto simp: triple_def end_transaction_def held_back_def emits_def)
  show ?thesis
    unfolding with_session_def
    by (rule triple_bindM [OF blocked_keep [OF outer_prims(3) [OF blocked_outer]]], rule triple_bindM [where R = "held_back S V t0"],
        rule triple_catchM [OF assms], rule e, rule triple_bindM [OF e(1)], rule triple_ret)
qed

text \<open>
  C10: a key that is taken lets no second call through.  As long as the idempotency
  store holds the key of an invocation, by the reservation of a call that is still
  running or by a finished result, another invocation with the key sends no request to
  anyone, neither to the provider nor to the token endpoint, whatever else happens at
  its awaits; and if it reports success, its result is the stored one, read from the store.
  What may be stored meanwhile is \<open>V\<close>: the reservation of the running call and the
  result it will write, or any narrower set.
\<close>

theorem taken_key_blocks_call:
  assumes "redis_server (sv_redis S)" and "cf_idempotency cf = Some window"
    and "env_stable S (key_taken S (hash_token S token) tn k key V)" and "key_taken S (hash_token S token) tn k key V w"
    and "invoke S cf token tn args (Some k) w = (r, w')"
  shows "\<exists>evs. w_trace w' = w_trace w @ evs \<and> list_all (\<lambda>e. \<not> is_http e) evs \<and>
    (case r of
       Inr o' \<Rightarrow> io_status o' = ''success'' \<longrightarrow>
         io_from_cache o' \<and> (\<exists>v. V v \<and> \<not> prefix PENDING_MARKER v \<and> loads (sv_float S) v = Some (io_result o'))
     | Inl e \<Rightarrow> True)"
proof -
  let ?h = "hash_token S token"
  have t: "triple (blocked S ?h tn k key V (w_trace w)) (invoke S cf token tn args (Some k)) (held_back S V (w_trace w)) (calm (w_trace w))"
    unfolding invoke_def Let_def
    by (rule triple_bindM [OF blocked_keep [OF keeps_pure(2)]], rule triple_bindM [OF blocked_keep], rule keeps_tryM, rule wp)
      (intro triple_case_sum triple_if blocked_outcome triple_raise blocked_session blocked_body [OF assms(1,3,2)]; simp add: blocked_calm)
  have "blocked S ?h tn k key V (w_trace w) w" using assms(4) by (simp add: blocked_def emits_def)
  from tripleD_Inr [OF t this] tripleD_Inl [OF t this] assms(5) show ?thesis
    by (cases r) (auto simp: held_back_def emits_def replayed_def)
qed


definition taken_start :: "(memory, nat) world" where
  "taken_start = sample_live\<lparr>w_redis := (\<lambda>_. None)(name (full_key sample_grant ''drive.read'' ''k1'') \<mapsto> (pending_value ''other'', None))\<rparr>"

theorem taken_key_blocks_call_witness:
  "list_all (\<lambda>e. \<not> is_http e)
     (w_trace (snd (invoke sample_services idempotent_config sample_token ''drive.read'' [] (Some ''k1'') taken_start))) \<and>
   (case fst (invoke sample_services idempotent_config sample_token ''drive.read'' [] (Some ''k1'') taken_start) of
      Inr o' \<Rightarrow> io_status o' \<noteq> ''success''
    | Inl e \<Rightarrow> True) \<and>
   grants_by_hash (w_db taken_start) (hash_token sample_services sample_token) = [sample_grant]"
proof -
  let ?run = "invoke sample_services idempotent_config sample_token ''drive.read'' [] (Some ''k1'') taken_start"
  let ?V = "\<lambda>v. v = pending_value ''other''"
  let ?key = "full_key sample_grant ''drive.read'' ''k1''"
  have g: "grants_by_hash (w_db taken_start) (hash_token sample_services sample_token) = [sample_grant]"
    by (simp add: taken_start_def sample_live_def sample_grant_def new_grant_def grants_by_hash_def)
  then have t: "key_taken sample_services (hash_token sample_services sample_token) ''drive.read'' ''k1'' ?key ?V taken_start"
    by (simp add: key_taken_def) (simp add: taken_start_def mem_redis_def mem_get_def)
  have n: "prefix PENDING_MARKER (pending_value ''other'')" by (simp add: pending_value_def)
  have w: "w_trace taken_start = []" by (simp add: taken_start_def sample_live_def)
  have "\<exists>evs. w_trace (snd ?run) = w_trace taken_start @ evs \<and> list_all (\<lambda>e. \<not> is_http e) evs \<and>
    (case fst ?run of
       Inr o' \<Rightarrow> io_status o' = ''success'' \<longrightarrow>
         io_from_cache o' \<and> (\<exists>v. ?V v \<and> \<not> prefix PENDING_MARKER v \<and> loads (sv_float sample_services) v = Some (io_result o'))
     | Inl e \<Rightarrow> True)"
    by (rule taken_key_blocks_call [OF _ _ quiet_stable [OF sample_quiet] t, where window = 3600]) (simp_all add: idempotent_config_def)
  then show ?thesis using g n w by (auto split: sum.splits)
qed

end
