(* ===== verification/Cb_Servicer.thy ===== *)
theory Cb_Servicer
  imports Cb_Invoke_Results
begin

text \<open>
  The gRPC servicer (\<open>credbroker/grpcserver/servicer.py\<close>): the error guard, the
  three RPCs, and what reaches an agent when one of them fails.

  The messages are records with the fields of \<open>credbroker.proto\<close>.  The conversion
  between a \<open>Struct\<close> message and a Python dict belongs to the protobuf library and
  is the parameter \<open>J\<close>; \<open>context.abort\<close> ends the RPC with its code and detail by
  raising \<open>AbortError\<close>.
\<close>

section \<open>Messages\<close>

record grant_request =
  rq_agent_id :: string
  rq_tool_name :: string
  rq_requested_scope :: string

record grant_response =
  rp_grant_token :: string
  rp_expires_at :: "int \<times> int"
  rp_grant_id :: string

record 'm invoke_request =
  iq_grant_token :: string
  iq_tool_name :: string
  iq_arguments :: 'm
  iq_idempotency_key :: string

record 'm invoke_response =
  ip_result :: 'm
  ip_status :: string

record 'm json_format =
  message_to_dict :: "'m \<Rightarrow> exn + dict"
  parse_dict :: "json \<Rightarrow> exn + 'm"

text \<open>What the source relies on: a value that does not fit a \<open>Struct\<close> is a \<open>ParseError\<close>.\<close>

definition raises_parse_errors :: "'m json_format \<Rightarrow> bool" where
  "raises_parse_errors J \<longleftrightarrow> (\<forall>v e. parse_dict J v = Inl e \<longrightarrow> (\<exists>msg. e = OtherException ''ParseError'' msg))"

text \<open>\<open>Timestamp.FromDatetime\<close>: whole seconds and nanoseconds.\<close>

definition from_datetime :: "datetime \<Rightarrow> int \<times> int" where
  "from_datetime d = (instant d div 1000000, instant d mod 1000000 * 1000)"

section \<open>Errors on the wire\<close>

fun grant_error_code :: "error_class \<Rightarrow> grpc_code option" where
  "grant_error_code UnknownAgentError = Some NOT_FOUND"
| "grant_error_code UnknownToolError = Some NOT_FOUND"
| "grant_error_code PolicyDeniedError = Some PERMISSION_DENIED"
| "grant_error_code GrantScopeMismatchError = Some PERMISSION_DENIED"
| "grant_error_code NoConnectedAccountError = Some FAILED_PRECONDITION"
| "grant_error_code ConcurrencyLimitError = Some RESOURCE_EXHAUSTED"
| "grant_error_code RateLimitedError = Some RESOURCE_EXHAUSTED"
| "grant_error_code _ = None"

definition abort :: "grpc_code \<Rightarrow> string \<Rightarrow> ('r, 'x, 'a) io" where
  "abort c detail = raise (AbortError c detail)"

fun is_AbortError :: "exn \<Rightarrow> bool" where
  "is_AbortError (AbortError _ _) = True"
| "is_AbortError _ = False"

definition rpc_error_guard :: "('r, 'x, 'a) io \<Rightarrow> ('r, 'x, 'a) io" where
  "rpc_error_guard m = catchM m (\<lambda>e.
     if is_AbortError e then raise e
     else if is_Exception e then abort INTERNAL ''internal error''
     else raise e)"

definition parse_uuid :: "string \<Rightarrow> string \<Rightarrow> ('r, 'x, uuid) io" where
  "parse_uuid raw field =
     (case uuid_parse raw of
        Some u \<Rightarrow> ret u
      | None \<Rightarrow> abort INVALID_ARGUMENT (field @ '' must be a valid UUID''))"

section \<open>The RPCs\<close>

definition grant_denied :: "exn \<Rightarrow> ('r, 'x, 'a) io" where
  "grant_denied e =
     (case broker_class e of
        Some c \<Rightarrow>
          (case grant_error_code c of
             Some status \<Rightarrow> bindM (inc (GRANT_DENIALS (class_name c))) (\<lambda>_. abort status (exn_str e))
           | None \<Rightarrow> raise e)
      | None \<Rightarrow> raise e)"

definition RequestGrant :: "('r, 'x) services \<Rightarrow> config \<Rightarrow> grant_request \<Rightarrow> ('r, 'x, grant_response) io" where
  "RequestGrant S cf request = rpc_error_guard
     (bindM (parse_uuid (rq_agent_id request) ''agent_id'') (\<lambda>agent_id.
      bindM (catchM (with_session (request_grant S cf agent_id (rq_tool_name request) (rq_requested_scope request))) grant_denied)
        (\<lambda>(token, g).
      bindM (inc (GRANTS_ISSUED (gr_tool_name g) (gr_scope g))) (\<lambda>_.
      ret \<lparr>rp_grant_token = token, rp_expires_at = from_datetime (the (ensure_aware (Some (gr_expires_at g)))),
           rp_grant_id = uuid_str (gr_id g)\<rparr>))))"

text \<open>Only names of registered tools become metric labels.\<close>

definition tool_label :: "config \<Rightarrow> string \<Rightarrow> string" where
  "tool_label cf tool_name = (if dict_get (cf_tools cf) tool_name \<noteq> None then tool_name else ''unknown'')"

definition or_text :: "string option \<Rightarrow> string \<Rightarrow> string" where
  "or_text err dflt = (case err of Some e \<Rightarrow> if e = [] then dflt else e | None \<Rightarrow> dflt)"

definition InvokeTool :: "('r, 'x) services \<Rightarrow> config \<Rightarrow> 'm json_format \<Rightarrow> 'm invoke_request
    \<Rightarrow> ('r, 'x, 'm invoke_response) io" where
  "InvokeTool S cf J request = rpc_error_guard
     (bindM (liftE (message_to_dict J (iq_arguments request))) (\<lambda>arguments.
      bindM (invoke S cf (iq_grant_token request) (iq_tool_name request) arguments
               (if iq_idempotency_key request = [] then None else Some (iq_idempotency_key request))) (\<lambda>o'.
      let label = tool_label cf (iq_tool_name request) in
      bindM (inc (INVOCATIONS label (io_status o'))) (\<lambda>_.
      if io_status o' = ''denied'' then
        abort (if io_denied_reason o' = Some ''rate_limited'' then RESOURCE_EXHAUSTED else PERMISSION_DENIED)
          (or_text (io_error o') ''invocation denied'')
      else if io_status o' = ''failed'' then abort UNAVAILABLE (or_text (io_error o') ''tool call failed'')
      else
        bindM (observe_latency label (real_of_int (io_latency_ms o') / 1000)) (\<lambda>_.
        bindM (liftE (parse_dict J (if json_truthy (io_result o') then io_result o' else JObj []))) (\<lambda>result.
        ret \<lparr>ip_result = result, ip_status = io_status o'\<rparr>))))))"

definition RevokeGrant :: "('r, 'x) services \<Rightarrow> config \<Rightarrow> string \<Rightarrow> ('r, 'x, bool) io" where
  "RevokeGrant S cf request_grant_id = rpc_error_guard
     (bindM (parse_uuid request_grant_id ''grant_id'') (\<lambda>grant_id.
      bindM (catchM (with_session (revoke_grant S cf grant_id)) (\<lambda>e.
        if broker_class e = Some GrantNotFoundError then abort NOT_FOUND (exn_str e) else raise e)) (\<lambda>_.
      bindM (inc GRANTS_REVOKED) (\<lambda>_.
      ret True))))"

section \<open>What an agent sees of a failure\<close>

lemma guard_wire: "rpc_error_guard m w = (Inl e, w') \<Longrightarrow> is_AbortError e = is_Exception e"
  by (cases e) (auto simp: rpc_error_guard_def catchM_def abort_def split: prod.splits sum.splits if_splits)

lemma guard_status: "case fst (rpc_error_guard m w) of Inr _ \<Rightarrow> True | Inl e \<Rightarrow> is_AbortError e = is_Exception e"
  using guard_wire [of m w] by (cases "rpc_error_guard m w") (auto split: sum.split)

lemma guard_Inr [simp]: "m w = (Inr x, w') \<Longrightarrow> rpc_error_guard m w = (Inr x, w')"
  by (simp add: rpc_error_guard_def)

lemma guard_abort [simp]: "m w = (Inl (AbortError c d), w') \<Longrightarrow> rpc_error_guard m w = (Inl (AbortError c d), w')"
  by (simp add: rpc_error_guard_def)

lemma guard_other [simp]:
  "m w = (Inl e, w') \<Longrightarrow> is_Exception e \<Longrightarrow> \<not> is_AbortError e \<Longrightarrow>
   rpc_error_guard m w = (Inl (AbortError INTERNAL ''internal error''), w')"
  by (simp add: rpc_error_guard_def abort_def)

lemma grant_denied_run:
  "grant_denied e w =
     (case Option.bind (broker_class e) (\<lambda>c. map_option (Pair c) (grant_error_code c)) of
        Some (c, status) \<Rightarrow>
          (Inl (AbortError status (exn_str e)),
           w\<lparr>w_metrics := (w_metrics w)(GRANT_DENIALS (class_name c) := w_metrics w (GRANT_DENIALS (class_name c)) + 1)\<rparr>)
      | None \<Rightarrow> (Inl e, w))"
  by (simp add: grant_denied_def inc_def abort_def bindM_def split: option.split)

text \<open>
  C33: no exception of the broker escapes an RPC.  Whatever the request and whatever
  fails underneath, an RPC that does not return ends in a deliberate abort, with a
  status code and a detail, or is cancelled; the default handler, which would put
  the text of the exception on the wire, never sees one.
\<close>

theorem rpc_failures_are_statuses:
  "(case fst (RequestGrant S cf rq w) of Inr _ \<Rightarrow> True | Inl e \<Rightarrow> is_AbortError e = is_Exception e) \<and>
   (case fst (InvokeTool S cf J iq w) of Inr _ \<Rightarrow> True | Inl e \<Rightarrow> is_AbortError e = is_Exception e) \<and>
   (case fst (RevokeGrant S cf gid w) of Inr _ \<Rightarrow> True | Inl e \<Rightarrow> is_AbortError e = is_Exception e)"
  unfolding RequestGrant_def InvokeTool_def RevokeGrant_def by (intro conjI guard_status)

text \<open>
  A refused grant request is answered with the status of its error.  The
  domain errors of issuing map to \<open>NOT_FOUND\<close>, \<open>PERMISSION_DENIED\<close>,
  \<open>FAILED_PRECONDITION\<close> or \<open>RESOURCE_EXHAUSTED\<close> with their message, and count as
  one denial; any other exception is an \<open>INTERNAL\<close> error with a fixed detail, and
  nothing else changes.
\<close>

theorem grant_denial_status:
  assumes "uuid_parse (rq_agent_id rq) = Some agent_id"
    and "with_session (request_grant S cf agent_id (rq_tool_name rq) (rq_requested_scope rq)) w = (Inl e, w')"
    and "is_Exception e" and "\<not> is_AbortError e"
  shows "RequestGrant S cf rq w =
    (case Option.bind (broker_class e) (\<lambda>c. map_option (Pair c) (grant_error_code c)) of
       Some (c, status) \<Rightarrow>
         (Inl (AbortError status (exn_str e)),
          w'\<lparr>w_metrics := (w_metrics w')(GRANT_DENIALS (class_name c) := w_metrics w' (GRANT_DENIALS (class_name c)) + 1)\<rparr>)
     | None \<Rightarrow> (Inl (AbortError INTERNAL ''internal error''), w'))"
  using assms
  by (simp add: RequestGrant_def parse_uuid_def rpc_error_guard_def bindM_def catchM_def grant_denied_run abort_def split: option.split)

text \<open>
  No registered credential reaches an agent through an aborted invocation.  The
  detail of the abort is a fixed text or contains none of the secrets known to the
  redaction registry when the invocation ends.
\<close>

theorem aborted_invocation_hides_secrets:
  assumes "quiet S" and "raises_parse_errors J" and "message_to_dict J (iq_arguments rq) = Inr args"
    and "fst (invoke S cf (iq_grant_token rq) (iq_tool_name rq) args
           (if iq_idempotency_key rq = [] then None else Some (iq_idempotency_key rq)) w) = Inr o'"
    and "InvokeTool S cf J rq w = (Inl (AbortError c d), w')"
    and "\<forall>s \<in> set (w_secrets w'). scrubbable s" and "s \<in> set (w_secrets w')"
    and "d \<notin> {''internal error'', ''invocation denied'', ''tool call failed''}"
  shows "\<not> sublist s d"
proof -
  let ?k = "if iq_idempotency_key rq = [] then None else Some (iq_idempotency_key rq)"
  obtain w1 where i: "invoke S cf (iq_grant_token rq) (iq_tool_name rq) args ?k w = (Inr o', w1)"
    using assms(4) by (metis fst_conv surj_pair)
  have "clean o' (w_secrets w1)" using tripleD_Inr [OF scrubbed_invoke [OF assms(1)] _ i] by simp
  moreover have "w_secrets w' = w_secrets w1 \<and> io_error o' = Some d"
    using assms(2,3,5,8) i
    by (auto simp: raises_parse_errors_def InvokeTool_def rpc_error_guard_def bindM_def catchM_def abort_def inc_def observe_latency_def Let_def or_text_def split: if_splits option.splits sum.splits)
  ultimately obtain msg where "d = scrub_with (w_secrets w') msg" by (auto simp: clean_def)
  then show ?thesis using scrub_with_absent [of s "w_secrets w'" msg] assms(6,7) by blast
qed

section \<open>Concrete runs\<close>

definition sample_format :: "dict json_format" where
  "sample_format = \<lparr>message_to_dict = Inr,
     parse_dict = (\<lambda>v. case v of JObj d \<Rightarrow> Inr d | _ \<Rightarrow> Inl (OtherException ''ParseError'' ''not an object''))\<rparr>"

lemma sample_format_laws [simp]: "raises_parse_errors sample_format" "message_to_dict sample_format d = Inr d"
  by (auto simp: raises_parse_errors_def sample_format_def split: json.splits)

theorem grant_denial_status_witness:
  "fst (RequestGrant sample_services sample_config
     \<lparr>rq_agent_id = uuid_str 4, rq_tool_name = ''drive.read'', rq_requested_scope = ''read''\<rparr> sample_world) =
   Inl (AbortError NOT_FOUND (''unknown agent: '' @ uuid_str 4))"
proof -
  let ?rq = "\<lparr>rq_agent_id = uuid_str 4, rq_tool_name = ''drive.read'', rq_requested_scope = ''read''\<rparr>"
  have "with_session (request_grant sample_services sample_config 4 ''drive.read'' ''read'') sample_world =
      (Inl (broker_error UnknownAgentError (''unknown agent: '' @ uuid_str 4)), sample_world)"
    by (simp add: with_session_def end_transaction_def request_grant_def grant_rate_limit_def get_for_update_quiet bindM_def
        catchM_def get_agent_def empty_db_def sample_world_def fresh_world_def)
  then show ?thesis
    using grant_denial_status [of ?rq 4 sample_services sample_config sample_world] by simp
qed

theorem aborted_invocation_hides_secrets_witness:
  "\<exists>c d. fst (InvokeTool sample_services sample_config sample_format
      \<lparr>iq_grant_token = ''forged'', iq_tool_name = ''drive.read'', iq_arguments = [], iq_idempotency_key = []\<rparr>
      (sample_live\<lparr>w_secrets := [''ya29.secret-token'']\<rparr>)) = Inl (AbortError c d) \<and>
    \<not> sublist ''ya29.secret-token'' d"
proof -
  let ?w = "sample_live\<lparr>w_secrets := [''ya29.secret-token'']\<rparr>"
  let ?rq = "\<lparr>iq_grant_token = ''forged'', iq_tool_name = ''drive.read'', iq_arguments = [], iq_idempotency_key = []\<rparr>"
  let ?m = "''grant token is invalid''"
  obtain o' where i: "invoke sample_services sample_config ''forged'' ''drive.read'' [] None ?w = (Inr o', ?w)"
    and d: "io_status o' = ''denied''" "io_error o' = Some (scrub_with [''ya29.secret-token''] ?m)"
    by (simp add: invoke_def monotonic_def tryM_def bindM_def verify_run verify_at_def sample_jwt_decode_def outcome_run)
  have "\<not> sublist ''ya29.secret-token'' ?m" by (auto dest: set_mono_sublist)
  then have m: "scrub_with [''ya29.secret-token''] ?m = ?m" by (simp add: scrub_with_clean)
  obtain c w' where r: "InvokeTool sample_services sample_config sample_format ?rq ?w = (Inl (AbortError c ?m), w')"
    and w: "w_secrets w' = [''ya29.secret-token'']"
    using i d m by (simp add: InvokeTool_def bindM_def abort_def Let_def or_text_def rpc_error_guard_def catchM_def inc_def)
  have "\<not> sublist ''ya29.secret-token'' ?m"
    by (rule aborted_invocation_hides_secrets [OF sample_quiet sample_format_laws(1) _ _ r, of "[]" o'])
      (use i w in \<open>simp_all add: scrubbable_def MIN_SECRET_LEN_def\<close>)
  then show ?thesis using r by (metis fst_conv)
qed

end
