(* ===== verification/Cb_OAuth_State.thy ===== *)
theory Cb_OAuth_State
  imports Cb_Sample Cb_Values Py_Base64
begin

text \<open>
  The signed \<open>state\<close> parameter of the OAuth flow (\<open>credbroker/oauth/state.py\<close>):
  minting, verification, and the theorems that a minted state verifies to the user
  it was minted for until it expires, that nothing but a correctly signed unexpired
  payload verifies, and that every rejection is an \<open>OAuthFlowError\<close>.
\<close>

section \<open>Minting and verifying\<close>

definition STATE_NONCE_BYTES :: nat where
  "STATE_NONCE_BYTES = 16"

text \<open>\<open>f"{user_id}|{expiry}|{nonce}"\<close>, the text that is signed.\<close>

definition state_payload :: "string \<Rightarrow> string \<Rightarrow> string \<Rightarrow> string" where
  "state_payload user_id expiry nonce = user_id @ ''|'' @ expiry @ ''|'' @ nonce"

definition sign :: "('r, 'x) services \<Rightarrow> string \<Rightarrow> string \<Rightarrow> string" where
  "sign S secret payload = sv_hmac_hex S secret payload"

definition make_state :: "('r, 'x) services \<Rightarrow> settings \<Rightarrow> string \<Rightarrow> ('r, 'x, string) io" where
  "make_state S st user_id =
     (if CHR ''|'' \<in> set user_id then raise (ValueError (''user_id must not contain '' @ [CHR 0x27, CHR ''|'', CHR 0x27]))
      else
        bindM time_time (\<lambda>now.
        bindM (token_hex S STATE_NONCE_BYTES) (\<lambda>nonce.
          let expiry_epoch = epoch_seconds (Aware now) + oauth_state_ttl_seconds st;
              payload = state_payload user_id (py_str_int expiry_epoch) nonce;
              signed = payload @ ''|'' @ sign S (oauth_state_secret st) payload in
          ret (urlsafe_b64encode signed))))"

abbreviation malformed_state :: exn where
  "malformed_state \<equiv> broker_error OAuthFlowError ''malformed oauth state''"

text \<open>The four parts of a state, signature checked.\<close>

definition checked_parts :: "('r, 'x) services \<Rightarrow> settings \<Rightarrow> string \<Rightarrow> exn + string \<times> string" where
  "checked_parts S st state =
     (case Option.bind (urlsafe_b64decode state) utf8_decode of
        None \<Rightarrow> Inl malformed_state
      | Some decoded \<Rightarrow>
          (case py_split (CHR ''|'') decoded of
             [user_id, expiry_str, nonce, signature] \<Rightarrow>
               if signature \<noteq> sign S (oauth_state_secret st) (state_payload user_id expiry_str nonce)
               then Inl (broker_error OAuthFlowError ''oauth state signature mismatch'')
               else Inr (user_id, expiry_str)
           | _ \<Rightarrow> Inl malformed_state))"

definition verify_state :: "('r, 'x) services \<Rightarrow> settings \<Rightarrow> string \<Rightarrow> ('r, 'x, string) io" where
  "verify_state S st state =
     bindM (liftE (checked_parts S st state)) (\<lambda>(user_id, expiry_str).
       case py_int expiry_str of
         None \<Rightarrow> raise malformed_state
       | Some expiry_epoch \<Rightarrow>
           bindM time_time (\<lambda>now.
           if now > expiry_epoch * 1000000 then raise (broker_error OAuthFlowError ''oauth state expired'')
           else ret user_id))"

section \<open>Splitting and joining the parts\<close>

text \<open>A UTF-8 text followed by another is UTF-8.\<close>

lemma utf8_ok_append: "utf8_ok xs \<Longrightarrow> utf8_ok ys \<Longrightarrow> utf8_ok (xs @ ys)"
  by (induction xs rule: utf8_ok.induct) (auto split: if_splits list.splits)

lemma utf8_decode_append: "utf8_decode a = Some a \<Longrightarrow> is_ascii b \<Longrightarrow> utf8_decode (a @ b) = Some (a @ b)"
  using utf8_decode_ascii [of b] by (simp add: utf8_decode_def utf8_ok_append split: if_splits)

lemma py_split_join: "hd (py_split sep s) @ concat (map (\<lambda>p. sep # p) (tl (py_split sep s))) = s"
proof (induction s)
  case (Cons c cs)
  obtain p ps where "py_split sep cs = p # ps" by (cases "py_split sep cs") auto
  then show ?case using Cons by auto
qed simp

lemma py_split_parts: "p \<in> set (py_split sep s) \<Longrightarrow> sep \<notin> set p"
proof (induction s arbitrary: p)
  case (Cons c cs)
  obtain q qs where "py_split sep cs = q # qs" by (cases "py_split sep cs") auto
  then show ?case using Cons by (auto split: if_splits)
qed simp

lemma py_split_four:
  "py_split sep s = [a, b, c, d] \<longleftrightarrow>
     s = a @ sep # b @ sep # c @ sep # d \<and> sep \<notin> set a \<union> set b \<union> set c \<union> set d"
proof
  assume "py_split sep s = [a, b, c, d]"
  then show "s = a @ sep # b @ sep # c @ sep # d \<and> sep \<notin> set a \<union> set b \<union> set c \<union> set d"
    using py_split_join [of sep s] py_split_parts [of _ sep s] by auto
qed (simp add: py_split_append_sep py_split_no_sep)

text \<open>What the source relies on: digests and nonces are hexadecimal text.\<close>

definition hexadecimal :: "string \<Rightarrow> bool" where
  "hexadecimal s \<longleftrightarrow> (\<forall>c \<in> set s. 48 \<le> code c \<and> code c \<le> 57 \<or> 97 \<le> code c \<and> code c \<le> 102)"

definition hex_service :: "('r, 'x) services \<Rightarrow> bool" where
  "hex_service S \<longleftrightarrow> (\<forall>k m. hexadecimal (sv_hmac_hex S k m)) \<and> (\<forall>n x. hexadecimal (fst (sv_token_hex S n x)))"

lemma hexadecimal_plain: "hexadecimal s \<Longrightarrow> CHR ''|'' \<notin> set s \<and> is_ascii s"
  by (fastforce simp: hexadecimal_def is_ascii_def)

lemma py_str_int_plain: "CHR ''|'' \<notin> set (py_str_int i) \<and> is_ascii (py_str_int i)"
  using py_str_int_chars [of _ i] by (fastforce simp: is_ascii_def)

lemma is_ascii_simps: "is_ascii (a @ b) \<longleftrightarrow> is_ascii a \<and> is_ascii b" "is_ascii (c # b) \<longleftrightarrow> code c < 128 \<and> is_ascii b"
  by (auto simp: is_ascii_def)

lemma sample_hex_service [simp]: "hex_service sample_services"
proof -
  have "hexadecimal (hex_fixed k n)" for k n
    using hex_fixed_chars [of _ k n] by (auto simp: hexadecimal_def)
  moreover from this have "hexadecimal (hex_bytes b)" for b
    by (auto simp: hexadecimal_def hex_bytes_def)
  ultimately show ?thesis by (simp add: hex_service_def)
qed

section \<open>What verification accepts\<close>

lemma split_signed:
  assumes "hexadecimal d"
  shows "py_split (CHR ''|'') s = [u, e, n, d] \<longleftrightarrow>
    s = state_payload u e n @ ''|'' @ d \<and> CHR ''|'' \<notin> set u \<union> set e \<union> set n"
  using hexadecimal_plain [OF assms] by (auto simp: py_split_four state_payload_def)

lemma checked_parts_iff:
  assumes "hex_service S"
  shows "checked_parts S st state = Inr (u, e) \<longleftrightarrow>
    (\<exists>n. let p = state_payload u e n; t = p @ ''|'' @ sign S (oauth_state_secret st) p in
       urlsafe_b64decode state = Some t \<and> utf8_decode t = Some t \<and> CHR ''|'' \<notin> set u \<union> set e \<union> set n)"
proof -
  have h: "hexadecimal (sign S k m)" for k m using assms by (simp add: hex_service_def sign_def)
  have "checked_parts S st state = Inr (u, e) \<longleftrightarrow>
    (\<exists>t n. urlsafe_b64decode state = Some t \<and> utf8_decode t = Some t \<and>
       py_split (CHR ''|'') t = [u, e, n, sign S (oauth_state_secret st) (state_payload u e n)])"
    by (auto simp: checked_parts_def utf8_decode_def Option.bind_eq_Some_conv split: option.splits list.splits if_splits)
  then show ?thesis by (auto simp: split_signed [OF h] Let_def)
qed

lemma checked_parts_errors:
  "checked_parts S st state = Inl e \<Longrightarrow>
   e = malformed_state \<or> e = broker_error OAuthFlowError ''oauth state signature mismatch''"
  by (auto simp: checked_parts_def split: option.splits list.splits if_splits)

text \<open>
  C19: the state parameter cannot be tampered with.  Verification returns a user id
  exactly when the parameter decodes to \<open>user|expiry|nonce|signature\<close> with the
  signature computed over the first three parts under the broker's secret, and the
  expiry, which the signature covers, has not passed.  It changes nothing.
\<close>

theorem state_accepted_iff_signed:
  assumes "hex_service S"
  shows "verify_state S st state w = (Inr u, w') \<longleftrightarrow> w' = w \<and>
    (\<exists>expiry nonce i. let p = state_payload u expiry nonce; t = p @ ''|'' @ sign S (oauth_state_secret st) p in
       urlsafe_b64decode state = Some t \<and> utf8_decode t = Some t \<and>
       CHR ''|'' \<notin> set u \<union> set expiry \<union> set nonce \<and>
       py_int expiry = Some i \<and> w_now w \<le> i * 1000000)"
proof -
  have "verify_state S st state w = (Inr u, w') \<longleftrightarrow> w' = w \<and>
    (\<exists>e i. checked_parts S st state = Inr (u, e) \<and> py_int e = Some i \<and> w_now w \<le> i * 1000000)"
    by (auto simp: verify_state_def bindM_def time_time_def not_less split: sum.splits option.splits if_splits)
  then show ?thesis unfolding checked_parts_iff [OF assms] by (auto simp: Let_def)
qed

text \<open>
  Whatever the browser sends as state, verification answers with a user id or
  with one of three fixed \<open>OAuthFlowError\<close> messages, and changes nothing.
\<close>

theorem verify_state_errors:
  "snd (verify_state S st state w) = w \<and>
   fst (verify_state S st state w) \<in> range Inr \<union> Inl ` broker_error OAuthFlowError `
     {''malformed oauth state'', ''oauth state signature mismatch'', ''oauth state expired''}"
  using checked_parts_errors [of S st state]
  by (auto simp: verify_state_def bindM_def time_time_def split: sum.splits option.splits)

lemma minted_state_verifies:
  assumes "hex_service S" and "utf8_decode u = Some u" and "make_state S st u w = (Inr state, w')"
  shows "verify_state S st state v =
    (if w_now v \<le> (epoch_seconds (Aware (w_now w)) + oauth_state_ttl_seconds st) * 1000000 then (Inr u, v)
     else (Inl (broker_error OAuthFlowError ''oauth state expired''), v))"
proof -
  let ?i = "epoch_seconds (Aware (w_now w)) + oauth_state_ttl_seconds st"
  let ?n = "fst (sv_token_hex S STATE_NONCE_BYTES (w_ext w))"
  let ?p = "state_payload u (py_str_int ?i) ?n"
  let ?t = "?p @ ''|'' @ sign S (oauth_state_secret st) ?p"
  have u: "CHR ''|'' \<notin> set u" and s: "state = urlsafe_b64encode ?t"
    using assms(3) by (auto simp: make_state_def bindM_def time_time_def token_hex_def draw_def Let_def split: if_splits prod.splits)
  have h: "hexadecimal ?n" "hexadecimal (sign S (oauth_state_secret st) ?p)"
    using assms(1) by (simp_all add: hex_service_def sign_def)
  have "utf8_decode ?t = Some ?t"
    unfolding state_payload_def append_assoc
    by (rule utf8_decode_append [OF assms(2)])
      (use h hexadecimal_plain py_str_int_plain [of ?i] in \<open>auto simp: is_ascii_simps state_payload_def\<close>)
  then have "checked_parts S st state = Inr (u, py_str_int ?i)"
    unfolding checked_parts_iff [OF assms(1)] s using u h(1) py_str_int_plain [of ?i] hexadecimal_plain
    by (auto simp: Let_def intro!: exI [of _ ?n])
  then show ?thesis by (simp add: verify_state_def bindM_def time_time_def)
qed

text \<open>
  A minted state verifies, in any later state of the broker, to the user it was
  minted for until its lifetime has passed, and is rejected as expired afterwards.
\<close>

theorem state_roundtrip:
  assumes "hex_service S" and "utf8_decode u = Some u" and "make_state S st u w = (Inr state, w')"
  shows "verify_state S st state v =
    (if w_now v \<le> (epoch_seconds (Aware (w_now w)) + oauth_state_ttl_seconds st) * 1000000 then (Inr u, v)
     else (Inl (broker_error OAuthFlowError ''oauth state expired''), v))"
  by (rule minted_state_verifies [OF assms])

lemma sample_state_runs:
  "\<exists>state w'. make_state sample_services default_settings (uuid_str 7) sample_world = (Inr state, w')"
  using uuid_str_no_sep [of 7] by (simp add: make_state_def bindM_def time_time_def token_hex_def draw_def Let_def)

lemma sample_lifetime:
  "(epoch_seconds (Aware (w_now sample_world)) + oauth_state_ttl_seconds default_settings) * 1000000 = 1700000600000000"
  by (simp add: epoch_seconds_def default_settings_def)

theorem state_roundtrip_witness:
  "\<exists>state w'. make_state sample_services default_settings (uuid_str 7) sample_world = (Inr state, w') \<and>
     verify_state sample_services default_settings state sample_world = (Inr (uuid_str 7), sample_world) \<and>
     fst (verify_state sample_services default_settings state (sample_world\<lparr>w_now := 1700000600000001\<rparr>)) =
       Inl (broker_error OAuthFlowError ''oauth state expired'')"
proof -
  obtain state w' where m: "make_state sample_services default_settings (uuid_str 7) sample_world = (Inr state, w')"
    using sample_state_runs by blast
  note r = state_roundtrip [OF sample_hex_service utf8_decode_ascii [OF uuid_str_ascii] m, unfolded sample_lifetime]
  show ?thesis using m r [of sample_world] r [of "sample_world\<lparr>w_now := 1700000600000001\<rparr>"] by simp
qed

text \<open>A state that expires at \<open>9999999999\<close>, signed by hand.\<close>

definition sample_signed :: string where
  "sample_signed = state_payload ''u'' (py_str_int 9999999999) ''n'' @ ''|'' @
     sign sample_services (oauth_state_secret default_settings) (state_payload ''u'' (py_str_int 9999999999) ''n'')"

lemma sample_signed_decodes: "utf8_decode sample_signed = Some sample_signed"
proof (rule utf8_decode_ascii)
  have "is_ascii (sign sample_services k m)" for k m
    using sample_hex_service hexadecimal_plain by (auto simp: sign_def hex_service_def simp del: sample_hex_service sample_sel)
  moreover have "is_ascii (state_payload ''u'' (py_str_int 9999999999) ''n'')"
    using py_str_int_plain by (simp add: state_payload_def is_ascii_simps is_ascii_def [of "[]"])
  moreover have "is_ascii ''|''" by (simp add: is_ascii_def)
  ultimately show "is_ascii sample_signed" unfolding sample_signed_def is_ascii_simps(1) by blast
qed

theorem state_accepted_iff_signed_witness:
  "verify_state sample_services default_settings (urlsafe_b64encode sample_signed) sample_world = (Inr ''u'', sample_world)"
  unfolding state_accepted_iff_signed [OF sample_hex_service]
  by (rule conjI [OF refl], rule exI [of _ "py_str_int 9999999999"], rule exI [of _ "''n''"], rule exI [of _ 9999999999])
    (use sample_signed_decodes in \<open>simp add: Let_def py_str_int_plain sample_signed_def\<close>)

end
