(* ===== verification/Cb_OAuth_Router.thy ===== *)
theory Cb_OAuth_Router
  imports Cb_OAuth_State Cb_Invoke_Results
begin

text \<open>
  The HTTP routes of the connect flow (\<open>credbroker/oauth/router.py\<close>).  A route
  receives the parameters the framework has parsed (a malformed \<open>user_id\<close> never
  reaches \<open>authorize\<close>) and returns its response or raises; \<open>HTTPException\<close> is the
  framework's answer with a status and a detail.
\<close>

section \<open>The routes\<close>

definition PROVIDER :: string where
  "PROVIDER = ''google''"

definition require_google :: "string \<Rightarrow> ('r, 'x, unit) io" where
  "require_google provider =
     (if provider \<noteq> PROVIDER then raise (HTTPException 404 (''unknown provider: '' @ provider)) else ret ())"

text \<open>The redirect: its status and its location.\<close>

definition authorize :: "('r, 'x) services \<Rightarrow> config \<Rightarrow> string \<Rightarrow> uuid \<Rightarrow> ('r, 'x, int \<times> string) io" where
  "authorize S cf provider user_id =
     bindM (require_google provider) (\<lambda>_.
     bindM (make_state S (cf_settings cf) (uuid_str user_id)) (\<lambda>state.
     ret (307, build_authorize_url (cf_settings cf) state)))"

text \<open>\<open>re.fullmatch(r"[a-z_]{1,64}", error)\<close>, or a fixed token.\<close>

definition safe_error :: "string \<Rightarrow> string" where
  "safe_error err =
     (if err \<noteq> [] \<and> length err \<le> 64 \<and> list_all (\<lambda>c. 97 \<le> code c \<and> code c \<le> 122 \<or> c = CHR ''_'') err
      then err else ''unknown_error'')"

definition exchange_for_user :: "('r, 'x) services \<Rightarrow> config \<Rightarrow> string \<Rightarrow> string \<Rightarrow> ('r, 'x, uuid \<times> token_response) io" where
  "exchange_for_user S cf auth_code state =
     catchM
       (bindM (verify_state S (cf_settings cf) state) (\<lambda>u.
        bindM (liftE (json_uuid (JStr u))) (\<lambda>user_id.
        bindM (exchange_code S (cf_settings cf) auth_code) (\<lambda>token.
        ret (user_id, token)))))
       (\<lambda>e.
          if broker_class e = Some OAuthFlowError then raise (HTTPException 400 (exn_str e))
          else if is_ValueError e then raise (HTTPException 400 ''oauth state carries no valid user id'')
          else raise e)"

definition new_account :: "uuid \<Rightarrow> uuid \<Rightarrow> bytes \<Rightarrow> bytes option \<Rightarrow> token_response \<Rightarrow> datetime option \<Rightarrow> datetime
    \<Rightarrow> connected_account" where
  "new_account account_id user_id encrypted_access encrypted_refresh token expires_at now =
     \<lparr>ca_id = account_id, ca_user_id = user_id, ca_provider = PROVIDER,
      ca_encrypted_access_token = encrypted_access, ca_encrypted_refresh_token = encrypted_refresh,
      ca_scopes_granted = tr_scopes token, ca_expires_at = expires_at, ca_created_at = now\<rparr>"

definition store_account :: "('r, 'x) services \<Rightarrow> uuid \<Rightarrow> bytes \<Rightarrow> bytes option \<Rightarrow> token_response \<Rightarrow> datetime option
    \<Rightarrow> ('r, 'x, uuid) io" where
  "store_account S user_id encrypted_access encrypted_refresh token expires_at =
     with_session
       (bindM (flush_row S (\<lambda>account_id. new_account account_id user_id encrypted_access encrypted_refresh token expires_at)
                 insert_account) (\<lambda>account.
        bindM (commit S (insert_account account) []) (\<lambda>_.
        ret (ca_id account))))"

definition connect_account :: "('r, 'x) services \<Rightarrow> config \<Rightarrow> uuid \<Rightarrow> token_response \<Rightarrow> ('r, 'x, json) io" where
  "connect_account S cf user_id token =
     bindM (awaiting S AwaitThread (encrypt S (cf_cipher cf) (tr_access_token token))) (\<lambda>encrypted_access.
     bindM (if json_truthy (tr_refresh_token token)
            then bindM (awaiting S AwaitThread (encrypt_value S (cf_cipher cf) (tr_refresh_token token))) (\<lambda>b. ret (Some b))
            else ret None) (\<lambda>encrypted_refresh.
     bindM (case tr_expires_in token of
              None \<Rightarrow> ret None
            | Some n \<Rightarrow> bindM utcnow (\<lambda>now. bindM (liftE (datetime_add now n)) (\<lambda>t. ret (Some t)))) (\<lambda>expires_at.
     bindM (store_account S user_id encrypted_access encrypted_refresh token expires_at) (\<lambda>account_id.
     bindM (inc (OAUTH_ACCOUNTS_CONNECTED PROVIDER)) (\<lambda>_.
     ret (JObj [(''connected_account_id'', JStr (uuid_str account_id)), (''provider'', JStr PROVIDER),
                (''scopes'', JList (map JStr (tr_scopes token)))]))))))"

definition callback :: "('r, 'x) services \<Rightarrow> config \<Rightarrow> string \<Rightarrow> string option \<Rightarrow> string option \<Rightarrow> string option
    \<Rightarrow> ('r, 'x, json) io" where
  "callback S cf provider auth_code state err =
     bindM (require_google provider) (\<lambda>_.
     case err of
       Some e \<Rightarrow> raise (HTTPException 400 (''provider reported: '' @ safe_error e))
     | None \<Rightarrow>
         (case (auth_code, state) of
            (Some c, Some s) \<Rightarrow>
              bindM (exchange_for_user S cf c s) (\<lambda>(user_id, token). connect_account S cf user_id token)
          | _ \<Rightarrow> raise (HTTPException 422 ''missing code or state parameter'')))"

section \<open>Refused callbacks\<close>

lemma forged_state: "urlsafe_b64decode ''forged'' = None"
  by code_simp

lemma verify_state_run: "verify_state S st s w = (fst (verify_state S st s w), w)"
  by (auto simp: verify_state_def bindM_def time_time_def split: sum.splits option.splits)

lemma verify_state_flow_error: "verify_state S st s w = (Inl e, w') \<Longrightarrow> \<exists>m. e = broker_error OAuthFlowError m"
  by (auto simp: verify_state_def bindM_def time_time_def checked_parts_def
      split: sum.splits option.splits list.splits if_splits)

lemma safe_error_vetted:
  "safe_error e \<in> {e, ''unknown_error''}" "length (safe_error e) \<le> 64"
  "list_all (\<lambda>c. 97 \<le> code c \<and> code c \<le> 122 \<or> c = CHR ''_'') (safe_error e)"
  by (simp_all add: safe_error_def)

lemma exchange_refused:
  assumes "\<And>u. fst (verify_state S (cf_settings cf) s w) = Inr u \<Longrightarrow> uuid_parse u = None"
  shows "exchange_for_user S cf c s w = (Inl (HTTPException 400
    (case fst (verify_state S (cf_settings cf) s w) of Inl e \<Rightarrow> exn_str e | Inr _ \<Rightarrow> ''oauth state carries no valid user id'')), w)"
proof (cases "fst (verify_state S (cf_settings cf) s w)")
  case (Inl e)
  then show ?thesis
    using verify_state_run [of S "cf_settings cf" s w] verify_state_flow_error [of S "cf_settings cf" s w e w]
    by (auto simp: exchange_for_user_def catchM_def bindM_def)
next
  case (Inr u)
  then show ?thesis
    using assms verify_state_run [of S "cf_settings cf" s w]
    by (auto simp: exchange_for_user_def catchM_def bindM_def json_uuid_def)
qed

text \<open>
  C9: what a refused callback is answered with.  A callback for another provider, with
  an error of the provider, without code or state, or whose state does not verify or
  carries no user id, is answered with the HTTP error of the first of these, and the
  world is as before: no code is exchanged and no row is written.  Of an error text the
  caller supplies, only a token of at most 64 lower case letters and underscores is echoed.
\<close>

theorem callback_refuses:
  assumes "provider \<noteq> ''google'' \<or> err \<noteq> None \<or> auth_code = None \<or> state = None \<or>
    (\<forall>u. fst (verify_state S (cf_settings cf) (the state) w) = Inr u \<longrightarrow> uuid_parse u = None)"
  shows "callback S cf provider auth_code state err w = (Inl
     (if provider \<noteq> ''google'' then HTTPException 404 (''unknown provider: '' @ provider)
      else if err \<noteq> None then HTTPException 400 (''provider reported: '' @ safe_error (the err))
      else if auth_code = None \<or> state = None then HTTPException 422 ''missing code or state parameter''
      else HTTPException 400 (case fst (verify_state S (cf_settings cf) (the state) w) of
          Inl e \<Rightarrow> exn_str e | Inr _ \<Rightarrow> ''oauth state carries no valid user id'')), w) \<and>
    safe_error e \<in> {e, ''unknown_error''} \<and> length (safe_error e) \<le> 64 \<and>
    list_all (\<lambda>c. 97 \<le> code c \<and> code c \<le> 122 \<or> c = CHR ''_'') (safe_error e)"
proof (cases "provider \<noteq> ''google'' \<or> err \<noteq> None \<or> auth_code = None \<or> state = None")
  case True
  then show ?thesis
    using safe_error_vetted [of e] by (cases err; cases auth_code; cases state)
      (auto simp: callback_def require_google_def PROVIDER_def bindM_def)
next
  case False
  then obtain c s where "auth_code = Some c" "state = Some s" "provider = ''google''" "err = None" by auto
  then show ?thesis
    using exchange_refused [of S cf s w c] assms safe_error_vetted [of e]
    by (auto simp: callback_def require_google_def PROVIDER_def bindM_def)
qed

theorem callback_refuses_witness:
  "(\<exists>d. callback sample_services sample_config ''google'' (Some ''code'') (Some ''forged'') None sample_world =
     (Inl (HTTPException 400 d), sample_world)) \<and>
   callback sample_services sample_config ''google'' (Some ''code'') None (Some ''<b>'') sample_world =
     (Inl (HTTPException 400 ''provider reported: unknown_error''), sample_world) \<and>
   callback sample_services sample_config ''github'' (Some ''code'') None None sample_world =
     (Inl (HTTPException 404 ''unknown provider: github''), sample_world)"
  using callback_refuses [of "''google''" None "Some ''code''" "Some ''forged''" sample_services sample_config sample_world "[]"]
    callback_refuses [of "''google''" "Some ''<b>''" "Some ''code''" None sample_services sample_config sample_world "[]"]
    callback_refuses [of "''github''" None "Some ''code''" None sample_services sample_config sample_world "[]"]
  by (simp add: verify_state_def checked_parts_def bindM_def forged_state) (simp add: safe_error_def)

section \<open>A completed flow\<close>

lemma exchange_for_user_success:
  assumes "exchange_for_user S cf c s w = (Inr (u, tok), w1)"
  shows "\<exists>us. verify_state S (cf_settings cf) s w = (Inr us, w) \<and> uuid_parse us = Some u \<and>
    exchange_code S (cf_settings cf) c w = (Inr tok, w1)"
proof -
  obtain r where v: "verify_state S (cf_settings cf) s w = (r, w)" using verify_state_run by metis
  show ?thesis
    using assms v
    by (auto simp: exchange_for_user_def catchM_def bindM_def json_uuid_def split: sum.splits prod.splits if_splits option.splits)
qed

lemma exchange_code_at:
  assumes "quiet S" and "exchange_code S st c w = (r, w1)"
  shows "w_db w1 = w_db w \<and> w_now w1 = w_now w \<and> w_trace w1 = w_trace w @ [EvHttp (exchange_request st c)]"
proof -
  let ?I = "\<lambda>v. w_db v = w_db w \<and> w_now v = w_now w \<and> w_trace v = w_trace w @ [EvHttp (exchange_request st c)]"
  have k: "keeps ?I (parse_token_response S q)" for q by (intro wp) (simp add: score_def)
  obtain q x where q: "sv_http S (exchange_request st c) (w_ext w) = (q, x)" by force
  let ?w = "w\<lparr>w_trace := w_trace w @ [EvHttp (exchange_request st c)], w_ext := x\<rparr>"
  show ?thesis
  proof (cases q)
    case (Inl e)
    then show ?thesis using assms q by (auto simp: exchange_code_def http_send_quiet bindM_def)
  next
    case (Inr a)
    then have "parse_token_response S a ?w = (r, w1)"
      using assms q by (simp add: exchange_code_def http_send_quiet bindM_def)
    then show ?thesis using keepsD [OF k, of ?w a] by simp
  qed
qed

lemma store_account_success:
  assumes "quiet S" and "store_account S u ea er tok ex w = (Inr i, w')"
  shows "w_db w' = (w_db w)\<lparr>db_accounts := db_accounts (w_db w) @ [new_account i u ea er tok ex (Aware (w_now w))]\<rparr> \<and>
    w_trace w' = w_trace w"
  using assms
  by (auto simp: store_account_def with_session_def end_transaction_def flush_row_def awaiting_quiet bindM_def catchM_def uuid4_run utcnow_run
      commit_quiet new_account_def split: prod.splits sum.splits dest!: insert_account_frame)

text \<open>What a connected account looks like when the answer has been sent.\<close>

definition connected :: "('r, 'x) services \<Rightarrow> config \<Rightarrow> database \<Rightarrow> event list \<Rightarrow> uuid \<Rightarrow> token_response \<Rightarrow> json
    \<Rightarrow> ('r, 'x) world \<Rightarrow> bool" where
  "connected S cf db evs u tok resp w \<longleftrightarrow> w_trace w = evs \<and> (\<exists>row.
     w_db w = db\<lparr>db_accounts := db_accounts db @ [row]\<rparr> \<and>
     ca_user_id row = u \<and> ca_provider row = ''google'' \<and> ca_scopes_granted row = tr_scopes tok \<and>
     (utf8_decode (tr_access_token tok) = Some (tr_access_token tok) \<longrightarrow>
        decrypts_to S (cf_cipher cf) (ca_encrypted_access_token row) (tr_access_token tok)) \<and>
     resp = JObj [(''connected_account_id'', JStr (uuid_str (ca_id row))), (''provider'', JStr ''google''),
                  (''scopes'', JList (map JStr (tr_scopes tok)))])"

lemma connect_account_triple:
  fixes S :: "('r, 'x) services"
  assumes q: "quiet S" and k: "kms_service S"
  shows "triple (\<lambda>w. w_db w = db \<and> w_trace w = evs) (connect_account S cf u tok) (connected S cf db evs u tok) (\<lambda>_ _. True)"
proof -
  define J :: "('r, 'x) world \<Rightarrow> bool" where "J = (\<lambda>w. w_db w = db \<and> w_trace w = evs)"
  let ?P = "\<lambda>b. utf8_decode (tr_access_token tok) = Some (tr_access_token tok) \<longrightarrow> decrypts_to S (cf_cipher cf) b (tr_access_token tok)"
  have J: "core J" "env_stable S J" "score J" using q by (simp_all add: J_def core_def score_def)
  have e: "triple J (awaiting S AwaitThread (encrypt S (cf_cipher cf) (tr_access_token tok))) (\<lambda>b w. J w \<and> ?P b) (\<lambda>_ _. True)"
  proof -
    have "keeps J (awaiting S AwaitThread (encrypt S (cf_cipher cf) (tr_access_token tok)))" by (intro wp J)
    from triple_conj [OF keeps_weaken [OF this] encrypted_decrypts [OF k q, of "\<lambda>_. True"], of "\<lambda>_. True"] show ?thesis by simp
  qed
  have s: "triple J (bindM (store_account S u ea er tok ex) (\<lambda>i. bindM (inc (OAUTH_ACCOUNTS_CONNECTED PROVIDER)) (\<lambda>_.
      ret (JObj [(''connected_account_id'', JStr (uuid_str i)), (''provider'', JStr PROVIDER),
                 (''scopes'', JList (map JStr (tr_scopes tok)))])))) (connected S cf db evs u tok) (\<lambda>_ _. True)" if "?P ea" for ea er ex
    by (rule tripleI) (use that store_account_success [OF q] in
      \<open>fastforce simp: J_def bindM_def inc_def connected_def new_account_def PROVIDER_def split: sum.splits prod.splits\<close>)+
  have r: "triple J (if json_truthy v then bindM (awaiting S AwaitThread (encrypt_value S (cf_cipher cf) v)) (\<lambda>b. ret (Some b))
      else ret None) (\<lambda>_. J) (\<lambda>_ _. True)" for v
    by (rule keeps_weaken) (intro wp J, simp_all)
  have x: "triple J (case e of None \<Rightarrow> ret None | Some n \<Rightarrow> bindM utcnow (\<lambda>now. bindM (liftE (datetime_add now n)) (\<lambda>t. ret (Some t))))
      (\<lambda>_. J) (\<lambda>_ _. True)" for e
    by (rule keeps_weaken) (intro wp, simp_all)
  show ?thesis
    unfolding connect_account_def J_def [symmetric]
    by (rule triple_bindM [OF e], rule triple_fact, rule triple_bindM [OF r], rule triple_bindM [OF x], erule s)
qed

text \<open>
  C18: a completed flow connects the account to the user it was started for.  A
  callback that answers with success for a state minted for a user sent exactly one
  request, the exchange of its code, arrived within the lifetime of the state, and
  added exactly one row, of that user, whose encrypted token decrypts to the one the
  provider issued; the answer names the row and carries no token.
\<close>

theorem connect_flow:
  assumes "quiet S" and "kms_service S" and "hex_service S"
    and "make_state S (cf_settings cf) (uuid_str u) w0 = (Inr state, w1)"
    and "callback S cf ''google'' (Some auth_code) (Some state) None w = (Inr resp, w')"
  shows "\<exists>tok v. exchange_code S (cf_settings cf) auth_code w = (Inr tok, v) \<and>
    w_now w \<le> (epoch_seconds (Aware (w_now w0)) + oauth_state_ttl_seconds (cf_settings cf)) * 1000000 \<and>
    connected S cf (w_db w) (w_trace w @ [EvHttp (exchange_request (cf_settings cf) auth_code)]) u tok resp w'"
proof -
  obtain u' tok v where x: "exchange_for_user S cf auth_code state w = (Inr (u', tok), v)"
    and c: "connect_account S cf u' tok v = (Inr resp, w')"
    using assms(5) by (auto simp: callback_def require_google_def PROVIDER_def bindM_def split: sum.splits prod.splits)
  from exchange_for_user_success [OF x] obtain us where us: "verify_state S (cf_settings cf) state w = (Inr us, w)"
    "uuid_parse us = Some u'" and e: "exchange_code S (cf_settings cf) auth_code w = (Inr tok, v)" by blast
  have "us = uuid_str u \<and> w_now w \<le> (epoch_seconds (Aware (w_now w0)) + oauth_state_ttl_seconds (cf_settings cf)) * 1000000"
    using us(1) minted_state_verifies [OF assms(3) utf8_decode_ascii [OF uuid_str_ascii] assms(4), of w] by (simp split: if_splits)
  moreover have "connected S cf (w_db w) (w_trace w @ [EvHttp (exchange_request (cf_settings cf) auth_code)]) u' tok resp w'"
    using tripleD_Inr [OF connect_account_triple [OF assms(1,2)] _ c] exchange_code_at [OF assms(1) e] by simp
  ultimately show ?thesis using us(2) e by auto
qed

lemma sample_callback_runs:
  assumes "make_state sample_services sample_settings (uuid_str 7) sample_world = (Inr state, w1)"
  shows "\<exists>resp w'. callback sample_services sample_config ''google'' (Some ''code'') (Some state) None sample_world = (Inr resp, w')"
proof -
  let ?tok = "\<lparr>tr_access_token = ''fresh-access-token'', tr_refresh_token = JNull, tr_expires_in = Some 3600, tr_scopes = []\<rparr>"
  let ?w1 = "sample_world\<lparr>w_trace := [EvHttp (exchange_request sample_settings ''code'')],
    w_secrets := registered (Some (SecretStr ''fresh-access-token'')) []\<rparr>"
  have "verify_state sample_services sample_settings state sample_world = (Inr (uuid_str 7), sample_world)"
    using minted_state_verifies [OF sample_hex_service utf8_decode_ascii [OF uuid_str_ascii] assms, of sample_world]
    by (simp add: epoch_seconds_def default_settings_def)
  moreover have "exchange_code sample_services sample_settings ''code'' sample_world = (Inr ?tok, ?w1)"
    by (simp add: exchange_code_def http_send_quiet exchange_request_def sample_parse del: dumps.simps)
  ultimately have x: "exchange_for_user sample_services sample_config ''code'' state sample_world = (Inr (7, ?tok), ?w1)"
    by (simp add: exchange_for_user_def bindM_def catchM_def)
  obtain blob where e: "encrypt sample_services sample_key ''fresh-access-token'' ?w1 =
      (Inr blob, ?w1\<lparr>w_secrets := registered (Some (SecretStr ''fresh-access-token'')) (w_secrets ?w1), w_ext := w_ext ?w1 + 3\<rparr>)"
    using sample_encrypt_runs by blast
  have "\<exists>resp w'. connect_account sample_services sample_config 7 ?tok ?w1 = (Inr resp, w')"
    using e by (simp add: connect_account_def awaiting_quiet bindM_def utcnow_run datetime_add_def store_account_def with_session_def
        flush_row_def end_transaction_def catchM_def uuid4_run commit_quiet insert_account_def empty_db_def inc_def)
  then show ?thesis using x by (auto simp: callback_def require_google_def PROVIDER_def bindM_def)
qed

theorem connect_flow_witness:
  "\<exists>state w1 resp w' tok v. make_state sample_services sample_settings (uuid_str 7) sample_world = (Inr state, w1) \<and>
     callback sample_services sample_config ''google'' (Some ''code'') (Some state) None sample_world = (Inr resp, w') \<and>
     exchange_code sample_services sample_settings ''code'' sample_world = (Inr tok, v) \<and>
     connected sample_services sample_config empty_db [EvHttp (exchange_request sample_settings ''code'')] 7 tok resp w'"
proof -
  obtain state w1 where m: "make_state sample_services sample_settings (uuid_str 7) sample_world = (Inr state, w1)"
    using uuid_str_no_sep [of 7] by (simp add: make_state_def bindM_def time_time_def token_hex_def draw_def Let_def)
  obtain resp w' where c: "callback sample_services sample_config ''google'' (Some ''code'') (Some state) None sample_world = (Inr resp, w')"
    using sample_callback_runs [OF m] by blast
  show ?thesis
    using connect_flow [OF sample_quiet sample_kms.kms_service_axioms sample_hex_service _ c, of 7 sample_world w1] m c by auto
qed

end
