(* ===== verification/Cb_Demo.thy ===== *)
theory Cb_Demo
  imports Cb_OAuth_Router
begin

text \<open>
  The credential-free demo (\<open>credbroker/demo\<close>): the seed data and the stand-in for
  the Drive API.
\<close>

section \<open>The seed data\<close>

definition DEMO_AGENT_NAME :: string where
  "DEMO_AGENT_NAME = ''demo agent''"

definition DEMO_PROVIDER :: string where
  "DEMO_PROVIDER = ''google''"

definition DEMO_ACCESS_TOKEN :: string where
  "DEMO_ACCESS_TOKEN = ''demo-access-token-not-a-real-credential''"

text \<open>Both parts return the row and whether it is new; a new row waits for the commit.\<close>

definition seed_agent :: "('r, 'x) services \<Rightarrow> ('r, 'x, agent_identity \<times> bool) io" where
  "seed_agent S =
     bindM (select S (\<lambda>db. filter (\<lambda>a. ag_name a = DEMO_AGENT_NAME) (db_agents db))) (\<lambda>rows.
     bindM (liftE (scalar_one_or_none rows)) (\<lambda>agent.
     case agent of
       Some a \<Rightarrow> ret (a, False)
     | None \<Rightarrow>
         bindM (uuid4 S) (\<lambda>user_id.
         bindM (flush_row S (\<lambda>i now. \<lparr>ag_id = i, ag_user_id = user_id, ag_name = DEMO_AGENT_NAME,
             ag_allowed_scopes = [''drive.read''], ag_created_at = now\<rparr>) insert_agent) (\<lambda>a.
         ret (a, True)))))"

definition seed_account :: "('r, 'x) services \<Rightarrow> config \<Rightarrow> uuid \<Rightarrow> ('r, 'x, connected_account \<times> bool) io" where
  "seed_account S cf user_id =
     bindM (select S (\<lambda>db. newest_account db user_id DEMO_PROVIDER)) (\<lambda>rows.
     bindM (liftE (scalar_one_or_none rows)) (\<lambda>account.
     case account of
       Some a \<Rightarrow> ret (a, False)
     | None \<Rightarrow>
         bindM (awaiting S AwaitThread (encrypt S (cf_cipher cf) DEMO_ACCESS_TOKEN)) (\<lambda>encrypted_access.
         bindM utcnow (\<lambda>now.
         bindM (liftE (datetime_add now (365 * 86400))) (\<lambda>expires_at.
         bindM (flush_row S (\<lambda>i created. \<lparr>ca_id = i, ca_user_id = user_id, ca_provider = DEMO_PROVIDER,
             ca_encrypted_access_token = encrypted_access, ca_encrypted_refresh_token = None,
             ca_scopes_granted = [''demo''], ca_expires_at = Some expires_at, ca_created_at = created\<rparr>) insert_account) (\<lambda>a.
         ret (a, True)))))))"

definition insert_if :: "bool \<Rightarrow> ('row \<Rightarrow> database \<Rightarrow> exn + database) \<Rightarrow> 'row \<Rightarrow> database \<Rightarrow> exn + database" where
  "insert_if new ins row db = (if new then ins row db else Inr db)"

definition seed_demo :: "('r, 'x) services \<Rightarrow> config \<Rightarrow> ('r, 'x, json) io" where
  "seed_demo S cf =
     bindM (seed_agent S) (\<lambda>(agent, agent_is_new).
     bindM (seed_account S cf (ag_user_id agent)) (\<lambda>(account, account_is_new).
     bindM (commit S (\<lambda>db. case insert_if agent_is_new insert_agent agent db of
                             Inl e \<Rightarrow> Inl e | Inr db' \<Rightarrow> insert_if account_is_new insert_account account db') []) (\<lambda>_.
     ret (JObj [(''user_id'', JStr (uuid_str (ag_user_id agent))), (''agent_id'', JStr (uuid_str (ag_id agent))),
                (''connected_account_id'', JStr (uuid_str (ca_id account))),
                (''created'', JBool (agent_is_new \<or> account_is_new))]))))"

section \<open>The stand-in for Drive\<close>

record drive_file =
  df_id :: string
  df_name :: string
  df_mimeType :: string
  df_modifiedTime :: string

definition SAMPLE_FILES :: "drive_file list" where
  "SAMPLE_FILES =
    [\<lparr>df_id = ''1a2b3c4d5e6f-quarterly-report'', df_name = ''Quarterly Report Q3.pdf'',
      df_mimeType = ''application/pdf'', df_modifiedTime = ''2026-08-14T09:12:33.000Z''\<rparr>,
     \<lparr>df_id = ''2b3c4d5e6f7a-roadmap'', df_name = ''Product Roadmap 2027'',
      df_mimeType = ''application/vnd.google-apps.document'', df_modifiedTime = ''2026-08-21T16:45:01.000Z''\<rparr>,
     \<lparr>df_id = ''3c4d5e6f7a8b-budget'', df_name = ''Budget Forecast.xlsx'',
      df_mimeType = ''application/vnd.openxmlformats-officedocument.spreadsheetml.sheet'',
      df_modifiedTime = ''2026-07-30T11:02:47.000Z''\<rparr>,
     \<lparr>df_id = ''4d5e6f7a8b9c-onboarding'', df_name = ''Onboarding Checklist'',
      df_mimeType = ''application/vnd.google-apps.document'', df_modifiedTime = ''2026-06-18T08:20:15.000Z''\<rparr>,
     \<lparr>df_id = ''5e6f7a8b9c0d-team-photo'', df_name = ''Team Offsite Photo.png'',
      df_mimeType = ''image/png'', df_modifiedTime = ''2026-05-09T19:33:58.000Z''\<rparr>,
     \<lparr>df_id = ''6f7a8b9c0d1e-metrics'', df_name = ''Metrics Dashboard Notes'',
      df_mimeType = ''application/vnd.google-apps.spreadsheet'', df_modifiedTime = ''2026-08-27T14:07:22.000Z''\<rparr>,
     \<lparr>df_id = ''7a8b9c0d1e2f-launch-plan'', df_name = ''Launch Plan Draft.docx'',
      df_mimeType = ''application/vnd.openxmlformats-officedocument.wordprocessingml.document'',
      df_modifiedTime = ''2026-08-02T10:55:09.000Z''\<rparr>]"

definition name_needle :: "string \<Rightarrow> string" where
  "name_needle q =
     (let quote = CHR 0x27; rest = tl (dropWhile (\<lambda>c. c \<noteq> quote) q) in
      if quote \<in> set q \<and> quote \<in> set rest then takeWhile (\<lambda>c. c \<noteq> quote) rest else q)"

text \<open>
  \<open>str.lower\<close> as far as a match against ASCII text can tell: the ASCII letters and
  the two other letters whose lower case contains an ASCII one, the Kelvin sign and
  the dotted capital I.
\<close>

fun py_lower :: "string \<Rightarrow> string" where
  "py_lower [] = []"
| "py_lower (c # cs) =
     (if 65 \<le> code c \<and> code c \<le> 90 then char_of (code c + 32) # py_lower cs
      else if take 3 (c # cs) = [CHR 0xE2, CHR 0x84, CHR 0xAA] then CHR ''k'' # py_lower (drop 2 cs)
      else if take 2 (c # cs) = [CHR 0xC4, CHR 0xB0] then [CHR ''i'', CHR 0xCC, CHR 0x87] @ py_lower (drop 1 cs)
      else c # py_lower cs)"

definition matching_files :: "string option \<Rightarrow> drive_file list" where
  "matching_files q =
     (case q of
        None \<Rightarrow> SAMPLE_FILES
      | Some s \<Rightarrow>
          if s = [] then SAMPLE_FILES
          else filter (\<lambda>f. sublist (py_lower (name_needle s)) (py_lower (df_name f))) SAMPLE_FILES)"

definition list_files :: "string option \<Rightarrow> int option \<Rightarrow> string option \<Rightarrow> exn + drive_file list" where
  "list_files authorization pageSize q =
     (case authorization of
        Some a \<Rightarrow>
          if \<not> prefix ''Bearer '' a then Inl (HTTPException 401 ''Missing Bearer authorization'')
          else
            (let files = matching_files q in
             Inr (case pageSize of
                    Some n \<Rightarrow> if n \<ge> 0 then take (nat n) files else files
                  | None \<Rightarrow> files))
      | None \<Rightarrow> Inl (HTTPException 401 ''Missing Bearer authorization''))"

section \<open>Seeding twice\<close>

abbreviation demo_agents :: "database \<Rightarrow> agent_identity list" where
  "demo_agents db \<equiv> filter (\<lambda>a. ag_name a = DEMO_AGENT_NAME) (db_agents db)"

lemma flush_row_quiet:
  assumes "quiet S" and "flush_row S mk ins w = (Inr row, w1)"
  shows "(\<exists>i. row = mk i (Aware (w_now w))) \<and> (\<exists>db. ins row (w_db w) = Inr db) \<and> (\<exists>x. w1 = w\<lparr>w_ext := x\<rparr>)"
  using assms
  by (auto simp: flush_row_def awaiting_quiet bindM_def uuid4_run utcnow_run split: sum.splits prod.splits)

lemma seed_agent_result:
  assumes "quiet S" and "seed_agent S w = (Inr (a, new), w1)"
  shows "at_db (w_db w) (w_now w) (w_trace w) (w1\<lparr>w_dirty := []\<rparr>) \<and> w_dirty w1 = w_dirty w \<and>
    (if new then demo_agents (w_db w) = [] \<and> ag_name a = DEMO_AGENT_NAME else demo_agents (w_db w) = [a])"
  using assms
  by (auto simp: seed_agent_def bindM_def select_quiet at_db_def uuid4_run scalar_Some scalar_None
      split: sum.splits option.splits prod.splits dest!: flush_row_quiet)

lemma encrypt_frame:
  assumes "encrypt S km p w = (r, w1)"
  shows "w_db w1 = w_db w \<and> w_now w1 = w_now w \<and> w_trace w1 = w_trace w \<and> w_dirty w1 = w_dirty w"
proof -
  let ?I = "\<lambda>v. w_db v = w_db w \<and> w_now v = w_now w \<and> w_trace v = w_trace w \<and> w_dirty v = w_dirty w"
  have "keeps ?I (encrypt S km p)" by (intro wp) (simp add: score_def)
  from keepsD [OF this, of w] show ?thesis using assms by simp
qed

lemma seed_account_result:
  assumes "quiet S" and "seed_account S cf u w = (Inr (a, new), w1)"
  shows "w_db w1 = w_db w \<and> w_now w1 = w_now w \<and> w_trace w1 = w_trace w \<and> w_dirty w1 = w_dirty w \<and>
    (if new then newest_account (w_db w) u DEMO_PROVIDER = [] \<and> ca_user_id a = u \<and> ca_provider a = DEMO_PROVIDER
     else newest_account (w_db w) u DEMO_PROVIDER = [a])"
  using assms
  by (auto simp: seed_account_def bindM_def select_quiet awaiting_quiet utcnow_run scalar_Some scalar_None
      split: sum.splits option.splits prod.splits dest!: flush_row_quiet encrypt_frame)

lemma sort_key_Nil: "sort_key f xs = [] \<longleftrightarrow> xs = []"
  using length_sort [of f xs] by (cases xs) (auto simp del: length_sort)

lemma newest_account_empty:
  "newest_account db u p = [] \<longleftrightarrow> filter (\<lambda>a. ca_user_id a = u \<and> ca_provider a = p) (db_accounts db) = []"
  by (simp add: newest_account_def sort_key_Nil)

lemma newest_account_appended:
  "newest_account db u p = [] \<Longrightarrow> ca_user_id a = u \<Longrightarrow> ca_provider a = p \<Longrightarrow>
   newest_account (db\<lparr>db_accounts := db_accounts db @ [a]\<rparr>) u p = [a]"
  unfolding newest_account_empty by (simp add: newest_account_def)

text \<open>The rows that a completed seeding leaves behind.\<close>

lemma seed_demo_result:
  assumes "quiet S" and "w_dirty w = []" and "seed_demo S cf w = (Inr resp, w1)"
  shows "\<exists>agent account new_a new_c.
    demo_agents (w_db w1) = [agent] \<and> newest_account (w_db w1) (ag_user_id agent) DEMO_PROVIDER = [account] \<and>
    resp = JObj [(''user_id'', JStr (uuid_str (ag_user_id agent))), (''agent_id'', JStr (uuid_str (ag_id agent))),
                (''connected_account_id'', JStr (uuid_str (ca_id account))), (''created'', JBool (new_a \<or> new_c))] \<and>
    db_agents (w_db w1) = db_agents (w_db w) @ (if new_a then [agent] else []) \<and>
    db_accounts (w_db w1) = db_accounts (w_db w) @ (if new_c then [account] else []) \<and>
    db_grants (w_db w1) = db_grants (w_db w) \<and> db_audit (w_db w1) = db_audit (w_db w)"
proof -
  obtain agent na w2 account nc w3 where
    a: "seed_agent S w = (Inr (agent, na), w2)" and c: "seed_account S cf (ag_user_id agent) w2 = (Inr (account, nc), w3)"
    and m: "commit S (\<lambda>db. case insert_if na insert_agent agent db of
        Inl e \<Rightarrow> Inl e | Inr db' \<Rightarrow> insert_if nc insert_account account db') [] w3 = (Inr (), w1)"
    and r: "resp = JObj [(''user_id'', JStr (uuid_str (ag_user_id agent))), (''agent_id'', JStr (uuid_str (ag_id agent))),
                (''connected_account_id'', JStr (uuid_str (ca_id account))), (''created'', JBool (na \<or> nc))]"
    using assms(3) by (auto simp: seed_demo_def bindM_def split: sum.splits prod.splits)
  note fa = seed_agent_result [OF assms(1) a] and fc = seed_account_result [OF assms(1) c]
  have d: "w_db w3 = w_db w" "w_dirty w3 = []" using fa fc assms(2) by (auto simp: at_db_def)
  have "w_db w1 = (w_db w)\<lparr>db_agents := db_agents (w_db w) @ (if na then [agent] else []),
      db_accounts := db_accounts (w_db w) @ (if nc then [account] else [])\<rparr>"
    using m d by (auto simp: commit_quiet [OF assms(1)] insert_if_def split: sum.splits if_splits dest!: insert_agent_frame insert_account_frame)
  then show ?thesis
    using fa fc r newest_account_appended [of "w_db w" "ag_user_id agent" DEMO_PROVIDER account]
    by (intro exI [of _ agent] exI [of _ account] exI [of _ na] exI [of _ nc]) (auto simp: at_db_def newest_account_def)
qed

text \<open>
  Seeding the demo is idempotent.  Seeding again, at any later time while the
  tables stand as the first run left them, returns the same user, agent and account,
  reports that nothing was created, and changes no row.
\<close>

theorem seed_demo_idempotent:
  assumes "quiet S" and "w_dirty w = []" and "seed_demo S cf w = (Inr resp, w1)"
    and "w_db v = w_db w1" and "w_dirty v = []"
  shows "\<exists>fields created. resp = JObj (fields @ [(''created'', JBool created)]) \<and>
    fst (seed_demo S cf' v) = Inr (JObj (fields @ [(''created'', JBool False)])) \<and>
    w_db (snd (seed_demo S cf' v)) = w_db w1"
proof -
  obtain agent account b where
    1: "demo_agents (w_db v) = [agent]" "newest_account (w_db v) (ag_user_id agent) DEMO_PROVIDER = [account]"
    and r: "resp = JObj [(''user_id'', JStr (uuid_str (ag_user_id agent))), (''agent_id'', JStr (uuid_str (ag_id agent))),
                (''connected_account_id'', JStr (uuid_str (ca_id account))), (''created'', JBool b)]"
    using seed_demo_result [OF assms(1-3)] assms(4) by auto
  have "seed_agent S v = (Inr (agent, False), v)" "seed_account S cf' (ag_user_id agent) v = (Inr (account, False), v)"
    using 1 by (simp_all add: seed_agent_def seed_account_def bindM_def select_quiet [OF assms(1)])
  then show ?thesis
    using r assms(4,5) by (simp add: seed_demo_def bindM_def commit_quiet [OF assms(1)] insert_if_def)
qed

lemma sample_seed_runs: "\<exists>resp w1. seed_demo sample_services sample_config sample_world = (Inr resp, w1)"
proof -
  let ?w = "sample_world\<lparr>w_ext := 3\<rparr>"
  obtain a where a: "seed_agent sample_services sample_world = (Inr (a, True), ?w)"
    by (simp add: seed_agent_def bindM_def select_quiet empty_db_def uuid4_run flush_row_def awaiting_quiet utcnow_run
        insert_agent_def)
  obtain blob where e: "encrypt sample_services sample_key DEMO_ACCESS_TOKEN ?w =
      (Inr blob, ?w\<lparr>w_secrets := registered (Some (SecretStr DEMO_ACCESS_TOKEN)) (w_secrets ?w), w_ext := w_ext ?w + 3\<rparr>)"
    using sample_encrypt_runs by blast
  obtain c w2 where "seed_account sample_services sample_config (ag_user_id a) ?w = (Inr (c, True), w2)"
    and "w_db w2 = empty_db" and "w_dirty w2 = []"
    using e by (simp add: seed_account_def bindM_def select_quiet empty_db_def newest_account_def awaiting_quiet utcnow_run
        datetime_add_def flush_row_def uuid4_run insert_account_def)
  with a show ?thesis
    by (simp add: seed_demo_def bindM_def commit_quiet insert_if_def insert_agent_def insert_account_def empty_db_def)
qed

theorem seed_demo_idempotent_witness:
  "\<exists>resp w1 fields created. seed_demo sample_services sample_config sample_world = (Inr resp, w1) \<and>
     resp = JObj (fields @ [(''created'', JBool created)]) \<and>
     fst (seed_demo sample_services sample_config (w1\<lparr>w_dirty := []\<rparr>)) = Inr (JObj (fields @ [(''created'', JBool False)]))"
proof -
  obtain resp w1 where r: "seed_demo sample_services sample_config sample_world = (Inr resp, w1)"
    using sample_seed_runs by blast
  show ?thesis
    using seed_demo_idempotent [OF sample_quiet _ r, of "w1\<lparr>w_dirty := []\<rparr>" sample_config] r by auto
qed

section \<open>Two agents of the demo's name\<close>

text \<open>
  Agent names are not unique in the schema, and the console creates agents of any
  name: a second agent called like the demo's makes every later seeding fail.
\<close>

theorem seed_demo_ambiguous_name:
  assumes "quiet S" and "demo_agents (w_db w) = a # b # rest"
  shows "fst (seed_demo S cf w) = Inl (OtherException ''MultipleResultsFound'' ''Multiple rows were found when one or none was required'')"
  using assms by (simp add: seed_demo_def seed_agent_def bindM_def select_quiet)

theorem seed_demo_ambiguous_name_witness:
  "fst (seed_demo sample_services sample_config
     (sample_world\<lparr>w_db := empty_db\<lparr>db_agents := [sample_agent\<lparr>ag_name := DEMO_AGENT_NAME\<rparr>, sample_agent\<lparr>ag_name := DEMO_AGENT_NAME\<rparr>]\<rparr>\<rparr>)) =
   Inl (OtherException ''MultipleResultsFound'' ''Multiple rows were found when one or none was required'')"
  by (rule seed_demo_ambiguous_name) simp_all

section \<open>What the stand-in serves\<close>

lemma list_files_serves:
  assumes "list_files auth page q = Inr files"
  shows "subseq files SAMPLE_FILES" and "page = Some n \<Longrightarrow> 0 \<le> n \<Longrightarrow> int (length files) \<le> n"
    and "q = Some s \<Longrightarrow> s \<noteq> [] \<Longrightarrow> f \<in> set files \<Longrightarrow> sublist (py_lower (name_needle s)) (py_lower (df_name f))"
    and "\<exists>a. auth = Some a \<and> prefix ''Bearer '' a"
proof -
  let ?fs = "matching_files q"
  have fs: "subseq ?fs SAMPLE_FILES"
    by (simp add: matching_files_def subseq_filter_left split: option.split)
  have files: "files = (case page of Some n \<Rightarrow> if n \<ge> 0 then take (nat n) ?fs else ?fs | None \<Rightarrow> ?fs)"
    using assms by (simp add: list_files_def Let_def split: option.splits if_splits)
  have s: "subseq files ?fs" using files by (auto split: option.splits intro: prefix_imp_subseq take_is_prefix)
  then show "subseq files SAMPLE_FILES" using fs subseq_order.trans by blast
  show "int (length files) \<le> n" if "page = Some n" "0 \<le> n" using files that by simp
  show "sublist (py_lower (name_needle s)) (py_lower (df_name f))" if "q = Some s" "s \<noteq> []" "f \<in> set files"
  proof -
    have "f \<in> set ?fs" using list_emb_set [OF s that(3)] by blast
    then show ?thesis using that(1,2) by (simp add: matching_files_def)
  qed
  show "\<exists>a. auth = Some a \<and> prefix ''Bearer '' a" using assms by (auto simp: list_files_def split: option.splits if_splits)
qed

end
