(* ===== verification/Py_Datetime.thy ===== *)
theory Py_Datetime
  imports Cb_Models
begin

text \<open>
  Python's proleptic calendar: the date of a day number and the text
  \<open>datetime.isoformat()\<close> gives for a timestamp in UTC, with the round trips that make
  the text identify the instant.
\<close>

section \<open>Dates\<close>

definition is_leap :: "int \<Rightarrow> bool" where
  "is_leap y \<longleftrightarrow> y mod 4 = 0 \<and> (y mod 100 \<noteq> 0 \<or> y mod 400 = 0)"

definition month_lengths :: "bool \<Rightarrow> int list" where
  "month_lengths leap = [31, if leap then 29 else 28, 31, 30, 31, 30, 31, 31, 30, 31, 30, 31]"

definition days_before_year :: "int \<Rightarrow> int" where
  "days_before_year y = (y - 1) * 365 + (y - 1) div 4 - (y - 1) div 100 + (y - 1) div 400"

text \<open>Day 1 is the first of January of year 1.\<close>

definition ymd2ord :: "int \<times> int \<times> int \<Rightarrow> int" where
  "ymd2ord = (\<lambda>(y, m, d). days_before_year y + sum_list (take (nat (m - 1)) (month_lengths (is_leap y))) + d)"

text \<open>Month and day of the \<open>r\<close>-th day of a year, counted from 0.\<close>

fun month_day :: "int \<Rightarrow> int list \<Rightarrow> int \<Rightarrow> int \<times> int" where
  "month_day m [] r = (m, r + 1)"
| "month_day m (l # ls) r = (if r < l then (m, r + 1) else month_day (m + 1) ls (r - l))"

definition ord2ymd :: "int \<Rightarrow> int \<times> int \<times> int" where
  "ord2ymd day =
     (let n = day - 1;
          n400 = n div 146097; n = n mod 146097;
          n100 = n div 36524; n = n mod 36524;
          n4 = n div 1461; n = n mod 1461;
          n1 = n div 365; n = n mod 365;
          year = n400 * 400 + 1 + n100 * 100 + n4 * 4 + n1
      in if n1 = 4 \<or> n100 = 4 then (year - 1, 12, 31)
         else (year, month_day 1 (month_lengths (is_leap year)) n))"

section \<open>Text\<close>

text \<open>\<open>'%0kd' % n\<close> for \<open>n < 10 ^ k\<close>.\<close>

fun dec_fixed :: "nat \<Rightarrow> nat \<Rightarrow> string" where
  "dec_fixed 0 n = []"
| "dec_fixed (Suc k) n = dec_fixed k (n div 10) @ [dec_digit (n mod 10)]"

definition isoformat :: "int \<Rightarrow> string" where
  "isoformat us =
     (let (y, m, d) = ord2ymd (us div 86400000000 + 719163); t = us mod 86400000000; f = t mod 1000000 in
      dec_fixed 4 (nat y) @ ''-'' @ dec_fixed 2 (nat m) @ ''-'' @ dec_fixed 2 (nat d) @ ''T'' @
      dec_fixed 2 (nat (t div 3600000000)) @ '':'' @ dec_fixed 2 (nat (t div 60000000 mod 60)) @ '':'' @
      dec_fixed 2 (nat (t div 1000000 mod 60)) @ (if f = 0 then [] else ''.'' @ dec_fixed 6 (nat f)) @ ''+00:00'')"

section \<open>The calendar round trip\<close>

lemma month_day_inverse:
  assumes "month_day m ls r = (m', d)"
  shows "sum_list (take (nat (m' - m)) ls) + d = r + 1 \<and> m \<le> m'"
  using assms
proof (induction m ls r rule: month_day.induct)
  case (2 m l ls r)
  show ?case
  proof (cases "r < l")
    case False
    then have ih: "sum_list (take (nat (m' - (m + 1))) ls) + d = r - l + 1" "m + 1 \<le> m'" using 2 by auto
    then have "nat (m' - m) = Suc (nat (m' - (m + 1)))" by simp
    then show ?thesis using ih by simp
  qed (use 2 in auto)
qed simp

text \<open>Cycles of 400, 100, 4 and 1 years before a year, and the days they hold.\<close>

lemma days_before_cycles:
  fixes a b c d :: int
  assumes "0 \<le> b" "b \<le> 3" "0 \<le> c" "c \<le> 24" "0 \<le> d" "d \<le> 3"
  shows "days_before_year (a * 400 + 1 + b * 100 + c * 4 + d) = a * 146097 + b * 36524 + c * 1461 + d * 365"
proof -
  let ?y = "a * 400 + b * 100 + c * 4 + d"
  have "?y div 4 = a * 100 + b * 25 + c" using assms by simp
  moreover have "?y div 100 = a * 4 + b" using assms by simp
  moreover have "?y div 400 = a" using assms by simp
  ultimately show ?thesis unfolding days_before_year_def by (simp add: algebra_simps)
qed

lemma cycle_bounds:
  fixes n :: int
  shows "0 \<le> n mod 146097 div 36524" "n mod 146097 div 36524 \<le> 4"
    "0 \<le> n mod 36524 div 1461" "n mod 36524 div 1461 \<le> 24" "0 \<le> n mod 1461 div 365" "n mod 1461 div 365 \<le> 4"
  by simp_all

lemma last_day: "ymd2ord (y, 12, 31) = days_before_year y + (if is_leap y then 366 else 365)"
  by (simp add: ymd2ord_def month_lengths_def eval_nat_numeral)

lemma ymd2ord_month_day:
  "ymd2ord (y, month_day 1 (month_lengths (is_leap y)) r) = days_before_year y + r + 1"
  using month_day_inverse [of 1 "month_lengths (is_leap y)" r]
  by (cases "month_day 1 (month_lengths (is_leap y)) r") (simp add: ymd2ord_def)

theorem ord2ymd_inverse: "ymd2ord (ord2ymd day) = day"
proof -
  define a p b q c s d r where "a = (day - 1) div 146097" and "p = (day - 1) mod 146097"
    and "b = p div 36524" and "q = p mod 36524" and "c = q div 1461" and "s = q mod 1461"
    and "d = s div 365" and "r = s mod 365"
  note defs = this
  have o: "ord2ymd day = (if d = 4 \<or> b = 4 then (a * 400 + b * 100 + c * 4 + d, 12, 31)
     else (let y = a * 400 + 1 + b * 100 + c * 4 + d in (y, month_day 1 (month_lengths (is_leap y)) r)))"
    unfolding ord2ymd_def defs Let_def by simp
  have n: "day - 1 = a * 146097 + p" "p = b * 36524 + q" "q = c * 1461 + s" "s = d * 365 + r"
    unfolding defs by simp_all
  have rng: "0 \<le> p" "p < 146097" "0 \<le> q" "q < 36524" "0 \<le> s" "s < 1461" "0 \<le> r" "r < 365"
    unfolding defs by simp_all
  then have rng': "0 \<le> b" "b \<le> 4" "0 \<le> c" "c \<le> 24" "0 \<le> d" "d \<le> 4" using n by linarith+
  consider "b = 4" | "b \<le> 3" "d = 4" | "b \<le> 3" "d \<le> 3" using rng' by linarith
  then show ?thesis
  proof cases
    case 1
    then have z: "q = 0" "c = 0" "s = 0" "d = 0" "r = 0" using n rng rng' by linarith+
    have "days_before_year ((a + 1) * 400) = a * 146097 + 3 * 36524 + 24 * 1461 + 3 * 365"
      using days_before_cycles [of 3 24 3 a] by (simp add: algebra_simps)
    moreover have "is_leap ((a + 1) * 400)" by (simp add: is_leap_def)
    ultimately show ?thesis using o n 1 z by (simp add: last_day algebra_simps)
  next
    case 2
    then have z: "r = 0" "c \<le> 23" using n rng rng' by linarith+
    have "days_before_year (a * 400 + b * 100 + c * 4 + 4) = a * 146097 + b * 36524 + c * 1461 + 3 * 365"
      using days_before_cycles [of b c 3 a] 2 z rng' by (simp add: algebra_simps)
    moreover have "is_leap (a * 400 + b * 100 + c * 4 + 4)"
    proof -
      have y: "a * 400 + b * 100 + c * 4 + 4 = (c * 4 + 4) + 100 * (a * 4 + b)" by simp
      have "(c * 4 + 4) mod 100 = c * 4 + 4" using z rng' by (intro mod_pos_pos_trivial) linarith+
      then have "(a * 400 + b * 100 + c * 4 + 4) mod 100 \<noteq> 0" unfolding y mod_mult_self2 using rng' by linarith
      moreover have "(a * 400 + b * 100 + c * 4 + 4) mod 4 = (4 * (a * 100 + b * 25 + c + 1)) mod 4" by (simp add: algebra_simps)
      ultimately show ?thesis unfolding is_leap_def by simp
    qed
    ultimately show ?thesis using o n 2 z by (simp add: last_day algebra_simps)
  next
    case 3
    then show ?thesis
      using o n rng' days_before_cycles [of b c d a] by (simp add: ymd2ord_month_day Let_def)
  qed
qed

section \<open>The text identifies the instant\<close>

lemma length_dec_fixed [simp]: "length (dec_fixed k n) = k"
  by (induction k arbitrary: n) auto

lemma dec_digit_inject: "dec_digit a = dec_digit b \<Longrightarrow> a < 10 \<Longrightarrow> b < 10 \<Longrightarrow> a = b"
  by (metis add_left_imp_eq dec_digit_code)

lemma dec_fixed_inject: "dec_fixed k a = dec_fixed k b \<Longrightarrow> a < 10 ^ k \<Longrightarrow> b < 10 ^ k \<Longrightarrow> a = b"
proof (induction k arbitrary: a b)
  case (Suc k)
  have "a div 10 < 10 ^ k" "b div 10 < 10 ^ k" using Suc.prems(2,3) by (simp_all add: less_mult_imp_div_less mult.commute)
  then have "a div 10 = b div 10" "a mod 10 = b mod 10"
    using Suc.IH [of "a div 10" "b div 10"] Suc.prems(1) by (simp_all add: dec_digit_inject)
  then show ?case by (metis div_mult_mod_eq)
qed simp

lemma month_day_range:
  assumes "month_day m ls r = (m', d)" and "0 \<le> r" and "r < sum_list ls" and "list_all (\<lambda>l. l \<le> 31) ls"
  shows "m \<le> m' \<and> m' < m + int (length ls) \<and> 1 \<le> d \<and> d \<le> 31"
  using assms by (induction m ls r rule: month_day.induct) (fastforce split: if_splits)+

lemma month_lengths_facts [simp]:
  "length (month_lengths b) = 12" "list_all (\<lambda>l. l \<le> 31) (month_lengths b)" "365 \<le> sum_list (month_lengths b)"
  by (simp_all add: month_lengths_def)

text \<open>The days of the years 1 to 9999.\<close>

lemma ord2ymd_range:
  assumes "1 \<le> day" and "day \<le> 3652059" and "ord2ymd day = (y, m, d)"
  shows "1 \<le> y \<and> y \<le> 9999 \<and> 1 \<le> m \<and> m \<le> 12 \<and> 1 \<le> d \<and> d \<le> 31"
proof -
  define a p b q c s e r where "a = (day - 1) div 146097" and "p = (day - 1) mod 146097"
    and "b = p div 36524" and "q = p mod 36524" and "c = q div 1461" and "s = q mod 1461"
    and "e = s div 365" and "r = s mod 365"
  note defs = this
  have o: "ord2ymd day = (if e = 4 \<or> b = 4 then (a * 400 + b * 100 + c * 4 + e, 12, 31)
     else (let y = a * 400 + 1 + b * 100 + c * 4 + e in (y, month_day 1 (month_lengths (is_leap y)) r)))"
    unfolding ord2ymd_def defs Let_def by simp
  have n: "day - 1 = a * 146097 + p" "p = b * 36524 + q" "q = c * 1461 + s" "s = e * 365 + r"
    unfolding defs by simp_all
  have rng: "0 \<le> p" "p < 146097" "0 \<le> q" "q < 36524" "0 \<le> s" "s < 1461" "0 \<le> r" "r < 365"
    unfolding defs by simp_all
  have z: "0 \<le> a" "0 \<le> b" "0 \<le> c" "0 \<le> e" "a \<le> 24" "b \<le> 4" "c \<le> 24" "e \<le> 4" using n rng assms(1,2) by linarith+
  have top: "a * 400 + 1 + b * 100 + c * 4 + e \<le> 9999"
  proof (cases "a = 24 \<and> b = 3 \<and> c = 24 \<or> b = 4")
    case True
    then show ?thesis using n rng assms(2) z by auto
  qed (use z n rng assms(2) in auto)
  show ?thesis
  proof (cases "e = 4 \<or> b = 4")
    case True
    then show ?thesis using o assms(3) z top by auto
  next
    case False
    let ?y = "a * 400 + 1 + b * 100 + c * 4 + e"
    have "month_day 1 (month_lengths (is_leap ?y)) r = (m, d)" "y = ?y" using False o assms(3) by (simp_all add: Let_def)
    moreover have "r < sum_list (month_lengths (is_leap ?y))" using rng month_lengths_facts(3) [of "is_leap ?y"] by linarith
    ultimately show ?thesis using month_day_range [of 1 _ r m d] rng z top by fastforce
  qed
qed

definition in_range :: "int \<Rightarrow> bool" where
  "in_range us \<longleftrightarrow> - 62135596800000000 \<le> us \<and> us < 253402300800000000"

lemma in_range_day:
  assumes "in_range us"
  shows "1 \<le> us div 86400000000 + 719163" and "us div 86400000000 + 719163 \<le> 3652059"
proof -
  have "- 719162 \<le> us div 86400000000"
    using zdiv_mono1 [of "- 62135596800000000" us 86400000000] assms by (simp add: in_range_def)
  then show "1 \<le> us div 86400000000 + 719163" by simp
  have "us div 86400000000 \<le> 2932896"
    using zdiv_mono1 [of us 253402300799999999 86400000000] assms by (simp add: in_range_def)
  then show "us div 86400000000 + 719163 \<le> 3652059" by simp
qed

lemma nat_fixed_inject:
  "dec_fixed k (nat a) = dec_fixed k (nat b) \<Longrightarrow> 0 \<le> a \<Longrightarrow> a < 10 ^ k \<Longrightarrow> 0 \<le> b \<Longrightarrow> b < 10 ^ k \<Longrightarrow> a = b"
  using dec_fixed_inject [of k "nat a" "nat b"] by (simp add: nat_less_iff eq_nat_nat_iff)

lemma clock_parts:
  fixes t :: int
  shows "t = t div 3600000000 * 3600000000 + t div 60000000 mod 60 * 60000000 + t div 1000000 mod 60 * 1000000 + t mod 1000000"
proof -
  have "t div 60000000 = t div 1000000 div 60" "t div 3600000000 = t div 1000000 div 60 div 60"
    by (simp_all add: zdiv_zmult2_eq [symmetric])
  then show ?thesis by presburger
qed

lemma clock_inject:
  fixes t s :: int
  assumes "t div 3600000000 = s div 3600000000" and "t div 60000000 mod 60 = s div 60000000 mod 60"
    and "t div 1000000 mod 60 = s div 1000000 mod 60" and "t mod 1000000 = s mod 1000000"
  shows "t = s"
  by (rule trans [OF clock_parts [of t] sym [OF trans [OF clock_parts [of s]]]]) (simp only: assms)

lemma fraction_inject:
  assumes "(if f = 0 then [] else ''.'' @ dec_fixed 6 (nat f)) @ ''+00:00'' = (if g = 0 then [] else ''.'' @ dec_fixed 6 (nat g)) @ ''+00:00''"
    and "0 \<le> f" "f < 1000000" "0 \<le> g" "g < 1000000"
  shows "f = g"
proof -
  have l: "f = 0 \<longleftrightarrow> g = 0" using arg_cong [OF assms(1), of length] by (simp split: if_splits)
  show ?thesis
  proof (cases "f = 0")
    case False
    then have "dec_fixed 6 (nat f) = dec_fixed 6 (nat g)" using assms(1) l by simp
    then show ?thesis using nat_fixed_inject [of 6 f g] assms(2-5) by simp
  qed (use l in simp)
qed

lemma fixed_append: "dec_fixed k a @ xs = dec_fixed k b @ ys \<longleftrightarrow> dec_fixed k a = dec_fixed k b \<and> xs = ys"
  by simp

lemma isoformat_inject:
  assumes "in_range us" and "in_range vs" and "isoformat us = isoformat vs"
  shows "us = vs"
proof -
  obtain y m d y' m' d' where o: "ord2ymd (us div 86400000000 + 719163) = (y, m, d)" "ord2ymd (vs div 86400000000 + 719163) = (y', m', d')"
    by (metis prod_cases3)
  define t s where "t = us mod 86400000000" and "s = vs mod 86400000000"
  have ts: "0 \<le> t" "t < 86400000000" "0 \<le> s" "s < 86400000000" by (simp_all add: t_def s_def)
  note r = ord2ymd_range [OF in_range_day [OF assms(1)] o(1)] ord2ymd_range [OF in_range_day [OF assms(2)] o(2)]
  have parts: "dec_fixed 4 (nat y) = dec_fixed 4 (nat y')" "dec_fixed 2 (nat m) = dec_fixed 2 (nat m')"
    "dec_fixed 2 (nat d) = dec_fixed 2 (nat d')" "dec_fixed 2 (nat (t div 3600000000)) = dec_fixed 2 (nat (s div 3600000000))"
    "dec_fixed 2 (nat (t div 60000000 mod 60)) = dec_fixed 2 (nat (s div 60000000 mod 60))"
    "dec_fixed 2 (nat (t div 1000000 mod 60)) = dec_fixed 2 (nat (s div 1000000 mod 60))"
    "(if t mod 1000000 = 0 then [] else ''.'' @ dec_fixed 6 (nat (t mod 1000000))) @ ''+00:00'' =
     (if s mod 1000000 = 0 then [] else ''.'' @ dec_fixed 6 (nat (s mod 1000000))) @ ''+00:00''"
    using assms(3)
    unfolding isoformat_def o Let_def prod.case t_def [symmetric] s_def [symmetric] fixed_append same_append_eq by blast+
  have b: "0 \<le> t div 3600000000" "t div 3600000000 \<le> 23" "0 \<le> s div 3600000000" "s div 3600000000 \<le> 23"
    using ts zdiv_mono1 [of t 86399999999 3600000000] zdiv_mono1 [of s 86399999999 3600000000]
    by (simp_all add: pos_imp_zdiv_nonneg_iff)
  have "t div 3600000000 = s div 3600000000" using nat_fixed_inject [OF parts(4)] b by simp
  moreover have "t div 60000000 mod 60 = s div 60000000 mod 60" by (rule nat_fixed_inject [OF parts(5)]) (simp_all add: order_less_trans [OF pos_mod_bound])
  moreover have "t div 1000000 mod 60 = s div 1000000 mod 60" by (rule nat_fixed_inject [OF parts(6)]) (simp_all add: order_less_trans [OF pos_mod_bound])
  moreover have "t mod 1000000 = s mod 1000000" by (rule fraction_inject [OF parts(7)]) simp_all
  ultimately have "t = s" by (rule clock_inject)
  moreover have "(y, m, d) = (y', m', d')"
  proof -
    have "y = y'" by (rule nat_fixed_inject [OF parts(1)]) (use r in simp_all)
    moreover have "m = m'" by (rule nat_fixed_inject [OF parts(2)]) (use r in simp_all)
    moreover have "d = d'" by (rule nat_fixed_inject [OF parts(3)]) (use r in simp_all)
    ultimately show ?thesis by (simp only:)
  qed
  then have "us div 86400000000 + 719163 = vs div 86400000000 + 719163"
    using ord2ymd_inverse [of "us div 86400000000 + 719163"] ord2ymd_inverse [of "vs div 86400000000 + 719163"] unfolding o by (simp only:)
  then have "us div 86400000000 = vs div 86400000000" by (simp only: add_right_cancel)
  ultimately show ?thesis
    unfolding t_def s_def
    by (intro trans [OF div_mult_mod_eq [of us 86400000000, symmetric] trans [OF _ div_mult_mod_eq [of vs 86400000000]]]) (simp only:)
qed

end
