(* ===== verification/Cb_Console.thy ===== *)
theory Cb_Console
  imports Cb_Demo Py_Datetime
begin

text \<open>
  The operator console's API (\<open>credbroker/console/api.py\<close>).  A request is what the
  framework hands to a route after it has parsed path, query and body; every route
  of the API runs behind the console token.  Responses are JSON values.
\<close>

section \<open>Errors and authentication\<close>

fun error_status :: "error_class \<Rightarrow> int" where
  "error_status PolicyDeniedError = 403"
| "error_status GrantScopeMismatchError = 403"
| "error_status GrantRevokedError = 403"
| "error_status GrantExpiredError = 403"
| "error_status GrantTokenInvalidError = 403"
| "error_status RateLimitedError = 429"
| "error_status ConcurrencyLimitError = 429"
| "error_status UnknownAgentError = 404"
| "error_status UnknownToolError = 404"
| "error_status GrantNotFoundError = 404"
| "error_status NoConnectedAccountError = 404"
| "error_status IdempotencyConflictError = 409"
| "error_status _ = 400"

text \<open>\<open>except CredBrokerError as exc: raise _http_error(exc)\<close>.\<close>

definition http_error :: "exn \<Rightarrow> exn" where
  "http_error e = (case broker_class e of Some c \<Rightarrow> HTTPException (error_status c) (exn_str e) | None \<Rightarrow> e)"

definition with_http_errors :: "('r, 'x, 'a) io \<Rightarrow> ('r, 'x, 'a) io" where
  "with_http_errors m = catchM m (\<lambda>e. raise (http_error e))"

text \<open>\<open>hmac.compare_digest\<close> of two strings, which must be ASCII.\<close>

definition compare_digest :: "string \<Rightarrow> string \<Rightarrow> exn + bool" where
  "compare_digest a b =
     (if is_ascii a \<and> is_ascii b then Inr (a = b)
      else Inl (TypeError ''comparing strings with non-ASCII characters is not supported''))"

definition require_console_auth :: "settings \<Rightarrow> string option \<Rightarrow> ('r, 'x, unit) io" where
  "require_console_auth st x_console_token =
     (let expected = console_token st;
          refused = HTTPException 401 ''missing or invalid console token'' in
      if expected = [] then ret ()
      else
        (case x_console_token of
           None \<Rightarrow> raise refused
         | Some t \<Rightarrow> bindM (liftE (compare_digest t expected)) (\<lambda>same. if \<not> same then raise refused else ret ())))"

section \<open>Rows as JSON\<close>

definition iso :: "datetime option \<Rightarrow> json" where
  "iso dt = (case ensure_aware dt of None \<Rightarrow> JNull | Some d \<Rightarrow> JStr (isoformat (instant d)))"

definition strings :: "string list \<Rightarrow> json" where
  "strings xs = JList (map JStr xs)"

definition tool_dict :: "tool \<Rightarrow> json" where
  "tool_dict tool = JObj [(''name'', JStr (tl_name tool)), (''provider'', JStr (tl_provider tool)),
     (''scope'', JStr (tl_scope tool)), (''side_effectful'', JBool (tl_side_effectful tool))]"

definition agent_dict :: "agent_identity \<Rightarrow> json" where
  "agent_dict agent = JObj [(''id'', JStr (uuid_str (ag_id agent))), (''user_id'', JStr (uuid_str (ag_user_id agent))),
     (''name'', JStr (ag_name agent)), (''allowed_scopes'', strings (ag_allowed_scopes agent)),
     (''created_at'', iso (Some (ag_created_at agent)))]"

definition account_dict :: "connected_account \<Rightarrow> json" where
  "account_dict account = JObj [(''id'', JStr (uuid_str (ca_id account))), (''user_id'', JStr (uuid_str (ca_user_id account))),
     (''provider'', JStr (ca_provider account)), (''scopes_granted'', strings (ca_scopes_granted account)),
     (''expires_at'', iso (ca_expires_at account)), (''created_at'', iso (Some (ca_created_at account)))]"

definition grant_status :: "grant \<Rightarrow> datetime \<Rightarrow> string" where
  "grant_status g now =
     (if gr_revoked_at g \<noteq> None then ''revoked''
      else if instant (gr_expires_at g) \<le> instant now then ''expired''
      else ''active'')"

definition grant_dict :: "datetime \<Rightarrow> grant \<Rightarrow> json" where
  "grant_dict now g = JObj [(''id'', JStr (uuid_str (gr_id g))), (''agent_id'', JStr (uuid_str (gr_agent_id g))),
     (''connected_account_id'', JStr (uuid_str (gr_connected_account_id g))), (''tool_name'', JStr (gr_tool_name g)),
     (''scope'', JStr (gr_scope g)), (''issued_at'', iso (Some (gr_issued_at g))), (''expires_at'', iso (Some (gr_expires_at g))),
     (''revoked_at'', iso (gr_revoked_at g)), (''status'', JStr (grant_status g now))]"

definition audit_dict :: "audit_row \<Rightarrow> json" where
  "audit_dict row = JObj [(''id'', JStr (uuid_str (au_id row))), (''grant_id'', JStr (uuid_str (au_grant_id row))),
     (''tool_name'', JStr (au_tool_name row)), (''arguments_hash'', JStr (au_arguments_hash row)),
     (''status'', JStr (au_status row)), (''latency_ms'', JInt (au_latency_ms row)), (''called_at'', iso (Some (au_called_at row)))]"

definition opt_str :: "string option \<Rightarrow> json" where
  "opt_str v = (case v of None \<Rightarrow> JNull | Some s \<Rightarrow> JStr s)"

definition outcome_dict :: "invoke_outcome \<Rightarrow> json" where
  "outcome_dict o' = JObj [(''status'', JStr (io_status o')), (''result'', io_result o'), (''error'', opt_str (io_error o')),
     (''latency_ms'', JInt (io_latency_ms o')), (''from_cache'', JBool (io_from_cache o')),
     (''denied_reason'', opt_str (io_denied_reason o'))]"

section \<open>The routes\<close>

definition list_tools :: "config \<Rightarrow> ('r, 'x, json) io" where
  "list_tools cf = ret (JList (map (\<lambda>(n, tool). tool_dict tool) (cf_tools cf)))"

definition list_agents :: "('r, 'x) services \<Rightarrow> ('r, 'x, json) io" where
  "list_agents S = with_session
     (bindM (select S (\<lambda>db. sort_key (\<lambda>a. instant (ag_created_at a)) (db_agents db))) (\<lambda>agents.
      ret (JList (map agent_dict agents))))"

definition create_agent :: "('r, 'x) services \<Rightarrow> string \<Rightarrow> string list \<Rightarrow> uuid option \<Rightarrow> ('r, 'x, json) io" where
  "create_agent S agent_name allowed_scopes user_id =
     bindM (case user_id of Some u \<Rightarrow> ret u | None \<Rightarrow> uuid4 S) (\<lambda>user_id.
     with_session
       (bindM (flush_row S (\<lambda>i now. \<lparr>ag_id = i, ag_user_id = user_id, ag_name = agent_name, ag_allowed_scopes = allowed_scopes,
           ag_created_at = now\<rparr>) insert_agent) (\<lambda>agent.
        bindM (commit S (insert_agent agent) []) (\<lambda>_.
        ret (agent_dict agent)))))"

definition list_accounts :: "('r, 'x) services \<Rightarrow> ('r, 'x, json) io" where
  "list_accounts S = with_session
     (bindM (select S (\<lambda>db. sort_key (\<lambda>a. instant (ca_created_at a)) (db_accounts db))) (\<lambda>accounts.
      ret (JList (map account_dict accounts))))"

text \<open>\<open>Query(50, ge=1, le=500)\<close>: other limits are refused before the route runs.\<close>

definition valid_limit :: "int \<Rightarrow> ('r, 'x, nat) io" where
  "valid_limit limit =
     (if 1 \<le> limit \<and> limit \<le> 500 then ret (nat limit) else raise (HTTPException 422 ''limit out of range''))"

definition list_grants :: "('r, 'x) services \<Rightarrow> int \<Rightarrow> ('r, 'x, json) io" where
  "list_grants S limit =
     bindM (valid_limit limit) (\<lambda>n. with_session
       (bindM (select S (\<lambda>db. take n (sort_key (\<lambda>g. - instant (gr_issued_at g)) (db_grants db)))) (\<lambda>grants.
        bindM utcnow (\<lambda>now.
        ret (JList (map (grant_dict now) grants))))))"

definition create_grant :: "('r, 'x) services \<Rightarrow> config \<Rightarrow> uuid \<Rightarrow> string \<Rightarrow> string \<Rightarrow> ('r, 'x, json) io" where
  "create_grant S cf agent_id tool_name requested_scope = with_http_errors (with_session
     (bindM (request_grant S cf agent_id tool_name requested_scope) (\<lambda>(token, g).
      ret (JObj [(''grant_id'', JStr (uuid_str (gr_id g))), (''grant_token'', JStr token),
                 (''expires_at'', iso (Some (gr_expires_at g)))]))))"

definition revoke_grant_route :: "('r, 'x) services \<Rightarrow> config \<Rightarrow> uuid \<Rightarrow> ('r, 'x, json) io" where
  "revoke_grant_route S cf grant_id =
     bindM (with_http_errors (with_session (revoke_grant S cf grant_id))) (\<lambda>_.
     ret (JObj [(''revoked'', JBool True)]))"

definition invoke_tool :: "('r, 'x) services \<Rightarrow> config \<Rightarrow> string \<Rightarrow> string \<Rightarrow> dict \<Rightarrow> string option \<Rightarrow> ('r, 'x, json) io" where
  "invoke_tool S cf grant_token tool_name arguments idempotency_key =
     bindM (invoke S cf grant_token tool_name arguments idempotency_key) (\<lambda>o'. ret (outcome_dict o'))"

definition demo_seed :: "('r, 'x) services \<Rightarrow> config \<Rightarrow> ('r, 'x, json) io" where
  "demo_seed S cf = with_session (seed_demo S cf)"

definition list_audit :: "('r, 'x) services \<Rightarrow> int \<Rightarrow> ('r, 'x, json) io" where
  "list_audit S limit =
     bindM (valid_limit limit) (\<lambda>n. with_session
       (bindM (select S (\<lambda>db. take n (sort_key (\<lambda>r. - instant (au_called_at r)) (db_audit db)))) (\<lambda>rows.
        ret (JList (map audit_dict rows)))))"

text \<open>The page itself: a static file that may be missing.\<close>

definition console_page :: "string option \<Rightarrow> exn + string" where
  "console_page html = (case html of Some t \<Rightarrow> Inr t | None \<Rightarrow> Inl (HTTPException 503 ''console UI not built''))"

datatype console_request =
    ListTools
  | ListAgents
  | CreateAgent string "string list" "uuid option"
  | ListAccounts
  | ListGrants int
  | CreateGrant uuid string string
  | RevokeGrantRoute uuid
  | InvokeToolRoute string string dict "string option"
  | DemoSeed
  | ListAudit int

text \<open>The API router with its dependency on the console token.\<close>

definition console_api :: "('r, 'x) services \<Rightarrow> config \<Rightarrow> string option \<Rightarrow> console_request \<Rightarrow> ('r, 'x, json) io" where
  "console_api S cf x_console_token request =
     bindM (require_console_auth (cf_settings cf) x_console_token) (\<lambda>_.
     case request of
       ListTools \<Rightarrow> list_tools cf
     | ListAgents \<Rightarrow> list_agents S
     | CreateAgent agent_name scopes user_id \<Rightarrow> create_agent S agent_name scopes user_id
     | ListAccounts \<Rightarrow> list_accounts S
     | ListGrants limit \<Rightarrow> list_grants S limit
     | CreateGrant agent_id tool_name scope \<Rightarrow> create_grant S cf agent_id tool_name scope
     | RevokeGrantRoute grant_id \<Rightarrow> revoke_grant_route S cf grant_id
     | InvokeToolRoute token tool_name arguments key \<Rightarrow> invoke_tool S cf token tool_name arguments key
     | DemoSeed \<Rightarrow> demo_seed S cf
     | ListAudit limit \<Rightarrow> list_audit S limit)"

section \<open>Authentication\<close>

text \<open>
  With a console token configured, no route of the API does anything for a
  request that does not carry exactly that token: the request fails, and nothing is
  read, written or sent.
\<close>

theorem console_api_locked:
  assumes "console_token (cf_settings cf) \<noteq> []" and "x_console_token \<noteq> Some (console_token (cf_settings cf))"
  shows "\<exists>e. console_api S cf x_console_token request w = (Inl e, w)"
  using assms
  by (auto simp: console_api_def require_console_auth_def compare_digest_def bindM_def Let_def split: option.splits)

theorem console_api_locked_witness:
  "\<exists>e. console_api sample_services (sample_config\<lparr>cf_settings := sample_settings\<lparr>console_token := ''secret''\<rparr>\<rparr>) (Some ''guess'')
     ListAccounts sample_start = (Inl e, sample_start)"
  by (rule console_api_locked) simp_all

section \<open>The status shown and the status enforced\<close>

lemma status_active: "grant_status g now = ''active'' \<longleftrightarrow> gr_revoked_at g = None \<and> instant now < instant (gr_expires_at g)"
  by (auto simp: grant_status_def)

text \<open>
  The grants the console shows as active are exactly the ones the concurrency
  limit counts.
\<close>

theorem console_shows_counted_grants:
  "active_count db (instant now) agent_id tool_name scope =
   length (filter (\<lambda>g. gr_agent_id g = agent_id \<and> gr_tool_name g = tool_name \<and> gr_scope g = scope \<and>
     grant_status g now = ''active'') (db_grants db))"
  by (simp add: active_count_def is_active_def [abs_def] status_active conj_assoc)

text \<open>
  A grant the console shows as revoked or expired is refused by the invoke
  service at that moment, with the status as the reason of the denial, before
  anything else is looked at.
\<close>

theorem console_status_is_enforced:
  assumes "grant_status g (Aware (w_now w)) \<noteq> ''active''"
  shows "\<exists>o'. invoke_resolved S cf g h tool_name arguments key False start w = (Inr o', w) \<and>
    io_status o' = ''denied'' \<and> io_denied_reason o' = Some (grant_status g (Aware (w_now w)))"
  using assms by (auto simp: invoke_resolved_def grant_status_def outcome_run utcnow_run bindM_def split: if_splits)

theorem console_status_is_enforced_witness:
  "\<exists>o'. invoke_resolved sample_services sample_config (sample_grant\<lparr>gr_expires_at := Aware 0\<rparr>) [] ''drive.read'' [] None False 0 sample_start =
      (Inr o', sample_start) \<and>
    io_status o' = ''denied'' \<and> io_denied_reason o' = Some ''expired''"
  using console_status_is_enforced [of "sample_grant\<lparr>gr_expires_at := Aware 0\<rparr>" sample_start sample_services sample_config "[]"
      "''drive.read''" "[]" None 0]
  by (simp add: grant_status_def sample_grant_def new_grant_def)

section \<open>What the listings leave out\<close>

definition hide_account :: "connected_account \<Rightarrow> connected_account" where
  "hide_account a = a\<lparr>ca_encrypted_access_token := [], ca_encrypted_refresh_token := None\<rparr>"

definition hide_grant :: "grant \<Rightarrow> grant" where
  "hide_grant g = g\<lparr>gr_token_hash := []\<rparr>"

definition hide_secrets :: "database \<Rightarrow> database" where
  "hide_secrets db = db\<lparr>db_accounts := map hide_account (db_accounts db), db_grants := map hide_grant (db_grants db)\<rparr>"

fun is_listing :: "console_request \<Rightarrow> bool" where
  "is_listing ListTools = True"
| "is_listing ListAgents = True"
| "is_listing ListAccounts = True"
| "is_listing (ListGrants _) = True"
| "is_listing (ListAudit _) = True"
| "is_listing _ = False"

lemma sort_key_map: "(\<And>x. f (g x) = f x) \<Longrightarrow> sort_key f (map g xs) = map g (sort_key f xs)"
proof (induction xs)
  case (Cons x xs)
  have "insort_key f (g y) (map g ys) = map g (insort_key f y ys)" for y ys
    using Cons.prems by (induction ys) auto
  then show ?case using Cons by simp
qed simp

lemma hidden_dicts [simp]:
  "account_dict (hide_account a) = account_dict a" "grant_dict now (hide_grant g) = grant_dict now g"
  by (simp_all add: account_dict_def hide_account_def grant_dict_def hide_grant_def grant_status_def)

lemma hidden_sorts:
  "sort_key (\<lambda>a. instant (ca_created_at a)) (map hide_account as) = map hide_account (sort_key (\<lambda>a. instant (ca_created_at a)) as)"
  "sort_key (\<lambda>g. - instant (gr_issued_at g)) (map hide_grant gs) = map hide_grant (sort_key (\<lambda>g. - instant (gr_issued_at g)) gs)"
  by (rule sort_key_map, simp add: hide_account_def hide_grant_def)+

text \<open>
  C35: the listings of the console do not depend on the encrypted tokens of the
  accounts nor on the token hashes of the grants: with those columns blanked in every
  row, each listing answers the same.
\<close>

theorem listings_hide_credentials:
  assumes "quiet S" and "is_listing request"
  shows "fst (console_api S cf x_console_token request (w\<lparr>w_db := hide_secrets (w_db w)\<rparr>)) =
    fst (console_api S cf x_console_token request w)"
  using assms(2)
  by (cases request)
    (simp_all add: console_api_def require_console_auth_def list_tools_def list_agents_def list_accounts_def list_grants_def
      list_audit_def valid_limit_def with_session_def end_transaction_def select_quiet [OF assms(1)] utcnow_run bindM_def catchM_def
      Let_def hide_secrets_def hidden_sorts take_map o_def split: option.split sum.split)

theorem listings_hide_credentials_witness:
  "fst (console_api sample_services sample_config None ListAccounts (sample_start\<lparr>w_db := hide_secrets sample_db\<rparr>)) =
     fst (console_api sample_services sample_config None ListAccounts sample_start) \<and>
   hide_secrets sample_db \<noteq> sample_db"
proof -
  have "hide_secrets sample_db \<noteq> sample_db"
    by (simp add: hide_secrets_def sample_db_def sample_account_def hide_account_def empty_db_def)
  then show ?thesis
    using listings_hide_credentials [of sample_services ListAccounts sample_config None sample_start] by simp
qed

section \<open>Timestamps\<close>

text \<open>
  The console shows timestamps exactly.  Two columns shown with the same text,
  within the range of \<open>datetime\<close>, hold the same instant, whether the database kept
  their timezone or not.
\<close>

theorem iso_is_exact:
  assumes "in_range (instant d)" and "in_range (instant d')" and "iso (Some d) = iso (Some d')"
  shows "ensure_aware (Some d) = ensure_aware (Some d')"
  using isoformat_inject [OF assms(1,2)] assms(3) by (simp add: iso_def)

theorem iso_is_exact_witness:
  "iso (Some (Naive 1700000000000001)) = iso (Some (Aware 1700000000000001)) \<and>
   ensure_aware (Some (Naive 1700000000000001)) = ensure_aware (Some (Aware 1700000000000001))"
proof -
  have i: "iso (Some (Naive 1700000000000001)) = iso (Some (Aware 1700000000000001))" by (simp add: iso_def)
  show ?thesis
    using iso_is_exact [of "Naive 1700000000000001" "Aware 1700000000000001"] i by (simp add: in_range_def)
qed

end
