(* ===== verification/Cb_Tables.thy ===== *)
theory Cb_Tables
  imports Cb_Servicer Cb_Console
begin

text \<open>
  Invariants of the tables.  Every operation of the broker changes the database only
  through the statements of \<open>Cb_Models\<close>; the locale \<open>operation_invariant\<close> turns a
  predicate on tables and time that these statements keep into one that every operation
  keeps, on every exit and under every interleaving with an environment that keeps it
  too.  Inserting a grant is left to \<open>request_grant\<close>, which must keep the predicate under
  the configurations \<open>C\<close>; \<open>table_invariant\<close> is the case of a predicate on the tables alone
  that every inserted grant keeps.  Instances are the integrity of the schema, the growth
  of the tables and the concurrency limit.
\<close>

section \<open>From statements to operations\<close>

locale operation_invariant =
  fixes S :: "('r, 'x) services" and T :: "database \<Rightarrow> int \<Rightarrow> bool" and C :: "config \<Rightarrow> bool"
  assumes T_env: "env_stable S (\<lambda>w. T (w_db w) (w_now w))"
    and T_update: "\<And>i c db db' t. T db t \<Longrightarrow> update_account i c db = Inr db' \<Longrightarrow> T db' t"
    and T_revoke: "\<And>i u db db' t. T db t \<Longrightarrow> update_grant i (\<lambda>g. g\<lparr>gr_revoked_at := Some u\<rparr>) db = Inr db' \<Longrightarrow> T db' t"
    and T_audit: "\<And>r db db' t. T db t \<Longrightarrow> insert_audit r db = Inr db' \<Longrightarrow> T db' t"
    and T_account: "\<And>a db db' t. T db t \<Longrightarrow> insert_account a db = Inr db' \<Longrightarrow> T db' t"
    and T_agent: "\<And>a db db' t. T db t \<Longrightarrow> insert_agent a db = Inr db' \<Longrightarrow> T db' t"
    and T_issue: "\<And>cf a tn sc. C cf \<Longrightarrow> keeps (\<lambda>w. T (w_db w) (w_now w)) (request_grant S cf a tn sc)"
begin

abbreviation I :: "('r, 'x) world \<Rightarrow> bool" where
  "I w \<equiv> T (w_db w) (w_now w)"

lemma T_updates: "T db t \<Longrightarrow> update_accounts cs db = Inr db' \<Longrightarrow> T db' t"
  by (induction cs db rule: update_accounts.induct) (auto split: sum.splits intro: T_update)

lemma core_I: "core I"
  by (simp add: core_def)

lemma score_I: "score I"
  by (rule core_score [OF core_I])

lemma keeps_commit_T:
  assumes "\<And>db db' t. T db t \<Longrightarrow> ins db = Inr db' \<Longrightarrow> T db' t"
  shows "keeps I (commit S ins evs)"
  by (rule keeps_commit [OF T_env core_I]) (auto intro: assms T_updates)

lemmas commits =
  keeps_commit_T [of "insert_audit r" for r, OF T_audit]
  keeps_commit_T [of "insert_account a" for a, OF T_account]
  keeps_commit_T [of "insert_agent a" for a, OF T_agent]
  keeps_commit_T [of "update_grant i (\<lambda>g. g\<lparr>gr_revoked_at := Some t\<rparr>)" for i t, OF T_revoke]

lemma keeps_in_session: "keeps I m \<Longrightarrow> keeps I (with_session m)"
  by (rule triple_with_session) (simp_all add: core_I)

end

sublocale operation_invariant \<subseteq> call_invariant S "\<lambda>w. T (w_db w) (w_now w)"
  by unfold_locales (auto simp: core_def T_env intro: T_updates)

context operation_invariant
begin

lemma keeps_revoke_grant: "keeps I (revoke_grant S cf gid)"
  unfolding revoke_grant_def by (intro wp commits T_env score_I)

lemma keeps_record_call: "keeps I (record_call S gid tn args st lat)"
  unfolding record_call_def Let_def by (intro wp commits score_I)

lemma keeps_invoke: "keeps I (invoke S cf token tn args k)"
  unfolding invoke_def resolve_and_invoke_def invoke_grant_def Let_def
  by (intro wp keeps_in_session keeps_backstop keeps_record_call T_env score_I)

lemma keeps_connect: "keeps I (callback S cf provider c s err)"
  unfolding callback_def require_google_def exchange_for_user_def connect_account_def store_account_def verify_state_def
  by (intro wp keeps_exchange_code keeps_in_session commits T_env score_I; simp)

lemma keeps_authorize: "keeps I (authorize S cf provider u)"
  unfolding authorize_def require_google_def make_state_def Let_def by (intro wp score_I)

lemma keeps_guard: "keeps I m \<Longrightarrow> keeps I (rpc_error_guard m)"
  unfolding rpc_error_guard_def abort_def by (intro wp)

lemmas services_keep = keeps_in_session T_issue keeps_revoke_grant keeps_invoke T_env core_I score_I

lemma keeps_RequestGrant: "C cf \<Longrightarrow> keeps I (RequestGrant S cf rq)"
  unfolding RequestGrant_def parse_uuid_def grant_denied_def abort_def by (intro keeps_guard wp services_keep)

lemma keeps_InvokeTool: "keeps I (InvokeTool S cf J iq)"
  unfolding InvokeTool_def abort_def Let_def by (intro keeps_guard wp services_keep)

lemma keeps_RevokeGrant: "keeps I (RevokeGrant S cf raw)"
  unfolding RevokeGrant_def parse_uuid_def abort_def by (intro keeps_guard wp services_keep)

lemma keeps_seed_demo: "keeps I (seed_demo S cf)"
proof -
  have "keeps I (commit S (\<lambda>db. case insert_if b insert_agent a db of
      Inl e \<Rightarrow> Inl e | Inr db' \<Rightarrow> insert_if d insert_account c db') [])" for a b c d
    by (rule keeps_commit_T) (auto simp: insert_if_def split: if_splits sum.splits intro: T_agent T_account)
  then show ?thesis
    unfolding seed_demo_def seed_agent_def seed_account_def by (intro wp T_env score_I)
qed

lemma keeps_console:
  assumes "C cf"
  shows "keeps I (console_api S cf header request)"
proof -
  have "keeps I (case request of
       ListTools \<Rightarrow> list_tools cf
     | ListAgents \<Rightarrow> list_agents S
     | CreateAgent agent_name scopes user_id \<Rightarrow> create_agent S agent_name scopes user_id
     | ListAccounts \<Rightarrow> list_accounts S
     | ListGrants limit \<Rightarrow> list_grants S limit
     | CreateGrant agent_id tool_name scope \<Rightarrow> create_grant S cf agent_id tool_name scope
     | RevokeGrantRoute grant_id \<Rightarrow> revoke_grant_route S cf grant_id
     | InvokeToolRoute token tool_name arguments key \<Rightarrow> invoke_tool S cf token tool_name arguments key
     | DemoSeed \<Rightarrow> demo_seed S cf
     | ListAudit limit \<Rightarrow> list_audit S limit)"
    unfolding list_tools_def list_agents_def create_agent_def list_accounts_def list_grants_def create_grant_def
      revoke_grant_route_def invoke_tool_def demo_seed_def list_audit_def valid_limit_def with_http_errors_def
    by (cases request; simp only: console_request.case;
        intro wp keeps_seed_demo commits services_keep assms)
  then show ?thesis
    unfolding console_api_def require_console_auth_def Let_def by (intro keeps_bindM) (intro wp)
qed

end

locale table_invariant =
  fixes S :: "('r, 'x) services" and T :: "database \<Rightarrow> bool"
  assumes stable: "env_stable S (\<lambda>w. T (w_db w))"
    and update: "\<And>i c db db'. T db \<Longrightarrow> update_account i c db = Inr db' \<Longrightarrow> T db'"
    and revoke: "\<And>i t db db'. T db \<Longrightarrow> update_grant i (\<lambda>g. g\<lparr>gr_revoked_at := Some t\<rparr>) db = Inr db' \<Longrightarrow> T db'"
    and issue: "\<And>g db db'. T db \<Longrightarrow> insert_grant g db = Inr db' \<Longrightarrow> T db'"
    and audit: "\<And>r db db'. T db \<Longrightarrow> insert_audit r db = Inr db' \<Longrightarrow> T db'"
    and account: "\<And>a db db'. T db \<Longrightarrow> insert_account a db = Inr db' \<Longrightarrow> T db'"
    and agent: "\<And>a db db'. T db \<Longrightarrow> insert_agent a db = Inr db' \<Longrightarrow> T db'"
begin

lemma updates: "T db \<Longrightarrow> update_accounts cs db = Inr db' \<Longrightarrow> T db'"
  by (induction cs db rule: update_accounts.induct) (auto split: sum.splits intro: update)

lemma keeps_request_grant: "keeps (\<lambda>w. T (w_db w)) (request_grant S cf a tn sc)"
proof -
  have c: "core (\<lambda>w :: ('r, 'x) world. T (w_db w))" by (simp add: core_def)
  have g: "keeps (\<lambda>w. T (w_db w)) (commit S (insert_grant g) evs)" for g evs
    by (rule keeps_commit [OF stable c]) (auto intro: issue updates)
  show ?thesis
    unfolding request_grant_def issue_grant_def Let_def
    by (intro wp keeps_rate_limit g stable c core_score [OF c])
qed

end

sublocale table_invariant \<subseteq> ops: operation_invariant S "\<lambda>db t. T db" C for C
  by (rule operation_invariant.intro [OF stable update revoke audit account agent keeps_request_grant])

section \<open>The tables only grow\<close>

text \<open>
  A later state of a grant: every column but the time of revocation is as it was, and
  a revocation is not undone.
\<close>

definition later_grant :: "grant \<Rightarrow> grant \<Rightarrow> bool" where
  "later_grant g g' \<longleftrightarrow> g' = g\<lparr>gr_revoked_at := gr_revoked_at g'\<rparr> \<and> (gr_revoked_at g' = None \<longrightarrow> gr_revoked_at g = None)"

text \<open>A later state of a connected account: its credential may have been replaced.\<close>

definition later_account :: "connected_account \<Rightarrow> connected_account \<Rightarrow> bool" where
  "later_account a a' \<longleftrightarrow> a' = a\<lparr>ca_encrypted_access_token := ca_encrypted_access_token a',
     ca_encrypted_refresh_token := ca_encrypted_refresh_token a', ca_expires_at := ca_expires_at a'\<rparr>"

text \<open>The rows of \<open>xs\<close>, each in a later state, followed by new ones.\<close>

definition grown :: "('a \<Rightarrow> 'a \<Rightarrow> bool) \<Rightarrow> 'a list \<Rightarrow> 'a list \<Rightarrow> bool" where
  "grown R xs ys \<longleftrightarrow> (\<exists>zs us. ys = zs @ us \<and> list_all2 R xs zs)"

definition extends :: "database \<Rightarrow> database \<Rightarrow> bool" where
  "extends db db' \<longleftrightarrow> grown (=) (db_agents db) (db_agents db') \<and> grown later_account (db_accounts db) (db_accounts db') \<and>
     grown later_grant (db_grants db) (db_grants db') \<and> grown (=) (db_audit db) (db_audit db')"

lemma grown_refl: "(\<And>x. R x x) \<Longrightarrow> grown R xs xs"
  unfolding grown_def by (intro exI [of _ xs] exI [of _ "[]"]) (simp add: list_all2_refl)

lemma grown_append: "grown R xs ys \<Longrightarrow> grown R xs (ys @ us)"
  unfolding grown_def by (metis append_assoc)

lemma grown_trans:
  assumes "transp R" and "grown R xs ys" and "grown R ys zs"
  shows "grown R xs zs"
proof -
  obtain as us where a: "ys = as @ us" "list_all2 R xs as" using assms(2) by (auto simp: grown_def)
  obtain bs vs where b: "zs = bs @ vs" "list_all2 R ys bs" using assms(3) by (auto simp: grown_def)
  obtain cs ds where c: "bs = cs @ ds" "list_all2 R as cs" using a(1) b(2) by (auto simp: list_all2_append1)
  have "list_all2 R xs cs" by (rule list_all2_trans [OF transpD [OF assms(1)] a(2) c(2)])
  then show ?thesis unfolding grown_def b(1) c(1) by (intro exI [of _ cs] exI [of _ "ds @ vs"]) simp
qed

lemma grown_map: "(\<And>x. R x (f x)) \<Longrightarrow> grown R xs (map f xs)"
  unfolding grown_def by (intro exI [of _ "map f xs"] exI [of _ "[]"]) (simp add: list_all2_map2 list_all2_refl)

lemma grown_row: "grown R xs ys \<Longrightarrow> x \<in> set xs \<Longrightarrow> \<exists>y \<in> set ys. R x y"
  by (fastforce simp: grown_def list_all2_conv_all_nth in_set_conv_nth nth_append)

lemma later_refl [simp]: "later_grant g g" "later_account a a"
  by (simp_all add: later_grant_def later_account_def)

lemma later_trans: "transp later_grant" "transp later_account"
  by (rule transpI, case_tac x, case_tac y, case_tac z, auto simp: later_grant_def later_account_def)+

lemma extends_refl [simp]: "extends db db"
  by (simp add: extends_def grown_refl)

lemma extends_trans: "extends a b \<Longrightarrow> extends b c \<Longrightarrow> extends a c"
  unfolding extends_def
  using grown_trans [OF transp_on_equality, of "db_agents a" "db_agents b" "db_agents c"]
    grown_trans [OF later_trans(2), of "db_accounts a" "db_accounts b" "db_accounts c"]
    grown_trans [OF later_trans(1), of "db_grants a" "db_grants b" "db_grants c"]
    grown_trans [OF transp_on_equality, of "db_audit a" "db_audit b" "db_audit c"] by simp

lemma extends_statements:
  "update_account i c db = Inr db' \<Longrightarrow> extends db db'"
  "update_grant i (\<lambda>g. g\<lparr>gr_revoked_at := Some t\<rparr>) db = Inr db' \<Longrightarrow> extends db db'"
  "insert_grant g db = Inr db' \<Longrightarrow> extends db db'" "insert_audit r db = Inr db' \<Longrightarrow> extends db db'"
  "insert_account a db = Inr db' \<Longrightarrow> extends db db'" "insert_agent b db = Inr db' \<Longrightarrow> extends db db'"
proof -
  have "later_account a (set_column c a)" for a by (cases c) (auto simp: later_account_def)
  then show "update_account i c db = Inr db' \<Longrightarrow> extends db db'"
    by (auto simp: update_account_def extends_def grown_refl split: if_splits intro!: grown_map)
  show "update_grant i (\<lambda>g. g\<lparr>gr_revoked_at := Some t\<rparr>) db = Inr db' \<Longrightarrow> extends db db'"
    by (auto simp: update_grant_def extends_def grown_refl later_grant_def split: if_splits intro!: grown_map)
qed (auto dest!: insert_frames simp: extends_def grown_refl intro!: grown_append)

section \<open>The integrity of the schema\<close>

definition wf_db :: "database \<Rightarrow> bool" where
  "wf_db db \<longleftrightarrow>
     distinct (map ag_id (db_agents db)) \<and> distinct (map ca_id (db_accounts db)) \<and>
     distinct (map gr_id (db_grants db)) \<and> distinct (map gr_token_hash (db_grants db)) \<and> distinct (map au_id (db_audit db)) \<and>
     gr_agent_id ` set (db_grants db) \<subseteq> ag_id ` set (db_agents db) \<and>
     gr_connected_account_id ` set (db_grants db) \<subseteq> ca_id ` set (db_accounts db) \<and>
     au_grant_id ` set (db_audit db) \<subseteq> gr_id ` set (db_grants db)"

lemma wf_empty [simp]: "wf_db empty_db"
  by (simp add: wf_db_def empty_db_def)

lemma get_ids:
  "get_agent db i \<noteq> None \<longleftrightarrow> i \<in> ag_id ` set (db_agents db)"
  "get_account db i \<noteq> None \<longleftrightarrow> i \<in> ca_id ` set (db_accounts db)"
  "get_grant db i \<noteq> None \<longleftrightarrow> i \<in> gr_id ` set (db_grants db)"
  by (auto simp: get_agent_def get_account_def get_grant_def find_None_iff)

text \<open>What the constraints guarantee of an accepted row.\<close>

lemma accepted_rows:
  "insert_grant g db = Inr db' \<Longrightarrow> db' = db\<lparr>db_grants := db_grants db @ [g]\<rparr> \<and>
     gr_id g \<notin> gr_id ` set (db_grants db) \<and> gr_token_hash g \<notin> gr_token_hash ` set (db_grants db) \<and>
     gr_agent_id g \<in> ag_id ` set (db_agents db) \<and> gr_connected_account_id g \<in> ca_id ` set (db_accounts db)"
  "insert_audit r db = Inr db' \<Longrightarrow> db' = db\<lparr>db_audit := db_audit db @ [r]\<rparr> \<and>
     au_id r \<notin> au_id ` set (db_audit db) \<and> au_grant_id r \<in> gr_id ` set (db_grants db)"
  "insert_account a db = Inr db' \<Longrightarrow> db' = db\<lparr>db_accounts := db_accounts db @ [a]\<rparr> \<and> ca_id a \<notin> ca_id ` set (db_accounts db)"
  "insert_agent b db = Inr db' \<Longrightarrow> db' = db\<lparr>db_agents := db_agents db @ [b]\<rparr> \<and> ag_id b \<notin> ag_id ` set (db_agents db)"
  using get_ids(1) [of db "gr_agent_id g"] get_ids(2) [of db "gr_connected_account_id g"] get_ids(3) [of db "au_grant_id r"]
  by (auto simp: insert_grant_def insert_audit_def insert_account_def insert_agent_def split: if_splits)

lemma map_column: "(\<And>x. f (g x) = f x) \<Longrightarrow> map f (map g xs) = map f xs" "(\<And>x. f (g x) = f x) \<Longrightarrow> f ` set (map g xs) = f ` set xs"
  by (induction xs) auto

lemma wf_statements:
  assumes "wf_db db"
  shows "update_account i c db = Inr db' \<Longrightarrow> wf_db db'"
    "update_grant i (\<lambda>g. g\<lparr>gr_revoked_at := Some t\<rparr>) db = Inr db' \<Longrightarrow> wf_db db'"
    "insert_grant g db = Inr db' \<Longrightarrow> wf_db db'" "insert_audit r db = Inr db' \<Longrightarrow> wf_db db'"
    "insert_account a db = Inr db' \<Longrightarrow> wf_db db'" "insert_agent b db = Inr db' \<Longrightarrow> wf_db db'"
proof -
  show "update_account i c db = Inr db' \<Longrightarrow> wf_db db'"
    using assms by (auto simp only: update_account_def split: if_splits) (simp add: wf_db_def map_column del: map_map set_map)
  show "update_grant i (\<lambda>g. g\<lparr>gr_revoked_at := Some t\<rparr>) db = Inr db' \<Longrightarrow> wf_db db'"
    using assms by (auto simp only: update_grant_def split: if_splits) (simp add: wf_db_def map_column del: map_map set_map)
  show "insert_grant g db = Inr db' \<Longrightarrow> wf_db db'" by (drule accepted_rows(1)) (use assms in \<open>simp add: wf_db_def subset_insertI2\<close>)
  show "insert_audit r db = Inr db' \<Longrightarrow> wf_db db'" by (drule accepted_rows(2)) (use assms in \<open>simp add: wf_db_def subset_insertI2\<close>)
  show "insert_account a db = Inr db' \<Longrightarrow> wf_db db'" by (drule accepted_rows(3)) (use assms in \<open>simp add: wf_db_def subset_insertI2\<close>)
  show "insert_agent b db = Inr db' \<Longrightarrow> wf_db db'" by (drule accepted_rows(4)) (use assms in \<open>simp add: wf_db_def subset_insertI2\<close>)
qed

text \<open>
  A system of brokers: what happens to the tables while one operation waits is what
  operations like it do.
\<close>

definition respects_tables :: "('r, 'x) services \<Rightarrow> bool" where
  "respects_tables S \<longleftrightarrow>
     (\<forall>w. extends (w_db w) (w_db (env S w)) \<and> (wf_db (w_db w) \<longrightarrow> wf_db (w_db (env S w))))"

lemma respects_stable:
  assumes "respects_tables S"
  shows "env_stable S (\<lambda>w. wf_db (w_db w) \<and> extends db (w_db w))"
  using assms by (auto simp: env_stable_def respects_tables_def intro: extends_trans)

lemma tables_invariant: "respects_tables S \<Longrightarrow> table_invariant S (\<lambda>db'. wf_db db' \<and> extends db db')"
  by (rule table_invariant.intro [OF respects_stable]) (auto intro: wf_statements extends_trans extends_statements)

text \<open>A broker that is alone: no one else touches its database.\<close>

definition alone :: "('r, 'x) services \<Rightarrow> ('r, 'x) services" where
  "alone S = S\<lparr>sv_interfere := (\<lambda>w. w)\<rparr>"

lemma alone_respects [simp]: "respects_tables (alone S)"
  by (simp add: respects_tables_def alone_def env_def)

interpretation single: table_invariant "alone S" "\<lambda>db'. wf_db db' \<and> extends db db'" for S :: "('r, 'x) services" and db
  by (rule tables_invariant) simp

end
