(* ===== verification/Cb_Log_Setup.thy ===== *)
theory Cb_Log_Setup
  imports Cb_Logging
begin

text \<open>
  \<open>configure_logging\<close> of \<open>credbroker/logging_config.py\<close> and what the root logger
  writes once it has run.

  A handler is its formatter's format string and its filters.  Another filter than
  the redaction filter decides whether a record is written and leaves it alone, as
  \<open>logging.Filter\<close> does.  A record passes from handler to handler as one object, so a
  rewriting by one handler's filter is seen by the next.
\<close>

section \<open>Handlers\<close>

datatype log_filter = SecretRedactionFilter | OtherFilter "log_record \<Rightarrow> bool"

record log_handler =
  ha_format :: string
  ha_filters :: "log_filter list"

record root_logger =
  rl_level :: int
  rl_handlers :: "log_handler list"

fun is_redaction :: "log_filter \<Rightarrow> bool" where
  "is_redaction SecretRedactionFilter = True"
| "is_redaction (OtherFilter _) = False"

definition addFilter :: "log_handler \<Rightarrow> log_handler" where
  "addFilter h =
     (if list_ex is_redaction (ha_filters h) then h
      else h\<lparr>ha_filters := ha_filters h @ [SecretRedactionFilter]\<rparr>)"

definition stream_handler :: log_handler where
  "stream_handler = \<lparr>ha_format = ''%(asctime)s %(levelname)s %(name)s %(message)s'', ha_filters = []\<rparr>"

definition configure_logging :: "int \<Rightarrow> root_logger \<Rightarrow> root_logger" where
  "configure_logging level logger =
     (let logger1 = logger\<lparr>rl_level := level\<rparr>;
          logger2 = (if rl_handlers logger1 = [] then logger1\<lparr>rl_handlers := [stream_handler]\<rparr> else logger1)
      in logger2\<lparr>rl_handlers := map addFilter (rl_handlers logger2)\<rparr>)"

section \<open>What is written\<close>

text \<open>
  \<open>Handler.handle\<close>: the filters run in order and each may stop the record; a record
  that passes is formatted and written.
\<close>

fun run_filters :: "string list \<Rightarrow> log_filter list \<Rightarrow> log_record \<Rightarrow> bool \<times> log_record" where
  "run_filters reg [] r = (True, r)"
| "run_filters reg (SecretRedactionFilter # fs) r = run_filters reg fs (redaction_filter reg r)"
| "run_filters reg (OtherFilter p # fs) r = (if p r then run_filters reg fs r else (False, r))"

fun call_handlers :: "string list \<Rightarrow> log_handler list \<Rightarrow> log_record \<Rightarrow> string list" where
  "call_handlers reg [] r = []"
| "call_handlers reg (h # hs) r =
     (case run_filters reg (ha_filters h) r of
        (passed, r') \<Rightarrow> (if passed then written_parts r' else []) @ call_handlers reg hs r')"

section \<open>Every record is redacted\<close>

text \<open>The message of a record that formats still formats after the filters.\<close>

definition formats :: "log_record \<Rightarrow> bool" where
  "formats r \<longleftrightarrow> (\<exists>m. lr_message r = Inr m)"

lemma redaction_formats: "formats r \<Longrightarrow> formats (redaction_filter reg r)"
  by (auto simp: formats_def redaction_filter_def filter_exc_def Let_def split: option.splits sum.splits)

lemma filters_format: "formats r \<Longrightarrow> formats (snd (run_filters reg fs r))"
  by (induction reg fs r rule: run_filters.induct) (auto simp: redaction_formats)

text \<open>A record from which every part hides \<open>s\<close>.\<close>

definition hides :: "string \<Rightarrow> log_record \<Rightarrow> bool" where
  "hides s r \<longleftrightarrow> (\<forall>p \<in> set (written_parts r). \<not> sublist s p)"

lemma redaction_hides: "scrubbable s \<Longrightarrow> s \<in> set reg \<Longrightarrow> formats r \<Longrightarrow> hides s (redaction_filter reg r)"
  using redaction_filter_hides [of s reg r] by (auto simp: hides_def formats_def)

lemma filters_keep_hidden:
  "scrubbable s \<Longrightarrow> s \<in> set reg \<Longrightarrow> formats r \<Longrightarrow> hides s r \<Longrightarrow> hides s (snd (run_filters reg fs r))"
  by (induction reg fs r rule: run_filters.induct) (auto simp: redaction_hides redaction_formats)

lemma passed_hides:
  "scrubbable s \<Longrightarrow> s \<in> set reg \<Longrightarrow> formats r \<Longrightarrow> list_ex is_redaction fs \<Longrightarrow>
   run_filters reg fs r = (True, r') \<Longrightarrow> hides s r'"
proof (induction reg fs r rule: run_filters.induct)
  case (2 reg fs r)
  have "hides s (snd (run_filters reg fs (redaction_filter reg r)))"
    using 2 by (intro filters_keep_hidden redaction_formats redaction_hides)
  then show ?case using "2.prems"(5) by simp
qed (auto split: if_splits)

lemma handlers_hide:
  "scrubbable s \<Longrightarrow> s \<in> set reg \<Longrightarrow> formats r \<Longrightarrow> \<forall>h \<in> set hs. list_ex is_redaction (ha_filters h) \<Longrightarrow>
   p \<in> set (call_handlers reg hs r) \<Longrightarrow> \<not> sublist s p"
proof (induction hs arbitrary: r)
  case (Cons h hs)
  obtain b r' where f: "run_filters reg (ha_filters h) r = (b, r')" by force
  have "formats r'" using filters_format [OF Cons.prems(3), of reg "ha_filters h"] f by simp
  then show ?case using Cons f passed_hides [of s reg r "ha_filters h" r'] by (auto simp: hides_def split: if_splits)
qed simp

lemma configured: "\<forall>h \<in> set (rl_handlers (configure_logging level logger)). list_ex is_redaction (ha_filters h)"
  by (auto simp: configure_logging_def Let_def addFilter_def)

lemma addFilter_twice: "addFilter (addFilter h) = addFilter h"
  by (simp add: addFilter_def)

text \<open>
  C29: once logging is configured, no handler writes a registered secret.  Whatever
  handlers and filters the root logger had, after \<open>configure_logging\<close> it has at least one
  handler; of a record whose message formats, nothing that any handler writes, be it the
  message, the traceback or the stack text, contains a registered secret (one of at
  least eight characters, without square brackets, other than the word \<open>REDACTED\<close>); and
  configuring again adds no second filter.
\<close>

theorem configured_logging_hides:
  assumes "scrubbable s" and "s \<in> set reg" and "lr_message r = Inr m"
  shows "rl_handlers (configure_logging level logger) \<noteq> [] \<and>
    (\<forall>p \<in> set (call_handlers reg (rl_handlers (configure_logging level logger)) r). \<not> sublist s p) \<and>
    configure_logging level (configure_logging level logger) = configure_logging level logger"
proof (intro conjI ballI)
  show "rl_handlers (configure_logging level logger) \<noteq> []" by (simp add: configure_logging_def Let_def)
  show "configure_logging level (configure_logging level logger) = configure_logging level logger"
    by (simp add: configure_logging_def Let_def addFilter_twice)
  show "\<not> sublist s p" if "p \<in> set (call_handlers reg (rl_handlers (configure_logging level logger)) r)" for p
    using handlers_hide [OF assms(1,2) _ configured that] assms(3) by (simp add: formats_def)
qed

text \<open>Two handlers were there before, one of them with a filter of its own.\<close>

theorem configured_logging_hides_witness:
  "let hs = rl_handlers (configure_logging 20 \<lparr>rl_level = 30, rl_handlers =
       [\<lparr>ha_format = ''%(message)s'', ha_filters = [OtherFilter (\<lambda>r. lr_exc_info r = None)]\<rparr>, stream_handler]\<rparr>) in
   length hs = 2 \<and>
   list_all (\<lambda>p. \<not> sublist ''ya29.secret-token'' p) (call_handlers [''ya29.secret-token''] hs
     \<lparr>lr_message = Inr ''sent ya29.secret-token'', lr_exc_info = None, lr_exc_text = None, lr_stack_info = Some ''at ya29.secret-token''\<rparr>)"
proof -
  let ?logger = "\<lparr>rl_level = 30, rl_handlers =
       [\<lparr>ha_format = ''%(message)s'', ha_filters = [OtherFilter (\<lambda>r. lr_exc_info r = None)]\<rparr>, stream_handler]\<rparr>"
  let ?r = "\<lparr>lr_message = Inr ''sent ya29.secret-token'', lr_exc_info = None, lr_exc_text = None, lr_stack_info = Some ''at ya29.secret-token''\<rparr>"
  have "length (rl_handlers (configure_logging 20 ?logger)) = 2" by (simp add: configure_logging_def Let_def)
  moreover have "scrubbable ''ya29.secret-token''" by (simp add: scrubbable_def MIN_SECRET_LEN_def)
  ultimately show ?thesis
    using configured_logging_hides [of "''ya29.secret-token''" "[''ya29.secret-token'']" ?r "''sent ya29.secret-token''" 20 ?logger]
    unfolding list_all_iff Let_def by (metis log_record.select_convs(1) list.set_intros(1))
qed

end
