(* ===== verification/Cb_App.thy ===== *)
theory Cb_App
  imports Cb_Invoke Cb_Log_Setup
begin

text \<open>
  How the broker is put together: \<open>create_app\<close> of \<open>app.py\<close>, \<open>build_grpc_server\<close> of
  \<open>grpcserver/server.py\<close>, \<open>build_servers\<close> and \<open>ensure_dev_jwt_keys\<close> of \<open>main.py\<close>.  Each of the
  two servers has an invoke service of its own: they share the Redis server, the tables
  and the HTTP client they are given, but not their circuit breakers.
\<close>

section \<open>The process\<close>

datatype resource = HttpClient nat | RedisClient | DbEngine

datatype posix_signal = SIGTERM | SIGINT | OtherSignal int

datatype life_event =
    Opened resource
  | GrpcStarted
  | GrpcStop int
  | Closed resource

record process =
  pr_logging :: root_logger
  pr_clients :: nat
  pr_handled :: "posix_signal list"
  pr_should_exit :: bool
  pr_events :: "life_event list"

type_synonym ('r, 'x) running = "('r, 'x) world \<times> process"

text \<open>A call into a library: it is recorded when it starts, and may raise.\<close>

type_synonym library = "process \<Rightarrow> life_event \<Rightarrow> exn option"

definition doing :: "library \<Rightarrow> life_event \<Rightarrow> (process, exn, unit) prog" where
  "doing F e = bindM (modM (\<lambda>p. p\<lparr>pr_events := pr_events p @ [e]\<rparr>)) (\<lambda>_.
     bindM (getM (\<lambda>p. F p e)) (\<lambda>r. case r of None \<Rightarrow> ret () | Some x \<Rightarrow> raise x))"

definition on_world :: "('w, exn, 'a) prog \<Rightarrow> ('w \<times> process, exn, 'a) prog" where
  "on_world m = (\<lambda>(w, p). case m w of (r, w') \<Rightarrow> (r, (w', p)))"

definition on_process :: "(process, exn, 'a) prog \<Rightarrow> ('w \<times> process, exn, 'a) prog" where
  "on_process m = (\<lambda>(w, p). case m p of (r, p') \<Rightarrow> (r, (w, p')))"

section \<open>Keys\<close>

text \<open>
  Generating an RSA key pair belongs to the cryptography library and is the parameter
  \<open>generate\<close>, which returns the two PEM texts.
\<close>

definition ensure_dev_jwt_keys :: "('x \<Rightarrow> (string \<times> string) \<times> 'x) \<Rightarrow> settings \<Rightarrow> ('r, 'x, settings) io" where
  "ensure_dev_jwt_keys generate st =
     (if jwt_private_key_pem st \<noteq> [] then ret st
      else bindM (draw generate) (\<lambda>(private_pem, public_pem).
        ret (st\<lparr>jwt_private_key_pem := private_pem, jwt_public_key_pem := public_pem\<rparr>)))"

section \<open>The HTTP application\<close>

record invoke_service =
  iv_config :: config
  iv_objects :: invoke_objects

definition new_invoke_service :: "config \<Rightarrow> nat option \<Rightarrow> (string \<rightharpoonup> circuit) option \<Rightarrow> invoke_service" where
  "new_invoke_service cf http_client circuits = \<lparr>iv_config = cf, iv_objects = new_objects http_client circuits\<rparr>"

record http_app =
  ap_invoke_service :: invoke_service
  ap_http_client :: nat
  ap_owns_client :: bool

text \<open>The client of \<open>create_app\<close> and whether the application owns it: an injected one belongs to the caller.\<close>

definition app_client :: "nat option \<Rightarrow> (process, exn, nat \<times> bool) prog" where
  "app_client http_client =
     (case http_client of
        None \<Rightarrow> bindM (getM pr_clients) (\<lambda>c. bindM (modM (\<lambda>p. p\<lparr>pr_clients := c + 1\<rparr>)) (\<lambda>_. ret (c, True)))
      | Some c \<Rightarrow> ret (c, False))"

text \<open>The collaborators backed by Redis are optional here.\<close>

definition create_app :: "settings \<Rightarrow> key_manager \<Rightarrow> registry \<Rightarrow> nat option \<Rightarrow> bool \<Rightarrow> (process, exn, http_app) prog" where
  "create_app st cipher tools http_client redis_client =
     bindM (app_client http_client) (\<lambda>(client, owns_client).
     bindM (if redis_client
            then bindM (liftE (new_store (idempotency_window_seconds st))) (\<lambda>store. ret (True, True, Some store))
            else ret (False, False, None)) (\<lambda>(grant_cache, rate_limiter, idempotency_store).
     ret \<lparr>ap_invoke_service = new_invoke_service
            \<lparr>cf_settings = st, cf_cipher = cipher, cf_tools = tools, cf_grant_cache = grant_cache,
             cf_rate_limiter = rate_limiter, cf_idempotency = idempotency_store\<rparr> (Some client) None,
          ap_http_client = client, ap_owns_client = owns_client\<rparr>))"

definition lifespan_exit :: "library \<Rightarrow> http_app \<Rightarrow> (process, exn, unit) prog" where
  "lifespan_exit F app = (if ap_owns_client app then doing F (Closed (HttpClient (ap_http_client app))) else ret ())"

section \<open>The two servers\<close>

text \<open>The part of \<open>uvicorn.Config\<close> that \<open>build_servers\<close> sets; \<open>log_config\<close> is a dictionary or \<open>None\<close>.\<close>

record http_server =
  hs_app :: http_app
  hs_host :: string
  hs_port :: int
  hs_log_level :: string
  hs_log_config :: "dict option"
  hs_access_log :: bool

record grpc_server =
  gs_config :: config
  gs_invoke_service :: invoke_service
  gs_address :: string

definition build_grpc_server :: "settings \<Rightarrow> key_manager \<Rightarrow> registry \<Rightarrow> nat option \<Rightarrow> (process, exn, grpc_server) prog" where
  "build_grpc_server st cipher tools http_client =
     bindM (liftE (new_store (idempotency_window_seconds st))) (\<lambda>store.
     let cf = \<lparr>cf_settings = st, cf_cipher = cipher, cf_tools = tools, cf_grant_cache = True,
               cf_rate_limiter = True, cf_idempotency = Some store\<rparr>
     in ret \<lparr>gs_config = cf, gs_invoke_service = new_invoke_service cf http_client None,
             gs_address = ''[::]:'' @ py_str_int (grpc_port st)\<rparr>)"

definition build_servers :: "settings \<Rightarrow> key_manager \<Rightarrow> registry \<Rightarrow> bool \<Rightarrow> nat \<Rightarrow> (process, exn, http_server \<times> grpc_server) prog" where
  "build_servers st cipher tools redis_client http_client =
     bindM (create_app st cipher tools (Some http_client) redis_client) (\<lambda>app.
     let http_server = \<lparr>hs_app = app, hs_host = http_host st, hs_port = http_port st, hs_log_level = ''info'',
                        hs_log_config = None, hs_access_log = False\<rparr>
     in bindM (build_grpc_server st cipher tools (Some http_client)) (\<lambda>grpc_server.
     ret (http_server, grpc_server)))"

section \<open>The two invoke services\<close>

text \<open>The world as the gRPC server's service sees it when the servers have been built.\<close>

definition show_objects :: "invoke_objects \<Rightarrow> invoke_objects \<Rightarrow> ('r, 'x) world \<Rightarrow> ('r, 'x) world" where
  "show_objects own peer w =
     w\<lparr>w_circuits := ob_circuits own, w_http_client := ob_http_client own, w_owns_http_client := ob_owns_http_client own,
       w_closed_clients := ob_closed_clients own, w_peer := peer\<rparr>"

definition own_objects :: "('r, 'x) world \<Rightarrow> invoke_objects" where
  "own_objects w = \<lparr>ob_circuits = w_circuits w, ob_http_client = w_http_client w, ob_owns_http_client = w_owns_http_client w,
     ob_closed_clients = w_closed_clients w\<rparr>"

text \<open>The other service's turn.\<close>

definition switch_service :: "('r, 'x) world \<Rightarrow> ('r, 'x) world" where
  "switch_service w = show_objects (w_peer w) (own_objects w) w"

lemma switch_keeps [simp]:
  "w_db (switch_service w) = w_db w" "w_now (switch_service w) = w_now w" "w_redis (switch_service w) = w_redis w"
  "w_trace (switch_service w) = w_trace w" "w_secrets (switch_service w) = w_secrets w" "w_ext (switch_service w) = w_ext w"
  "w_dirty (switch_service w) = w_dirty w" "w_locked (switch_service w) = w_locked w"
  by (simp_all add: switch_service_def show_objects_def)

lemma switch_objects [simp]:
  "own_objects (switch_service w) = w_peer w" "w_peer (switch_service w) = own_objects w"
  by (simp_all add: switch_service_def show_objects_def own_objects_def)

lemma switch_back [simp]: "switch_service (switch_service w) = w"
  by (cases w) (simp add: switch_service_def show_objects_def own_objects_def)

section \<open>What is built\<close>

text \<open>
  The servers are built exactly when the idempotency window is a second or more.  With
  Redis, they check calls with the same collaborators, and both invoke services hold
  the client that was passed in, own none and start without breakers; log records of
  the HTTP server go to the root logger, and requests are not logged.
\<close>

lemma build_servers_result:
  "build_servers st cipher tools True client p =
     (if idempotency_window_seconds st < 1 then (Inl (ValueError ''window_seconds must be >= 1''), p)
      else
        (let cf = \<lparr>cf_settings = st, cf_cipher = cipher, cf_tools = tools, cf_grant_cache = True,
                   cf_rate_limiter = True, cf_idempotency = Some (idempotency_window_seconds st)\<rparr>;
             service = \<lparr>iv_config = cf, iv_objects = new_objects (Some client) None\<rparr>
         in (Inr (\<lparr>hs_app = \<lparr>ap_invoke_service = service, ap_http_client = client, ap_owns_client = False\<rparr>,
                   hs_host = http_host st, hs_port = http_port st, hs_log_level = ''info'', hs_log_config = None, hs_access_log = False\<rparr>,
                  \<lparr>gs_config = cf, gs_invoke_service = service, gs_address = ''[::]:'' @ py_str_int (grpc_port st)\<rparr>), p)))"
  by (simp add: build_servers_def create_app_def app_client_def build_grpc_server_def new_store_def new_invoke_service_def
      bindM_def liftE_def Let_def)

end
