(* ===== verification/Cb_System.thy ===== *)
theory Cb_System
  imports Cb_Tables Cb_App
begin

text \<open>
  The whole broker: the operations it serves as steps of one system, and what holds in
  every state the system can reach.
\<close>

section \<open>The operations as steps\<close>

datatype 'm operation =
    OpRequestGrant grant_request
  | OpInvokeTool "'m invoke_request"
  | OpRevokeGrant string
  | OpAuthorize string uuid
  | OpCallback string "string option" "string option" "string option"
  | OpConsole "string option" console_request

text \<open>
  What an operation leaves behind, whether it answers or fails.  The console runs on the
  HTTP application's own invoke service.
\<close>

definition perform :: "('r, 'x) services \<Rightarrow> config \<Rightarrow> 'm json_format \<Rightarrow> 'm operation \<Rightarrow> ('r, 'x) world \<Rightarrow> ('r, 'x) world" where
  "perform S cf J op w =
     (case op of
        OpRequestGrant rq \<Rightarrow> snd (RequestGrant S cf rq w)
      | OpInvokeTool iq \<Rightarrow> snd (InvokeTool S cf J iq w)
      | OpRevokeGrant raw \<Rightarrow> snd (RevokeGrant S cf raw w)
      | OpAuthorize provider u \<Rightarrow> snd (authorize S cf provider u w)
      | OpCallback provider c s err \<Rightarrow> snd (callback S cf provider c s err w)
      | OpConsole header request \<Rightarrow> switch_service (snd (console_api S cf header request (switch_service w))))"

text \<open>
  The states of a broker: an operation is served, under one of the configurations
  \<open>C\<close> (the two surfaces may differ), or the rest of the world moves.  Within an operation
  the world moves at every \<open>await\<close> too, which is how operations overlap.
\<close>

inductive reaches :: "('r, 'x) services \<Rightarrow> 'm json_format \<Rightarrow> (config \<Rightarrow> bool) \<Rightarrow> ('r, 'x) world \<Rightarrow> ('r, 'x) world \<Rightarrow> bool"
  for S J C where
  reaches_refl: "reaches S J C w w"
| reaches_serve: "reaches S J C w w' \<Longrightarrow> C cf \<Longrightarrow> reaches S J C w (perform S cf J op w')"
| reaches_env: "reaches S J C w w' \<Longrightarrow> reaches S J C w (env S w')"

lemma reaches_trans: "reaches S J C v w \<Longrightarrow> reaches S J C u v \<Longrightarrow> reaches S J C u w"
  by (induction rule: reaches.induct) (auto intro: reaches.intros)

context operation_invariant
begin

lemma perform_keeps: "C cf \<Longrightarrow> T (w_db w) (w_now w) \<Longrightarrow> T (w_db (perform S cf J op w)) (w_now (perform S cf J op w))"
  unfolding perform_def
  using keepsD [OF keeps_RequestGrant] keepsD [OF keeps_InvokeTool] keepsD [OF keeps_RevokeGrant] keepsD [OF keeps_authorize]
    keepsD [OF keeps_connect] keepsD [OF keeps_console]
  by (cases op) simp_all

lemma reaches_keeps: "reaches S J C w w' \<Longrightarrow> T (w_db w) (w_now w) \<Longrightarrow> T (w_db w') (w_now w')"
proof (induction rule: reaches.induct)
  case (reaches_env w w')
  then show ?case using T_env by (simp add: env_stable_def)
qed (simp_all add: perform_keeps)

end

context table_invariant
begin

lemma reaches_keep_tables: "reaches S J C w w' \<Longrightarrow> T (w_db w) \<Longrightarrow> T (w_db w')"
  by (rule ops.reaches_keeps)

end

section \<open>What every reachable state keeps\<close>

lemma reachable_tables:
  assumes "respects_tables S" and "reaches S J C w w'" and "wf_db (w_db w)"
  shows "wf_db (w_db w') \<and> extends (w_db w) (w_db w')"
  using table_invariant.reaches_keep_tables [OF tables_invariant [OF assms(1)] assms(2), of "w_db w"] assms(3) by simp

text \<open>
  C8: the tables keep their history.  In every state the system reaches, under any
  sequence and any overlap of operations, failed ones included, every agent and every
  audit row is still there unchanged, every grant is there with all its columns and
  is still revoked if it was, every connected account is there with at most its
  credential replaced; and the keys of the schema hold: ids and token hashes are
  unique, and no row points to one that is missing.
\<close>

theorem history_is_kept:
  assumes "respects_tables S" and "reaches S J C w w'" and "wf_db (w_db w)"
  shows "wf_db (w_db w') \<and> extends (w_db w) (w_db w')"
  by (rule reachable_tables [OF assms])

lemma quiet_respects [simp]: "quiet S \<Longrightarrow> respects_tables S"
  by (simp add: respects_tables_def)

theorem history_is_kept_witness:
  "let w' = perform sample_services sample_config sample_format (OpConsole None DemoSeed)
     (perform sample_services sample_config sample_format (OpRevokeGrant (uuid_str 7)) sample_start) in
   wf_db (w_db w') \<and> extends sample_db (w_db w')"
proof -
  have "wf_db sample_db" by (simp add: wf_db_def sample_db_def empty_db_def)
  moreover have "reaches sample_services sample_format (\<lambda>_. True) sample_start
      (perform sample_services sample_config sample_format (OpConsole None DemoSeed)
        (perform sample_services sample_config sample_format (OpRevokeGrant (uuid_str 7)) sample_start))"
    by (intro reaches.intros TrueI)
  ultimately show ?thesis
    using history_is_kept [OF quiet_respects [OF sample_quiet], of sample_format "\<lambda>_. True" sample_start] by (simp add: Let_def)
qed

section \<open>The concurrency limit\<close>

text \<open>\<open>limit_ok\<close> of the tables and the time: no agent has more active grants of one tool and scope.\<close>

definition within_limit :: "int \<Rightarrow> database \<Rightarrow> int \<Rightarrow> bool" where
  "within_limit m db t \<longleftrightarrow> (\<forall>a tn sc. int (active_count db t a tn sc) \<le> m)"

lemma limit_ok_within: "limit_ok m w \<longleftrightarrow> within_limit m (w_db w) (w_now w)"
  by (simp add: limit_ok_def within_limit_def)

lemma limit_ok_abs: "limit_ok m = (\<lambda>w. within_limit m (w_db w) (w_now w))"
  by (rule ext) (rule limit_ok_within)

lemma within_same_grants: "within_limit m db t \<Longrightarrow> db_grants db' = db_grants db \<Longrightarrow> within_limit m db' t"
  using active_count_grants [of db' db] by (simp add: within_limit_def)

lemma filter_map_le: "(\<And>x. P (f x) \<Longrightarrow> P x) \<Longrightarrow> length (filter P (map f xs)) \<le> length (filter P xs)"
  by (induction xs) (auto simp: le_SucI)

lemma within_revoked:
  assumes "within_limit m db t" and "update_grant i (\<lambda>g. g\<lparr>gr_revoked_at := Some u\<rparr>) db = Inr db'"
  shows "within_limit m db' t"
proof -
  have d: "db_grants db' = map (\<lambda>g. if gr_id g = i then g\<lparr>gr_revoked_at := Some u\<rparr> else g) (db_grants db)"
    using assms(2) by (auto simp: update_grant_def split: if_splits)
  have "active_count db' t a tn sc \<le> active_count db t a tn sc" for a tn sc
    unfolding active_count_def d by (rule filter_map_le) (auto simp: is_active_def split: if_splits)
  then show ?thesis using assms(1) unfolding within_limit_def by (meson of_nat_le_iff order_trans)
qed

definition limited :: "int \<Rightarrow> config \<Rightarrow> bool" where
  "limited m cf \<longleftrightarrow> max_active_grants_per_agent_scope (cf_settings cf) = m"

lemma limit_invariant:
  fixes S :: "('r, 'x) services"
  assumes "env_stable S (limit_ok m)" and "clock_forward S" and "lock_respected S"
  shows "operation_invariant S (within_limit m) (limited m)"
proof
  show "env_stable S (\<lambda>w. within_limit m (w_db w) (w_now w))" using assms(1) by (simp only: limit_ok_abs)
  show "within_limit m db' t" if "within_limit m db t" "update_grant i (\<lambda>g. g\<lparr>gr_revoked_at := Some u\<rparr>) db = Inr db'" for i u db db' t
    by (rule within_revoked [OF that])
  show "keeps (\<lambda>w. within_limit m (w_db w) (w_now w)) (request_grant S cf a tn sc)" if "limited m cf" for cf a tn sc
  proof (rule keepsI)
    fix w :: "('r, 'x) world" assume w: "within_limit m (w_db w) (w_now w)"
    have l: "max_active_grants_per_agent_scope (cf_settings cf) = m" using that by (simp add: limited_def)
    obtain r w' where r: "request_grant S cf a tn sc w = (r, w')" by force
    have "limit_ok m w'" using request_grant_keeps_limit [OF _ assms(2,3) _ r] assms(1) w l by (simp add: limit_ok_within)
    then show "within_limit m (w_db (snd (request_grant S cf a tn sc w))) (w_now (snd (request_grant S cf a tn sc w)))"
      using r by (simp add: limit_ok_within)
  qed
qed (auto simp: update_account_def split: if_splits dest!: insert_frames(2-) elim!: within_same_grants)

lemma alone_env: "env (alone S) w = w"
  by (simp add: env_def alone_def)

interpretation limited_alone: operation_invariant "alone S" "within_limit m" "limited m" for S :: "('r, 'x) services" and m
  by (rule limit_invariant) (simp_all add: env_stable_def clock_forward_def lock_respected_def alone_env)

text \<open>
  C7: the concurrency limit holds throughout.  When the other parties keep the limit and the
  row locks and the clock does not go back, then in every state the system reaches,
  whatever operations it has served, from either surface and however they overlapped,
  no agent has more active grants for one tool and scope than the limit allows.
\<close>

theorem limit_always_holds:
  assumes "env_stable S (limit_ok m)" and "clock_forward S" and "lock_respected S"
    and "reaches S J (limited m) w w'" and "limit_ok m w"
  shows "limit_ok m w'"
  using operation_invariant.reaches_keeps [OF limit_invariant [OF assms(1-3)] assms(4)] assms(5)
  by (simp add: limit_ok_within)

theorem limit_always_holds_witness:
  "let rq = OpRequestGrant \<lparr>rq_agent_id = uuid_str 8, rq_tool_name = ''drive.read'', rq_requested_scope = ''read''\<rparr> in
   limit_ok 1 (perform sample_services sample_config sample_format rq
     (perform sample_services sample_config sample_format rq sample_start))"
proof -
  let ?rq = "OpRequestGrant \<lparr>rq_agent_id = uuid_str 8, rq_tool_name = ''drive.read'', rq_requested_scope = ''read''\<rparr>"
  have l: "limited 1 sample_config" by (simp add: limited_def default_settings_def)
  have "reaches sample_services sample_format (limited 1) sample_start (perform sample_services sample_config sample_format ?rq
     (perform sample_services sample_config sample_format ?rq sample_start))"
    by (intro reaches.intros l)
  then show ?thesis
    unfolding Let_def
    by (rule limit_always_holds [rotated 3]) (simp_all add: clock_forward_def lock_respected_def limit_ok_def)
qed

section \<open>Revocation is final\<close>

text \<open>The grant with this id is in the table and revoked.\<close>

definition marked :: "uuid \<Rightarrow> database \<Rightarrow> bool" where
  "marked gid db \<longleftrightarrow> (\<exists>g \<in> set (db_grants db). gr_id g = gid \<and> gr_revoked_at g \<noteq> None)"

lemma later_grantD: "later_grant g g' \<Longrightarrow> gr_id g' = gr_id g \<and> gr_token_hash g' = gr_token_hash g \<and> (gr_revoked_at g \<noteq> None \<longrightarrow> gr_revoked_at g' \<noteq> None)"
  by (cases g; cases g') (auto simp: later_grant_def)

lemma extended_grant:
  assumes "extends db db'" and "g \<in> set (db_grants db)"
  obtains g' where "g' \<in> set (db_grants db')" and "gr_id g' = gr_id g" and "gr_token_hash g' = gr_token_hash g"
    and "gr_revoked_at g \<noteq> None \<Longrightarrow> gr_revoked_at g' \<noteq> None"
  using grown_row [of later_grant "db_grants db" "db_grants db'" g] assms later_grantD by (auto simp: extends_def)

lemma marked_extends: "extends db db' \<Longrightarrow> marked gid db \<Longrightarrow> marked gid db'"
  unfolding marked_def by (metis extended_grant)

lemma distinct_column: "distinct (map f xs) \<Longrightarrow> x \<in> set xs \<Longrightarrow> y \<in> set xs \<Longrightarrow> f x = f y \<Longrightarrow> x = y"
  by (auto simp: distinct_map dest: inj_onD)

text \<open>Well-formed tables that have grown from \<open>db\<close>.\<close>

definition since :: "database \<Rightarrow> ('r, 'x) world \<Rightarrow> bool" where
  "since db w \<longleftrightarrow> wf_db (w_db w) \<and> extends db (w_db w)"

lemma since_core: "core (since db)" "core (\<lambda>w. since db w \<and> marked gid (w_db w))"
  by (simp_all add: core_def since_def)

lemma since_stable:
  assumes "respects_tables S"
  shows "env_stable S (since db)" and "env_stable S (\<lambda>w. since db w \<and> marked gid (w_db w))"
  using assms by (auto simp: env_stable_def since_def respects_tables_def intro: extends_trans marked_extends)

lemma revoke_marks:
  assumes "respects_tables S"
  shows "triple (since db) (revoke_grant S cf gid) (\<lambda>_ w. since db w \<and> marked gid (w_db w)) (\<lambda>_. since db)"
proof -
  let ?M = "\<lambda>w. since db w \<and> marked gid (w_db w)"
  let ?R = "\<lambda>r w. since db w \<and> (\<forall>g. r = Some g \<longrightarrow> gr_revoked_at g \<noteq> None \<longrightarrow> marked gid (w_db w))"
  have sel: "triple (since db) (select S (\<lambda>db. get_grant db gid)) ?R (\<lambda>_. since db)"
    unfolding select_def
  proof (rule triple_awaiting)
    show "triple (since db) (getM (\<lambda>w. get_grant (w_db w) gid)) ?R (\<lambda>_. since db)"
      by (rule triple_getM) (auto simp: marked_def dest: get_grant_in)
    show "env_stable S (?R r)" for r
      using assms by (auto simp: env_stable_def since_def respects_tables_def intro: extends_trans marked_extends)
  qed (use since_stable [OF assms] in auto)
  have mark: "triple (since db) (commit S (update_grant gid (\<lambda>g. g\<lparr>gr_revoked_at := Some t\<rparr>)) []) (\<lambda>_. ?M) (\<lambda>_. since db)" for t
  proof (rule triple_commit)
    fix w db1 db2
    assume s: "since db w" and u: "update_accounts (w_dirty w) (w_db w) = Inr db1"
      and r: "update_grant gid (\<lambda>g. g\<lparr>gr_revoked_at := Some t\<rparr>) db1 = Inr db2"
    note ti = tables_invariant [OF assms, of db]
    have "wf_db db2 \<and> extends db db2"
      using table_invariant.revoke [OF ti _ r] table_invariant.updates [OF ti _ u] s by (simp add: since_def)
    moreover have "marked gid db2"
    proof -
      obtain g where g: "get_grant db1 gid = Some g" and d: "db_grants db2 = map (\<lambda>g. if gr_id g = gid then g\<lparr>gr_revoked_at := Some t\<rparr> else g) (db_grants db1)"
        using r by (auto simp: update_grant_def split: if_splits)
      have "g\<lparr>gr_revoked_at := Some t\<rparr> \<in> set (db_grants db2)" unfolding d using get_grant_in [OF g] by force
      then show ?thesis using get_grant_in [OF g] unfolding marked_def by (intro bexI [of _ "g\<lparr>gr_revoked_at := Some t\<rparr>"]) simp_all
    qed
    ultimately show "?M (w\<lparr>w_db := db2, w_trace := w_trace w @ [], w_dirty := [], w_locked := None\<rparr>)" by (simp add: since_def)
  qed (use since_stable [OF assms] since_core in auto)
  have cache: "triple ?M (if cf_grant_cache cf then record_revoked S h n else ret ()) (\<lambda>_. ?M) (\<lambda>_. since db)" for h n
    by (rule keeps_weaken, intro wp since_stable(2) [OF assms] core_score [OF since_core(2)]) simp_all
  have step: "triple (?R (Some g)) (if gr_revoked_at g = None
        then bindM utcnow (\<lambda>now. bindM (commit S (update_grant gid (\<lambda>g. g\<lparr>gr_revoked_at := Some now\<rparr>)) []) (\<lambda>_.
             ret (g\<lparr>gr_revoked_at := Some now\<rparr>)))
        else ret g) (\<lambda>_. ?M) (\<lambda>_. since db)" for g
  proof (cases "gr_revoked_at g")
    case None
    have "triple (since db) (bindM utcnow (\<lambda>now. bindM (commit S (update_grant gid (\<lambda>g. g\<lparr>gr_revoked_at := Some now\<rparr>)) []) (\<lambda>_.
             ret (g\<lparr>gr_revoked_at := Some now\<rparr>)))) (\<lambda>_. ?M) (\<lambda>_. since db)"
      by (rule triple_bindM [OF keeps_pure(3)], rule triple_bindM [OF mark], rule triple_ret)
    then show ?thesis using None by (auto elim: triple_pre)
  next
    case (Some t)
    then show ?thesis by (auto intro: triple_ret)
  qed
  show ?thesis
    unfolding revoke_grant_def
    apply (rule triple_bindM [OF sel], rule triple_case_option)
     apply (rule triple_raise, simp)
    apply (erule ssubst, rule triple_bindM [OF step], rule triple_bindM [OF cache], rule triple_ret, assumption)
    done
qed

lemma RevokeGrant_marks:
  assumes "respects_tables S" and "since db w" and "RevokeGrant S cf raw w = (Inr b, w')"
  shows "\<exists>gid. uuid_parse raw = Some gid \<and> since db w' \<and> marked gid (w_db w')"
proof -
  obtain gid where p: "uuid_parse raw = Some gid"
    using assms(3) by (auto simp: RevokeGrant_def parse_uuid_def abort_def rpc_error_guard_def bindM_def catchM_def split: option.splits)
  obtain g v where s: "with_session (revoke_grant S cf gid) w = (Inr g, v)" and d: "w_db w' = w_db v"
    using assms(3) p by (auto simp: RevokeGrant_def parse_uuid_def abort_def rpc_error_guard_def bindM_def catchM_def inc_def
        split: sum.splits prod.splits if_splits)
  have "triple (since db) (with_session (revoke_grant S cf gid)) (\<lambda>_ w. since db w \<and> marked gid (w_db w)) (\<lambda>_. since db)"
    by (rule triple_with_session [OF revoke_marks [OF assms(1)]]) (rule since_core)+
  from tripleD_Inr [OF this assms(2) s] show ?thesis using p d by (auto simp: since_def)
qed

lemma marked_hash_revoked:
  assumes "since db w" and "marked (gr_id g) db" and "g \<in> set (db_grants db)" and "wf_db db"
  shows "revoked_hash (gr_token_hash g) w"
proof -
  obtain m where m: "m \<in> set (db_grants db)" "gr_id m = gr_id g" "gr_revoked_at m \<noteq> None"
    using assms(2) by (auto simp: marked_def)
  then have "m = g" using distinct_column [of gr_id "db_grants db" m g] assms(3,4) by (simp add: wf_db_def)
  then obtain g' where g': "g' \<in> set (db_grants (w_db w))" "gr_token_hash g' = gr_token_hash g" "gr_revoked_at g' \<noteq> None"
    using extended_grant [of db "w_db w" g] assms(1,3) m(3) unfolding since_def by metis
  have "g2 = g'" if "g2 \<in> set (db_grants (w_db w))" "gr_token_hash g2 = gr_token_hash g" for g2
    using distinct_column [of gr_token_hash "db_grants (w_db w)" g2 g'] that g' assms(1) by (simp add: since_def wf_db_def)
  then show ?thesis using g'(3) by (auto simp: revoked_hash_def grants_by_hash_def list_all_iff)
qed

text \<open>
  C1: revocation is final.  Once \<open>RevokeGrant\<close> has answered for a grant, its token is
  refused for ever: in every state the system reaches afterwards, whatever it has
  served in between, an invocation under the token sends no request to anyone, and
  when it returns, it returns a denial.
\<close>

theorem revocation_is_final:
  assumes "respects_tables S" and "wf_db (w_db w0)" and "g \<in> set (db_grants (w_db w0))"
    and "gr_token_hash g = hash_token S token"
    and "RevokeGrant S cf (uuid_str (gr_id g)) w0 = (Inr True, w1)"
    and "reaches S J C w1 w2" and "invoke S cf' token tn args k w2 = (r, w3)"
  shows "\<exists>evs. w_trace w3 = w_trace w2 @ evs \<and> list_all (\<lambda>e. \<not> is_http e) evs \<and>
    (case r of Inr o' \<Rightarrow> io_status o' = ''denied'' | Inl e \<Rightarrow> True)"
proof -
  have "since (w_db w0) w0" using assms(2) by (simp add: since_def)
  from RevokeGrant_marks [OF assms(1) this assms(5)]
  have m: "since (w_db w0) w1" "marked (gr_id g) (w_db w1)" by auto
  obtain g1 where g1: "g1 \<in> set (db_grants (w_db w1))" "gr_id g1 = gr_id g" "gr_token_hash g1 = gr_token_hash g"
    using extended_grant [of "w_db w0" "w_db w1" g] m(1) assms(3) unfolding since_def by metis
  have h: "since (w_db w1) w \<Longrightarrow> revoked_hash (hash_token S token) w" for w
    using marked_hash_revoked [of "w_db w1" w g1] m g1 assms(4) by (simp add: since_def)
  have "since (w_db w1) w2" using reachable_tables [OF assms(1,6)] m(1) by (simp add: since_def)
  then have i: "since (w_db w1) w2 \<and> emits (\<lambda>e. \<not> is_http e) (w_trace w2) w2" by simp
  note t = invoke_revoked [OF since_stable(1) [OF assms(1)] since_core(1) h, where cf = cf' and tn = tn and args = args and k = k]
  show ?thesis using tripleD_Inr [OF t i] tripleD_Inl [OF t i] assms(7) by (cases r) (auto simp: emits_def)
qed

lemma sample_revoke_runs:
  "\<exists>w1. RevokeGrant sample_services sample_config (uuid_str 7) sample_live = (Inr True, w1) \<and> w_trace w1 = []"
  by (simp add: RevokeGrant_def parse_uuid_def rpc_error_guard_def bindM_def catchM_def with_session_def end_transaction_def
      revoke_grant_def select_quiet utcnow_run commit_quiet update_grant_def get_grant_def sample_live_def sample_grant_def
      new_grant_def inc_def)

theorem revocation_is_final_witness:
  "\<exists>w1. RevokeGrant sample_services sample_config (uuid_str 7) sample_live = (Inr True, w1) \<and>
     list_all (\<lambda>e. \<not> is_http e) (w_trace (snd (invoke sample_services sample_config sample_token ''drive.read'' [] None w1)))"
proof -
  obtain w1 where r: "RevokeGrant sample_services sample_config (uuid_str 7) sample_live = (Inr True, w1)" and t: "w_trace w1 = []"
    using sample_revoke_runs by blast
  have g: "sample_grant \<in> set (db_grants (w_db sample_live))" "gr_token_hash sample_grant = hash_token sample_services sample_token"
    "gr_id sample_grant = 7" "wf_db (w_db sample_live)"
    by (simp_all add: sample_live_def sample_grant_def new_grant_def wf_db_def sample_db_def sample_agent_def sample_account_def empty_db_def)
  obtain r' w3 where i: "invoke sample_services sample_config sample_token ''drive.read'' [] None w1 = (r', w3)" by force
  show ?thesis
    using revocation_is_final [OF quiet_respects [OF sample_quiet] g(4,1,2) _ reaches_refl i, of sample_config] r t i g(3) by auto
qed

end
