(* ===== verification/Cb_Lifecycle.thy ===== *)
theory Cb_Lifecycle
  imports Cb_System
begin

text \<open>
  The life of the process (\<open>main.py\<close> and the lifespan of \<open>app.py\<close>): \<open>serve\<close> from the
  configuration of logging to the release of the last resource.

  What the libraries do is the parameter \<open>F\<close>: it says of every call that opens, starts,
  stops or closes something whether it raises, and may look at everything that has
  happened before.  Of uvicorn and grpc the source relies on this: \<open>http_server.serve()\<close>
  returns once \<open>should_exit\<close> is set, running the application's shutdown on its way, and
  \<open>wait_for_termination()\<close> once \<open>stop\<close> has been called; until then, either may raise.
\<close>

section \<open>Signals\<close>

definition SHUTDOWN_GRACE_SECONDS :: int where
  "SHUTDOWN_GRACE_SECONDS = 5"

definition initiate_shutdown :: "process \<Rightarrow> process" where
  "initiate_shutdown p = p\<lparr>pr_should_exit := True, pr_events := pr_events p @ [GrpcStop SHUTDOWN_GRACE_SECONDS]\<rparr>"

definition install_signal_handlers :: "(process, exn, unit) prog" where
  "install_signal_handlers = modM (\<lambda>p. p\<lparr>pr_handled := pr_handled p @ [SIGTERM, SIGINT]\<rparr>)"

section \<open>serve\<close>

definition start_up :: "('r, 'x) services \<Rightarrow> ('x \<Rightarrow> (string \<times> string) \<times> 'x) \<Rightarrow> library \<Rightarrow> settings
    \<Rightarrow> (('r, 'x) running, exn, nat \<times> http_server \<times> grpc_server) prog" where
  "start_up S generate F st =
     bindM (on_process (modM (\<lambda>p. p\<lparr>pr_logging := configure_logging 20 (pr_logging p)\<rparr>))) (\<lambda>_.
     bindM (on_world (ensure_dev_jwt_keys generate st)) (\<lambda>st'.
     let tools = configure_tools st' TOOL_REGISTRY in
     bindM (on_process (doing F (Opened DbEngine))) (\<lambda>_.
     bindM (on_world (build_token_cipher S st')) (\<lambda>cipher.
     bindM (on_process (doing F (Opened RedisClient))) (\<lambda>_.
     bindM (on_process (getM pr_clients)) (\<lambda>client.
     bindM (on_process (modM (\<lambda>p. p\<lparr>pr_clients := client + 1\<rparr>))) (\<lambda>_.
     bindM (on_process (doing F (Opened (HttpClient client)))) (\<lambda>_.
     bindM (on_process (build_servers st' cipher tools True client)) (\<lambda>servers.
     bindM (on_world (modM (show_objects (iv_objects (gs_invoke_service (snd servers)))
                                         (iv_objects (ap_invoke_service (hs_app (fst servers))))))) (\<lambda>_.
     bindM (on_process (doing F GrpcStarted)) (\<lambda>_.
     bindM (on_process install_signal_handlers) (\<lambda>_.
     ret (client, servers)))))))))))))"

text \<open>What happens to a serving process; a request is served under the configuration of its surface.\<close>

datatype 'm happening =
    Request "'m operation"
  | Elapse
  | Signal posix_signal
  | HttpCrash exn
  | GrpcCrash exn

definition app_config :: "http_server \<Rightarrow> config" where
  "app_config server = iv_config (ap_invoke_service (hs_app server))"

definition surface :: "http_server \<times> grpc_server \<Rightarrow> 'm operation \<Rightarrow> config" where
  "surface sv op =
     (case op of
        OpRequestGrant _ \<Rightarrow> gs_config (snd sv) | OpInvokeTool _ \<Rightarrow> gs_config (snd sv) | OpRevokeGrant _ \<Rightarrow> gs_config (snd sv)
      | OpAuthorize _ _ \<Rightarrow> app_config (fst sv) | OpCallback _ _ _ _ \<Rightarrow> app_config (fst sv) | OpConsole _ _ \<Rightarrow> app_config (fst sv))"

text \<open>
  A process is still serving, was killed by a signal without a handler, which runs no
  \<open>finally\<close>, or has ended.
\<close>

datatype 'a life = StillServing | Killed | Ended 'a

fun gather :: "('r, 'x) services \<Rightarrow> 'm json_format \<Rightarrow> library \<Rightarrow> http_server \<times> grpc_server \<Rightarrow> 'm happening list
    \<Rightarrow> ('r, 'x) running \<Rightarrow> ((exn + unit) \<times> ('r, 'x) running) life" where
  "gather S J F sv [] (w, p) = StillServing"
| "gather S J F sv (Request op # hs) (w, p) = gather S J F sv hs (perform S (surface sv op) J op w, p)"
| "gather S J F sv (Elapse # hs) (w, p) = gather S J F sv hs (env S w, p)"
| "gather S J F sv (Signal sig # hs) (w, p) =
     (if sig \<in> set (pr_handled p)
      then let p1 = initiate_shutdown p in
           if pr_should_exit p1 \<and> GrpcStop SHUTDOWN_GRACE_SECONDS \<in> set (pr_events p1)
           then Ended (on_process (lifespan_exit F (hs_app (fst sv))) (w, p1))
           else gather S J F sv hs (w, p1)
      else Killed)"
| "gather S J F sv (HttpCrash e # hs) (w, p) = Ended (Inl e, (w, p))"
| "gather S J F sv (GrpcCrash e # hs) (w, p) = Ended (Inl e, (w, p))"

definition shut_down :: "library \<Rightarrow> nat \<Rightarrow> (process, exn, unit) prog" where
  "shut_down F client =
     bindM (doing F (GrpcStop SHUTDOWN_GRACE_SECONDS)) (\<lambda>_.
     bindM (doing F (Closed (HttpClient client))) (\<lambda>_.
     bindM (doing F (Closed RedisClient)) (\<lambda>_.
     doing F (Closed DbEngine))))"

text \<open>\<open>try ... finally\<close>: an exception of the clean-up replaces the result of the body.\<close>

definition finallyM :: "('e + 'a) \<times> 's \<Rightarrow> ('s, 'e, 'b) prog \<Rightarrow> ('e + 'a) \<times> 's" where
  "finallyM r c = (case c (snd r) of (Inl e, s) \<Rightarrow> (Inl e, s) | (Inr _, s) \<Rightarrow> (fst r, s))"

definition serve :: "('r, 'x) services \<Rightarrow> ('x \<Rightarrow> (string \<times> string) \<times> 'x) \<Rightarrow> library \<Rightarrow> settings \<Rightarrow> 'm json_format
    \<Rightarrow> 'm happening list \<Rightarrow> ('r, 'x) running \<Rightarrow> ((exn + unit) \<times> ('r, 'x) running) life" where
  "serve S generate F st J hs s =
     (case start_up S generate F st s of
        (Inl e, s1) \<Rightarrow> Ended (Inl e, s1)
      | (Inr (client, sv), s1) \<Rightarrow>
          (case gather S J F sv hs s1 of
             StillServing \<Rightarrow> StillServing
           | Killed \<Rightarrow> Killed
           | Ended r \<Rightarrow> Ended (finallyM r (on_process (shut_down F client)))))"

section \<open>Starting up\<close>

lemma on_world_run: "on_world m (w, p) = (case m w of (r, w') \<Rightarrow> (r, (w', p)))"
  by (simp add: on_world_def)

lemma on_process_run: "on_process m (w, p) = (case m p of (r, p') \<Rightarrow> (r, (w, p')))"
  by (simp add: on_process_def)

lemma doing_run:
  "doing F e p = (let q = p\<lparr>pr_events := pr_events p @ [e]\<rparr> in case F q e of None \<Rightarrow> (Inr (), q) | Some x \<Rightarrow> (Inl x, q))"
  by (simp add: doing_def bindM_def Let_def split: option.split)

definition OPENING :: "nat \<Rightarrow> life_event list" where
  "OPENING c = [Opened DbEngine, Opened RedisClient, Opened (HttpClient c), GrpcStarted]"

definition RELEASE :: "nat \<Rightarrow> life_event list" where
  "RELEASE c = [GrpcStop SHUTDOWN_GRACE_SECONDS, Closed (HttpClient c), Closed RedisClient, Closed DbEngine]"

text \<open>What a step that returns has done.\<close>

lemma bindM_returns:
  assumes "bindM m f s = (Inr y, s')"
  obtains x s1 where "m s = (Inr x, s1)" and "f x s1 = (Inr y, s')"
  using assms by (auto simp: bindM_def split: prod.splits sum.splits)

lemma on_process_returns:
  assumes "on_process m s = (Inr x, s')"
  obtains p' where "m (snd s) = (Inr x, p')" and "s' = (fst s, p')"
  using assms by (cases s) (auto simp: on_process_run split: prod.splits)

lemma on_world_returns:
  assumes "on_world m s = (Inr x, s')"
  obtains w' where "m (fst s) = (Inr x, w')" and "s' = (w', snd s)"
  using assms by (cases s) (auto simp: on_world_run split: prod.splits)

lemma doing_returns:
  assumes "doing F e p = (Inr x, p')"
  obtains "p' = p\<lparr>pr_events := pr_events p @ [e]\<rparr>"
  using assms by (auto simp: doing_run Let_def split: option.splits)

text \<open>
  After a start that succeeds everything has been opened once and the signals are
  handled; the two invoke services use the client that was opened.
\<close>

lemma start_up_runs:
  assumes "start_up S generate F st (w, p) = (Inr (client, sv), (w1, p1))"
  shows "client = pr_clients p \<and> \<not> ap_owns_client (hs_app (fst sv)) \<and> app_config (fst sv) = gs_config (snd sv) \<and>
    own_objects w1 = new_objects (Some client) None \<and> w_peer w1 = new_objects (Some client) None \<and>
    p1 = p\<lparr>pr_logging := configure_logging 20 (pr_logging p), pr_clients := pr_clients p + 1,
           pr_handled := pr_handled p @ [SIGTERM, SIGINT], pr_events := pr_events p @ OPENING (pr_clients p)\<rparr>"
  using assms unfolding start_up_def Let_def
  by (elim bindM_returns on_process_returns on_world_returns doing_returns)
    (auto simp: OPENING_def install_signal_handlers_def app_config_def own_objects_def show_objects_def new_objects_def
      getM_def modM_def ret_def build_servers_result Let_def split: if_splits)

section \<open>Serving and shutting down\<close>

text \<open>The configurations of the two surfaces.\<close>

definition of_servers :: "http_server \<times> grpc_server \<Rightarrow> config \<Rightarrow> bool" where
  "of_servers sv cf \<longleftrightarrow> cf = app_config (fst sv) \<or> cf = gs_config (snd sv)"

lemma of_surface [simp]: "of_servers sv (surface sv op)"
  by (cases op) (simp_all add: of_servers_def surface_def)

lemma one_step:
  "reaches S J (of_servers sv) w (perform S (surface sv op) J op w)" "reaches S J (of_servers sv) w (env S w)"
  by (intro reaches.intros of_surface)+

lemma gather_ended:
  "gather S J F sv hs (w, p) = Ended (r, (w2, p2)) \<Longrightarrow> \<not> ap_owns_client (hs_app (fst sv)) \<Longrightarrow>
   reaches S J (of_servers sv) w w2 \<and> pr_logging p2 = pr_logging p \<and>
   (\<exists>mid. pr_events p2 = pr_events p @ mid \<and> set mid \<subseteq> {GrpcStop SHUTDOWN_GRACE_SECONDS})"
proof (induction hs arbitrary: w p)
  case (Cons h hs)
  show ?case
  proof (cases h)
    case (Request op)
    then have "reaches S J (of_servers sv) (perform S (surface sv op) J op w) w2"
      and "reaches S J (of_servers sv) w (perform S (surface sv op) J op w)" using Cons by (auto intro: one_step)
    then show ?thesis using Cons Request by (auto intro: reaches_trans)
  next
    case Elapse
    then have "reaches S J (of_servers sv) (env S w) w2" and "reaches S J (of_servers sv) w (env S w)" using Cons by (auto intro: one_step)
    then show ?thesis using Cons Elapse by (auto intro: reaches_trans)
  next
    case (Signal sig)
    then show ?thesis
      using Cons.prems
      by (auto simp: Let_def initiate_shutdown_def on_process_run lifespan_exit_def split: if_splits intro: reaches.intros)
  qed (use Cons.prems in \<open>auto intro: reaches.intros\<close>)
qed simp

lemma shut_down_run:
  "\<exists>n. 0 < n \<and> pr_events (snd (shut_down F c p)) = pr_events p @ take n (RELEASE c) \<and>
     pr_logging (snd (shut_down F c p)) = pr_logging p \<and>
     (case fst (shut_down F c p) of Inr _ \<Rightarrow> n = 4 | Inl e \<Rightarrow> \<exists>q a. F q a = Some e \<and> a \<in> set (RELEASE c))"
proof -
  have "\<exists>n \<in> {1, 2, 3, 4 :: nat}. pr_events (snd (shut_down F c p)) = pr_events p @ take n (RELEASE c) \<and>
     pr_logging (snd (shut_down F c p)) = pr_logging p \<and>
     (case fst (shut_down F c p) of Inr _ \<Rightarrow> n = 4 | Inl e \<Rightarrow> \<exists>q a. F q a = Some e \<and> a \<in> set (RELEASE c))"
    by (auto simp: shut_down_def bindM_def doing_run RELEASE_def Let_def split: option.splits)
  moreover have "0 < n" if "n \<in> {1, 2, 3, 4 :: nat}" for n using that by auto
  ultimately show ?thesis by blast
qed

text \<open>
  C37: the process releases what it opened.  Once the servers have started, both invoke
  services hold the one HTTP client that \<open>serve\<close> opened, and however
  serving ends, by a signal or by an exception of either server, \<open>serve\<close> stops the gRPC
  server and closes that HTTP client, the Redis client and the engine, each
  once and in this order; only a release that raises keeps the later ones from being
  tried.  The application closes nothing on its own, in particular not the client
  the two servers share.  The tables are those of a state the broker reaches from the
  one it started in, and the log handlers are the redacting ones throughout.
\<close>

theorem serve_releases:
  assumes "start_up S generate F st (w, p) = (Inr (client, sv), (w1, p1))"
    and "serve S generate F st J hs (w, p) = Ended (r, (w2, p2))"
  shows "w_http_client w1 = Some (pr_clients p) \<and> ob_http_client (w_peer w1) = Some (pr_clients p) \<and>
    reaches S J (of_servers sv) w1 w2 \<and> pr_logging p2 = configure_logging 20 (pr_logging p) \<and>
    (\<exists>mid n. 0 < n \<and> set mid \<subseteq> {GrpcStop SHUTDOWN_GRACE_SECONDS} \<and>
       pr_events p2 = pr_events p @ OPENING (pr_clients p) @ mid @ take n (RELEASE (pr_clients p)) \<and>
       (n < 4 \<longrightarrow> (\<exists>q a e. F q a = Some e \<and> a \<in> set (RELEASE (pr_clients p)) \<and> r = Inl e)))"
proof -
  note s = start_up_runs [OF assms(1)]
  then obtain r1 w' q where g: "gather S J F sv hs (w1, p1) = Ended (r1, (w', q))"
    and e: "(r, (w2, p2)) = finallyM (r1, (w', q)) (on_process (shut_down F client))"
    using assms by (auto simp: serve_def split: life.splits)
  obtain mid where gd: "reaches S J (of_servers sv) w1 w'" "pr_logging q = pr_logging p1" "pr_events q = pr_events p1 @ mid"
    "set mid \<subseteq> {GrpcStop SHUTDOWN_GRACE_SECONDS}"
    using gather_ended [OF g] s by auto
  obtain x q' where sd: "shut_down F (pr_clients p) q = (x, q')" by force
  then have f: "w2 = w'" "p2 = q'" "r = (case x of Inl e \<Rightarrow> Inl e | Inr _ \<Rightarrow> r1)"
    using e s by (auto simp: finallyM_def on_process_run split: sum.splits)
  obtain n where n: "0 < n" "pr_events q' = pr_events q @ take n (RELEASE (pr_clients p))" "pr_logging q' = pr_logging q"
    and x: "case x of Inr _ \<Rightarrow> n = 4 | Inl e \<Rightarrow> \<exists>q a. F q a = Some e \<and> a \<in> set (RELEASE (pr_clients p))"
    using shut_down_run [of F "pr_clients p" q] sd by auto
  have "n < 4 \<longrightarrow> (\<exists>q a e. F q a = Some e \<and> a \<in> set (RELEASE (pr_clients p)) \<and> r = Inl e)"
    using x f(3) by (cases x) auto
  moreover have "pr_events p2 = pr_events p @ OPENING (pr_clients p) @ mid @ take n (RELEASE (pr_clients p))"
    using f(2) n(2) gd(3) s by simp
  moreover have "w_http_client w1 = Some (pr_clients p)" "ob_http_client (w_peer w1) = Some (pr_clients p)"
    using s by (auto simp: own_objects_def new_objects_def)
  ultimately show ?thesis
    using gd f(1,2) n(1,3) s by (intro conjI exI [of _ mid] exI [of _ n]) simp_all
qed

text \<open>Requests served and time passed, before a signal arrives.\<close>

fun undisturbed :: "'m happening \<Rightarrow> bool" where
  "undisturbed (Request _) = True"
| "undisturbed Elapse = True"
| "undisturbed _ = False"

lemma gather_until_signal:
  "list_all undisturbed hs \<Longrightarrow> sig \<in> set (pr_handled p) \<Longrightarrow>
   \<exists>w'. reaches S J (of_servers sv) w w' \<and>
     gather S J F sv (hs @ Signal sig # rest) (w, p) = Ended (on_process (lifespan_exit F (hs_app (fst sv))) (w', initiate_shutdown p))"
proof (induction hs arbitrary: w)
  case Nil
  then show ?case by (auto simp: Let_def initiate_shutdown_def intro: reaches.intros)
next
  case (Cons h hs)
  then obtain w1 where h: "gather S J F sv ((h # hs) @ Signal sig # rest) (w, p) = gather S J F sv (hs @ Signal sig # rest) (w1, p)"
    and "reaches S J (of_servers sv) w w1" by (cases h) (auto intro: one_step)
  moreover obtain w' where "reaches S J (of_servers sv) w1 w'"
    and "gather S J F sv (hs @ Signal sig # rest) (w1, p) = Ended (on_process (lifespan_exit F (hs_app (fst sv))) (w', initiate_shutdown p))"
    using Cons by auto
  ultimately show ?case by (metis reaches_trans)
qed

lemma shut_down_done:
  "(\<And>q a. a \<in> set (RELEASE c) \<Longrightarrow> F q a = None) \<Longrightarrow>
   shut_down F c p = (Inr (), p\<lparr>pr_events := pr_events p @ RELEASE c\<rparr>)"
  by (simp add: shut_down_def bindM_def doing_run RELEASE_def)

text \<open>
  C38: a SIGTERM or SIGINT ends the process in good order.  Whatever requests it has
  served by then and however much time has passed, a started process that gets one of
  the two signals is not killed: \<open>serve\<close> returns normally, with \<open>should_exit\<close> set, the
  gRPC server stopped with its grace period by the handler and once more by the
  \<open>finally\<close> block, and every resource closed, provided the releases themselves do not
  raise.
\<close>

theorem signal_ends_serve:
  assumes "start_up S generate F st (w, p) = (Inr (client, sv), (w1, p1))"
    and "\<And>q a. a \<in> set (RELEASE (pr_clients p)) \<Longrightarrow> F q a = None"
    and "list_all undisturbed hs" and "sig = SIGTERM \<or> sig = SIGINT"
  shows "\<exists>w2 p2. serve S generate F st J (hs @ Signal sig # rest) (w, p) = Ended (Inr (), (w2, p2)) \<and>
    reaches S J (of_servers sv) w1 w2 \<and> pr_should_exit p2 \<and>
    pr_events p2 = pr_events p @ OPENING (pr_clients p) @ GrpcStop SHUTDOWN_GRACE_SECONDS # RELEASE (pr_clients p)"
proof -
  note s = start_up_runs [OF assms(1)]
  have "sig \<in> set (pr_handled p1)" using s assms(4) by auto
  then obtain w2 where w2: "reaches S J (of_servers sv) w1 w2"
    and g: "gather S J F sv (hs @ Signal sig # rest) (w1, p1) = Ended (on_process (lifespan_exit F (hs_app (fst sv))) (w2, initiate_shutdown p1))"
    using gather_until_signal [OF assms(3)] by blast
  have e: "on_process (lifespan_exit F (hs_app (fst sv))) (w2, initiate_shutdown p1) = (Inr (), (w2, initiate_shutdown p1))"
    using s by (simp add: on_process_run lifespan_exit_def)
  have a: "client = pr_clients p" using s by simp
  let ?p2 = "(initiate_shutdown p1)\<lparr>pr_events := pr_events (initiate_shutdown p1) @ RELEASE (pr_clients p)\<rparr>"
  have "serve S generate F st J (hs @ Signal sig # rest) (w, p) = Ended (Inr (), (w2, ?p2))"
    using a by (simp add: serve_def assms(1) g [unfolded e] finallyM_def on_process_run shut_down_done [OF assms(2)])
  then show ?thesis
    using w2 s by (intro exI [of _ w2] exI [of _ ?p2] conjI) (simp_all add: initiate_shutdown_def)
qed

section \<open>A run of the process\<close>

definition sample_process :: process where
  "sample_process = \<lparr>pr_logging = \<lparr>rl_level = 30, rl_handlers = []\<rparr>, pr_clients = 0, pr_handled = [], pr_should_exit = False, pr_events = []\<rparr>"

text \<open>Closing the Redis client fails when the flag is set; everything else succeeds.\<close>

definition sample_library :: "bool \<Rightarrow> library" where
  "sample_library broken p e = (if broken \<and> e = Closed RedisClient then Some (OtherException ''RedisError'' ''closed'') else None)"

definition sample_life_settings :: settings where
  "sample_life_settings = default_settings\<lparr>kms_key_id := ''alias/credbroker''\<rparr>"

definition sample_keys :: "nat \<Rightarrow> (string \<times> string) \<times> nat" where
  "sample_keys n = ((''private'', ''public''), n)"

lemma sample_start_up:
  "\<exists>sv w1 p1. start_up sample_services sample_keys (sample_library broken) sample_life_settings (sample_start, sample_process)
     = (Inr (0, sv), (w1, p1))"
  by (simp add: start_up_def bindM_def on_world_run on_process_run doing_run install_signal_handlers_def Let_def
      sample_library_def sample_process_def ensure_dev_jwt_keys_def sample_life_settings_def default_settings_def draw_def
      sample_keys_def build_token_cipher_def build_servers_result modM_def)

theorem serve_releases_witness:
  "\<exists>r w2 p2 mid n. serve sample_services sample_keys (sample_library True) sample_life_settings sample_format
       [Request (OpRevokeGrant (uuid_str 7)), HttpCrash (TransportError ''bind'')] (sample_start, sample_process) = Ended (r, (w2, p2)) \<and>
     0 < n \<and> pr_events p2 = OPENING 0 @ mid @ take n (RELEASE 0) \<and> set mid \<subseteq> {GrpcStop 5}"
proof -
  obtain sv w1 p1 where s: "start_up sample_services sample_keys (sample_library True) sample_life_settings (sample_start, sample_process)
     = (Inr (0, sv), (w1, p1))" using sample_start_up by blast
  obtain r w2 p2 where e: "serve sample_services sample_keys (sample_library True) sample_life_settings sample_format
       [Request (OpRevokeGrant (uuid_str 7)), HttpCrash (TransportError ''bind'')] (sample_start, sample_process) = Ended (r, (w2, p2))"
    using s by (auto simp: serve_def) (metis prod.collapse)
  from serve_releases [OF s e] e show ?thesis
    by (simp add: sample_process_def SHUTDOWN_GRACE_SECONDS_def) blast
qed

theorem signal_ends_serve_witness:
  "\<exists>w2 p2. serve sample_services sample_keys (sample_library False) sample_life_settings sample_format
       [Request (OpRevokeGrant (uuid_str 7)), Elapse, Signal SIGTERM] (sample_start, sample_process) = Ended (Inr (), (w2, p2)) \<and>
     pr_should_exit p2 \<and> pr_events p2 = OPENING 0 @ GrpcStop 5 # RELEASE 0"
proof -
  obtain sv w1 p1 where s: "start_up sample_services sample_keys (sample_library False) sample_life_settings (sample_start, sample_process)
     = (Inr (0, sv), (w1, p1))" using sample_start_up by blast
  have none: "sample_library False q a = None" for q a by (simp add: sample_library_def)
  have hs: "list_all undisturbed [Request (OpRevokeGrant (uuid_str 7)), Elapse]" by simp
  show ?thesis
    using signal_ends_serve [OF s none hs, of SIGTERM sample_format "[]"]
    by (auto simp: sample_process_def SHUTDOWN_GRACE_SECONDS_def)
qed

end
