(* ===== verification/Cb_Flow.thy ===== *)
theory Cb_Flow
  imports Cb_Demo
begin

text \<open>
  The way of a grant from its issue to the answer of the provider: a grant that
  \<open>request_grant\<close> has issued does let its agent call the tool, and with the demo's
  stand-in for Drive the answer is the listing.
\<close>

section \<open>What a successful call needs\<close>

text \<open>The account's access token was encrypted by the broker and is good for more than the refresh margin.\<close>

definition stored_credential :: "('r, 'x) services \<Rightarrow> config \<Rightarrow> int \<Rightarrow> connected_account \<Rightarrow> string \<Rightarrow> bool" where
  "stored_credential S cf now account tok \<longleftrightarrow>
     (\<exists>e e'. encrypt S (cf_cipher cf) tok e = (Inr (ca_encrypted_access_token account), e')) \<and> utf8_decode tok = Some tok \<and>
     (case ca_expires_at account of None \<Rightarrow> True | Some t \<Rightarrow> now + REFRESH_EXPIRY_MARGIN * 1000000 < instant t)"

text \<open>Neither the revocation cache nor the rate limiter stops a call under the grant.\<close>

definition lets_through :: "('r, 'x) services \<Rightarrow> config \<Rightarrow> grant \<Rightarrow> ('r, 'x) world \<Rightarrow> bool" where
  "lets_through S cf g w \<longleftrightarrow>
     (cf_grant_cache cf \<longrightarrow> \<not> revoked_at (sv_redis S) (w_now w) (gr_token_hash g) (w_redis w)) \<and>
     (cf_rate_limiter cf \<longrightarrow>
        (\<exists>n r. hit (sv_redis S) (''invoke:'' @ uuid_str (gr_agent_id g)) 60 (w_now w) (w_redis w) = (Inr n, r) \<and>
           n \<le> invokes_per_minute_per_agent (cf_settings cf)))"

text \<open>The settings of outbound calls make sense and the provider's breaker, if there is one, admits a call.\<close>

definition can_call :: "config \<Rightarrow> string \<Rightarrow> ('r, 'x) world \<Rightarrow> bool" where
  "can_call cf provider w \<longleftrightarrow>
     0 \<le> outbound_max_retries (cf_settings cf) \<and> 0 \<le> outbound_base_delay_seconds (cf_settings cf) \<and>
     1 \<le> circuit_failure_threshold (cf_settings cf) \<and> 0 \<le> circuit_reset_seconds (cf_settings cf) \<and>
     \<not> circuit_blocks provider w"

definition answers :: "('r, 'x) services \<Rightarrow> http_request \<Rightarrow> http_response \<Rightarrow> bool" where
  "answers S request response \<longleftrightarrow> (\<forall>x. fst (sv_http S request x) = Inr response)"

text \<open>The committed rows, the clocks and the session's pending work are as before.\<close>

definition same_rows :: "('r, 'x) world \<Rightarrow> ('r, 'x) world \<Rightarrow> bool" where
  "same_rows w w' \<longleftrightarrow> w_db w' = w_db w \<and> w_now w' = w_now w \<and> w_mono w' = w_mono w \<and> w_dirty w' = w_dirty w"

section \<open>The steps of the call\<close>

lemma tool_call_answered:
  assumes "quiet S" and "drive_params args = Inr params" and "answers S (drive_request tool tok params) response"
    and "drive_result (sv_float S) response = Inr v"
  shows "\<exists>x. tool_call S tool tok args w =
    (Inr v, w\<lparr>w_trace := w_trace w @ [EvHttp (drive_request tool tok params)], w_ext := x\<rparr>)"
  using assms
  by (cases "sv_http S (drive_request tool tok params) (w_ext w)")
    (auto simp: tool_call_def bindM_def liftE_def http_send_quiet answers_def dest!: spec [of _ "w_ext w"])

lemma http_gives_client: "\<exists>c o' . http w = (Inr c, w\<lparr>w_http_client := Some c, w_owns_http_client := o'\<rparr>)"
  by (cases "w_http_client w") (auto simp: http_def Let_def intro: exI [of _ "w_owns_http_client w"])

lemma provider_answers:
  assumes "quiet S" and "can_call cf (tl_provider tool) w" and "drive_params args = Inr params"
    and "answers S (drive_request tool tok params) response" and "drive_result (sv_float S) response = Inr v"
  shows "\<exists>w'. call_provider S cf tool tok args w = (Inr v, w') \<and> same_rows w w' \<and>
    w_trace w' = w_trace w @ [EvHttp (drive_request tool tok params)]"
proof -
  let ?p = "tl_provider tool" and ?evs = "[EvHttp (drive_request tool tok params)]"
  let ?fn = "bindM http (\<lambda>_. tool_call S tool tok args)"
  have fn: "\<exists>v'. ?fn u = (Inr v, v') \<and> same_rows u v' \<and> w_trace v' = w_trace u @ ?evs \<and> w_circuits v' = w_circuits u" for u
  proof -
    obtain c o' where h: "http u = (Inr c, u\<lparr>w_http_client := Some c, w_owns_http_client := o'\<rparr>)" using http_gives_client by blast
    show ?thesis
      using tool_call_answered [OF assms(1,3-5), of "u\<lparr>w_http_client := Some c, w_owns_http_client := o'\<rparr>"]
      by (auto simp: bindM_def h same_rows_def)
  qed
  have run: "\<exists>w'. call_with_retries S ?fn (outbound_max_retries (cf_settings cf)) (outbound_base_delay_seconds (cf_settings cf))
      (Some (circuit_object ?p)) default_retryable u = (Inr v, w') \<and> same_rows u w' \<and> w_trace w' = w_trace u @ ?evs"
    if c: "w_circuits u ?p = Some c" "fst (allow (w_mono u) c)" for u c
  proof -
    let ?u = "u\<lparr>w_circuits := (w_circuits u)(?p \<mapsto> snd (allow (w_mono u) c))\<rparr>"
    have a: "co_allow (circuit_object ?p) u = (Inr True, ?u)"
      using c by (cases "allow (w_mono u) c") (simp add: circuit_object_def on_circuit_def)
    obtain v' where f: "?fn ?u = (Inr v, v')" "same_rows ?u v'" "w_trace v' = w_trace ?u @ ?evs" "w_circuits v' = w_circuits ?u"
      using fn [of ?u] by blast
    have s: "\<exists>cs. co_record_success (circuit_object ?p) v' = (Inr (), v'\<lparr>w_circuits := cs\<rparr>)"
      using f(4) by (auto simp: circuit_object_def on_circuit_def)
    then obtain cs where s: "co_record_success (circuit_object ?p) v' = (Inr (), v'\<lparr>w_circuits := cs\<rparr>)" by blast
    have "call_with_retries S ?fn (outbound_max_retries (cf_settings cf)) (outbound_base_delay_seconds (cf_settings cf))
      (Some (circuit_object ?p)) default_retryable u = (Inr v, v'\<lparr>w_circuits := cs\<rparr>)"
      using assms(2) by (simp add: call_with_retries_def can_call_def a f(1) s)
    then show ?thesis using f by (simp add: same_rows_def)
  qed
  show ?thesis
  proof (cases "w_circuits w ?p")
    case None
    let ?st = "cf_settings cf"
    let ?new = "\<lparr>cb_failure_threshold = circuit_failure_threshold ?st, cb_reset_seconds = circuit_reset_seconds ?st, cb_state = CLOSED,
      cb_consecutive_failures = 0, cb_opened_at = None, cb_probe_in_flight = False\<rparr>"
    have "circuit_for ?st ?p w = (Inr (circuit_object ?p), w\<lparr>w_circuits := (w_circuits w)(?p \<mapsto> ?new)\<rparr>)"
      using None assms(2) by (simp add: circuit_for_def bindM_def new_circuit_def can_call_def)
    moreover have "fst (allow t ?new)" for t by (simp add: allow_def sync_def)
    ultimately show ?thesis
      using run [of "w\<lparr>w_circuits := (w_circuits w)(?p \<mapsto> ?new)\<rparr>" ?new] by (simp add: call_provider_def bindM_def same_rows_def)
  next
    case (Some c)
    then have "fst (allow (w_mono w) c)" using assms(2) by (simp add: can_call_def circuit_blocks_def)
    then show ?thesis using run [OF Some] Some by (simp add: call_provider_def circuit_for_def bindM_def)
  qed
qed


lemma credential_decrypts:
  assumes "quiet S" and "kms_service S" and "stored_credential S cf t account tok"
  shows "\<exists>x ss. awaiting S AwaitThread (decrypt S (cf_cipher cf) (ca_encrypted_access_token account)) w =
    (Inr tok, w\<lparr>w_ext := x, w_secrets := ss\<rparr>)"
proof -
  obtain e e' where "encrypt S (cf_cipher cf) tok e = (Inr (ca_encrypted_access_token account), e')" "utf8_decode tok = Some tok"
    using assms(3) by (auto simp: stored_credential_def)
  from data_key_manager.decrypt_encrypt [OF kms_service.any_manager [OF assms(2)] this, of w] show ?thesis
    by (auto simp: awaiting_quiet [OF assms(1)])
qed

lemma credential_usable:
  assumes "quiet S" and "kms_service S" and "stored_credential S cf (w_now w) account tok"
  shows "\<exists>x ss. usable_token S cf account start w = (Inr (Inr (tok, False)), w\<lparr>w_ext := x, w_secrets := ss\<rparr>)"
proof -
  obtain x ss where d: "awaiting S AwaitThread (decrypt S (cf_cipher cf) (ca_encrypted_access_token account)) w =
      (Inr tok, w\<lparr>w_ext := x, w_secrets := ss\<rparr>)" using credential_decrypts [OF assms, of w] by blast
  have "usable_token S cf account start w = (Inr (Inr (tok, False)), w\<lparr>w_ext := x, w_secrets := ss\<rparr>)"
  proof (cases "ca_expires_at account")
    case None
    then show ?thesis by (simp add: usable_token_def bindM_def utcnow_run Let_def tryM_def d)
  next
    case (Some t)
    then have "\<not> instant t \<le> w_now w + REFRESH_EXPIRY_MARGIN * 1000000" using assms(3) by (simp add: stored_credential_def)
    then show ?thesis using Some by (simp add: usable_token_def bindM_def utcnow_run Let_def tryM_def d)
  qed
  then show ?thesis by blast
qed

lemma not_revoked_now:
  assumes "quiet S" and "redis_server (sv_redis S)" and "get_grant (w_db w) gid = Some g" and "gr_revoked_at g = None"
    and "cf_grant_cache cf \<longrightarrow> \<not> revoked_at (sv_redis S) (w_now w) h (w_redis w)"
  shows "is_revoked_now S cf gid h w = (Inr False, w)"
  using assms by (simp add: is_revoked_now_def bindM_def select_quiet grant_cache_run(3) [where s = 1])

lemma execute_succeeds:
  assumes "quiet S" and "kms_service S" and "redis_server (sv_redis S)"
    and "get_account (w_db w) (gr_connected_account_id g) = Some account" and "stored_credential S cf (w_now w) account tok"
    and "get_grant (w_db w) (gr_id g) = Some g" and "gr_revoked_at g = None"
    and "cf_grant_cache cf \<longrightarrow> \<not> revoked_at (sv_redis S) (w_now w) h (w_redis w)"
    and "can_call cf (tl_provider tool) w" and "drive_params args = Inr params"
    and "answers S (drive_request tool tok params) response" and "drive_result (sv_float S) response = Inr v"
  shows "\<exists>o' w'. execute_call S cf g h tool args start w = (Inr o', w') \<and> io_status o' = ''success'' \<and> io_result o' = v \<and>
    same_rows w w' \<and> w_trace w' = w_trace w @ [EvHttp (drive_request tool tok params)]"
proof -
  obtain x ss where u: "usable_token S cf account start w = (Inr (Inr (tok, False)), w\<lparr>w_ext := x, w_secrets := ss\<rparr>)"
    using credential_usable [OF assms(1,2,5)] by blast
  let ?w = "w\<lparr>w_ext := x, w_secrets := ss\<rparr>"
  have r: "is_revoked_now S cf (gr_id g) h ?w = (Inr False, ?w)"
    by (rule not_revoked_now [OF assms(1,3) _ assms(7)]) (use assms(6,8) in simp_all)
  have "can_call cf (tl_provider tool) ?w" using assms(9) by (simp add: can_call_def circuit_blocks_def)
  then obtain w' where c: "call_provider S cf tool tok args ?w = (Inr v, w')" "same_rows ?w w'"
    "w_trace w' = w_trace w @ [EvHttp (drive_request tool tok params)]"
    using provider_answers [OF assms(1) _ assms(10-12), of cf ?w] by auto
  have "execute_call S cf g h tool args start w =
      (Inr \<lparr>io_status = ''success'', io_result = v, io_error = None, io_latency_ms = elapsed_ms (w_mono w') start,
         io_from_cache = False, io_denied_reason = None\<rparr>, w')"
    using c(1) r u
    by (simp add: execute_call_def bindM_def select_quiet [OF assms(1)] assms(4) call_loop_def tryM_def outcome_run)
  then show ?thesis using c by (simp add: same_rows_def)
qed


section \<open>From the issue to the answer\<close>

lemma hit_keeps_marker:
  assumes "redis_server R" and "hit R key win t r = (c, r')"
  shows "revoked_at R t h r' \<longleftrightarrow> revoked_at R t h r"
proof -
  let ?k = "counter_key key (window_index t win)"
  obtain c1 r1 where i: "rd_incr R t ?k r = (c1, r1)" by force
  have k: "REVOKED_PREFIX @ h \<noteq> ?k" by (simp add: REVOKED_PREFIX_def counter_key_def RATELIMIT_PREFIX_def)
  have "rd_get R t (REVOKED_PREFIX @ h) r1 = rd_get R t (REVOKED_PREFIX @ h) r"
    using redis_server.incr_other [OF assms(1) k, of t t r] i by simp
  then show ?thesis
    using assms(2) i redis_server.expire_other [OF assms(1) k, of t t win r1]
    by (auto simp: revoked_at_def redis_server.exists_get [OF assms(1)] hit_def Let_def split: if_splits)
qed

lemma resolved_succeeds:
  assumes "quiet S" and "kms_service S" and "redis_server (sv_redis S)"
    and "get_account (w_db w) (gr_connected_account_id g) = Some account" and "stored_credential S cf (w_now w) account tok"
    and "get_grant (w_db w) (gr_id g) = Some g" and "gr_revoked_at g = None" and "w_now w < instant (gr_expires_at g)"
    and "lets_through S cf g w" and "dict_get (cf_tools cf) tn = Some tool" and "tl_scope tool = gr_scope g"
    and "can_call cf (tl_provider tool) w" and "drive_params args = Inr params"
    and "answers S (drive_request tool tok params) response" and "drive_result (sv_float S) response = Inr v"
  shows "\<exists>o' w'. invoke_resolved S cf g (gr_token_hash g) tn args None False start w = (Inr o', w') \<and>
    io_status o' = ''success'' \<and> io_result o' = v \<and> same_rows w w' \<and> w_trace w' = w_trace w @ [EvHttp (drive_request tool tok params)]"
proof -
  let ?limit = "if cf_rate_limiter cf
     then check S (''invoke:'' @ uuid_str (gr_agent_id g)) (invokes_per_minute_per_agent (cf_settings cf)) 60 else ret True"
  obtain r where r: "?limit w = (Inr True, w\<lparr>w_redis := r\<rparr>)"
    and m: "cf_grant_cache cf \<longrightarrow> \<not> revoked_at (sv_redis S) (w_now w) (gr_token_hash g) r"
  proof (cases "cf_rate_limiter cf")
    case True
    then obtain n r where h: "hit (sv_redis S) (''invoke:'' @ uuid_str (gr_agent_id g)) 60 (w_now w) (w_redis w) = (Inr n, r)"
      and n: "n \<le> invokes_per_minute_per_agent (cf_settings cf)" using assms(9) by (auto simp: lets_through_def)
    show ?thesis
      using that [of r] True n check_hit [OF assms(1) _ h] hit_keeps_marker [OF assms(3) h] assms(9) by (simp add: lets_through_def)
  next
    case False
    then show ?thesis using that [of "w_redis w"] assms(9) by (simp add: lets_through_def)
  qed
  let ?w = "w\<lparr>w_redis := r\<rparr>"
  have c: "can_call cf (tl_provider tool) ?w" using assms(12) by (simp add: can_call_def circuit_blocks_def)
  have s: "stored_credential S cf (w_now ?w) account tok" "get_account (w_db ?w) (gr_connected_account_id g) = Some account"
    "get_grant (w_db ?w) (gr_id g) = Some g" "cf_grant_cache cf \<longrightarrow> \<not> revoked_at (sv_redis S) (w_now ?w) (gr_token_hash g) (w_redis ?w)"
    using assms(4-6) m by simp_all
  obtain o' w' where e: "execute_call S cf g (gr_token_hash g) tool args start ?w = (Inr o', w')" "io_status o' = ''success''"
    "io_result o' = v" "same_rows ?w w'" "w_trace w' = w_trace ?w @ [EvHttp (drive_request tool tok params)]"
    using execute_succeeds [OF assms(1-3) s(2,1,3) assms(7) s(4) c assms(13-15), of start] by blast
  have "invoke_resolved S cf g (gr_token_hash g) tn args None False start w = (Inr o', w')"
    using e(1) r assms(7,8,10,11)
    by (simp add: invoke_resolved_def bindM_def utcnow_run get_tool_def with_idempotency_def)
  then show ?thesis using e by (simp add: same_rows_def)
qed

lemma resolved_is_audited:
  assumes "quiet S" and "invoke_resolved S cf g h tn args k False start w = (Inr o', w')" and "same_rows w w'"
    and "w_dirty w = []" and "get_grant (w_db w) (gr_id g) \<noteq> None"
    and "\<And>x. fst (sv_uuid4 S x) \<notin> au_id ` set (db_audit (w_db w))"
  shows "\<exists>row w2. invoke_grant S cf g h tn args k False start w = (Inr o', w2) \<and>
    w_db w2 = (w_db w)\<lparr>db_audit := db_audit (w_db w) @ [row]\<rparr> \<and> w_trace w2 = w_trace w' @ [EvAudit row] \<and>
    au_grant_id row = gr_id g \<and> au_tool_name row = tn \<and> au_status row = io_status o'"
proof -
  obtain i x where i: "sv_uuid4 S (w_ext w') = (i, x)" by force
  then have "i \<notin> au_id ` set (db_audit (w_db w))" using assms(6) [of "w_ext w'"] by simp
  then have "au_id r' \<noteq> i" if "r' \<in> set (db_audit (w_db w))" for r' using that by blast
  then have "insert_audit r (w_db w') = Inr ((w_db w)\<lparr>db_audit := db_audit (w_db w) @ [r]\<rparr>)" if "au_id r = i" "au_grant_id r = gr_id g" for r
    using assms(3,5) that by (auto simp: insert_audit_def same_rows_def)
  then show ?thesis
    using assms(2-4) i
    by (simp add: invoke_grant_def bindM_def catchM_def record_call_def uuid4_run utcnow_run Let_def commit_quiet [OF assms(1)] same_rows_def)
qed

lemma before_epoch:
  assumes "instant d < 0"
  shows "epoch_seconds d \<le> 0"
proof -
  have "0 \<le> (- instant d) div 1000000" using assms by (simp add: pos_imp_zdiv_nonneg_iff)
  then show ?thesis using assms by (simp add: epoch_seconds_def Let_def)
qed

lemma find_appended: "(\<And>x. x \<in> set xs \<Longrightarrow> \<not> P x) \<Longrightarrow> P y \<Longrightarrow> find P (xs @ [y]) = Some y"
  by (induction xs) auto

lemma issued_row:
  assumes "insert_grant g db = Inr db'"
  shows "db' = db\<lparr>db_grants := db_grants db @ [g]\<rparr>" and "get_grant db' (gr_id g) = Some g"
    and "grants_by_hash db' (gr_token_hash g) = [g]" and "get_account db (gr_connected_account_id g) \<noteq> None"
proof -
  show d: "db' = db\<lparr>db_grants := db_grants db @ [g]\<rparr>" and "get_account db (gr_connected_account_id g) \<noteq> None"
    using assms by (auto simp: insert_grant_def split: if_splits)
  have n: "gr_id x \<noteq> gr_id g" "gr_token_hash x \<noteq> gr_token_hash g" if "x \<in> set (db_grants db)" for x
    using assms that by (auto simp: insert_grant_def split: if_splits)
  show "get_grant db' (gr_id g) = Some g"
    unfolding d get_grant_def using find_appended [of "db_grants db" "\<lambda>x. gr_id x = gr_id g" g] n(1) by simp
  show "grants_by_hash db' (gr_token_hash g) = [g]" using n by (simp add: d grants_by_hash_def filter_empty_conv)
qed

text \<open>What issuing leaves: the row, and a token that is accepted until it expires.\<close>

lemma issued_grant_facts:
  assumes "quiet S" and "jwt_library S keypair" and "keypair (jwt_private_key_pem (cf_settings cf)) (jwt_public_key_pem (cf_settings cf))"
    and "utf8_ok (map code (jwt_issuer (cf_settings cf)))" "utf8_ok (map code tn)" "utf8_ok (map code scope)"
    and "request_grant S cf agent_id tn scope w = (Inr (token, g), w1)" and "w_dirty w = []" and "0 \<le> w_now w"
  shows "\<exists>acc. get_account (w_db w) (gr_connected_account_id g) = Some acc \<and> get_account (w_db w1) (gr_connected_account_id g) = Some acc"
    and "get_grant (w_db w1) (gr_id g) = Some g" and "grants_by_hash (w_db w1) (hash_token S token) = [g]"
    and "gr_token_hash g = hash_token S token" and "gr_revoked_at g = None"
    and "dict_get (cf_tools cf) tn = Some tool \<Longrightarrow> tl_scope tool = gr_scope g"
    and "w_now w \<le> n \<Longrightarrow> n < epoch_seconds (gr_expires_at g) * 1000000 \<Longrightarrow>
      n < instant (gr_expires_at g) \<and> (\<exists>cl. verify_at S token (cf_settings cf) n = Inr cl \<and> cl_tool_name cl = tn)"
proof -
  obtain account w0 where a: "at_db (w_db w) (w_now w) (w_trace w) w0"
    and m: "may_issue cf (w_db w) (w_now w) agent_id tn scope account"
    and i: "issue_grant S cf agent_id tn scope (ca_id account) (Aware (w_now w)) w0 = (Inr (token, g), w1)"
    using request_grant_reaches [OF assms(1,8,7)] by blast
  let ?ttl = "grant_token_ttl_seconds (cf_settings cf)"
  obtain gid where gid: "sign_grant_token S (cf_settings cf) gid agent_id tn scope (Aware (w_now w)) (add_seconds (Aware (w_now w)) ?ttl) = Inr token"
    and g: "g = new_grant gid agent_id (ca_id account) tn scope (hash_token S token) (Aware (w_now w)) (add_seconds (Aware (w_now w)) ?ttl)"
    and ins: "insert_grant g (w_db w) = Inr (w_db w1)"
    using issue_grant_success [OF assms(1) _ i] a by (auto simp: at_db_def)
  note row = issued_row [OF ins]
  have gr: "gr_scope g = scope" "gr_expires_at g = add_seconds (Aware (w_now w)) ?ttl" using g by (simp_all add: new_grant_def)
  show hash: "gr_token_hash g = hash_token S token" "gr_revoked_at g = None" using g by (simp_all add: new_grant_def)
  show "get_grant (w_db w1) (gr_id g) = Some g" and "grants_by_hash (w_db w1) (hash_token S token) = [g]" using row(2,3) hash(1) by simp_all
  show "\<exists>acc. get_account (w_db w) (gr_connected_account_id g) = Some acc \<and> get_account (w_db w1) (gr_connected_account_id g) = Some acc"
    using row(1,4) by (auto simp: get_account_def)
  show "dict_get (cf_tools cf) tn = Some tool \<Longrightarrow> tl_scope tool = gr_scope g" using m gr(1) by (auto simp: may_issue_def)
  assume n: "w_now w \<le> n" "n < epoch_seconds (gr_expires_at g) * 1000000"
  have "0 \<le> instant (gr_expires_at g)"
    using assms(9) n before_epoch [of "gr_expires_at g"] by (cases "0 \<le> instant (gr_expires_at g)") simp_all
  moreover have "epoch_seconds (Aware (w_now w)) * 1000000 \<le> n" using epoch_floor [of "Aware (w_now w)"] assms(9) n by simp
  ultimately show "n < instant (gr_expires_at g) \<and> (\<exists>cl. verify_at S token (cf_settings cf) n = Inr cl \<and> cl_tool_name cl = tn)"
    using epoch_floor [of "gr_expires_at g"] n(2) jwt_library.signed_accepted [OF assms(2,3) gid assms(4-6)] gr(2) by auto
qed

text \<open>
  C6: a grant does what it was issued for.  When \<open>request_grant\<close> has returned a token
  and nobody interferes, then at every later instant before the token expires a call
  of the tool under that token succeeds, provided the account's credential was stored by
  the broker and is fresh, cache, rate limit and breaker let the call pass and the
  provider answers: the outcome is the provider's answer, exactly one request has left
  the broker, with the decrypted credential in it, and the one change to the tables
  is the audit row of this grant.
\<close>

theorem issued_grant_works:
  assumes "quiet S" and "kms_service S" and "redis_server (sv_redis S)" and "jwt_library S keypair"
    and "keypair (jwt_private_key_pem (cf_settings cf)) (jwt_public_key_pem (cf_settings cf))"
    and "utf8_ok (map code (jwt_issuer (cf_settings cf)))" "utf8_ok (map code tn)" "utf8_ok (map code scope)"
    and "request_grant S cf agent_id tn scope w = (Inr (token, g), w1)" and "w_dirty w = []" and "0 \<le> w_now w"
    and "w_db u = w_db w1" and "w_now w \<le> w_now u" and "w_now u < epoch_seconds (gr_expires_at g) * 1000000"
    and "\<And>a. get_account (w_db w) (gr_connected_account_id g) = Some a \<Longrightarrow> stored_credential S cf (w_now u) a tok"
    and "lets_through S cf g u" and "dict_get (cf_tools cf) tn = Some tool" and "can_call cf (tl_provider tool) u"
    and "drive_params args = Inr params" and "answers S (drive_request tool tok params) response"
    and "drive_result (sv_float S) response = Inr v"
    and "\<And>x. fst (sv_uuid4 S x) \<notin> au_id ` set (db_audit (w_db u))"
  shows "\<exists>o' row u2. invoke S cf token tn args None u = (Inr o', u2) \<and> io_status o' = ''success'' \<and> io_result o' = v \<and>
    w_trace u2 = w_trace u @ [EvHttp (drive_request tool tok params), EvAudit row] \<and>
    w_db u2 = (w_db u)\<lparr>db_audit := db_audit (w_db u) @ [row]\<rparr> \<and> au_grant_id row = gr_id g \<and> au_status row = ''success''"
proof -
  note issued = issued_grant_facts [OF assms(1,4-11)]
  obtain acc where acc: "get_account (w_db w) (gr_connected_account_id g) = Some acc" "get_account (w_db w1) (gr_connected_account_id g) = Some acc"
    using issued(1) by blast
  obtain cl where t: "w_now u < instant (gr_expires_at g)" and ver: "verify_at S token (cf_settings cf) (w_now u) = Inr cl" "cl_tool_name cl = tn"
    using issued(7) [OF assms(13,14)] by blast
  let ?u = "u\<lparr>w_dirty := [], w_locked := None\<rparr>"
  have s: "get_account (w_db ?u) (gr_connected_account_id g) = Some acc" "get_grant (w_db ?u) (gr_id g) = Some g"
    "grants_by_hash (w_db ?u) (hash_token S token) = [g]"
    using acc(2) issued(2,3) assms(12) by simp_all
  have st: "stored_credential S cf (w_now ?u) acc tok" "w_now ?u < instant (gr_expires_at g)" "lets_through S cf g ?u"
    "can_call cf (tl_provider tool) ?u" "tl_scope tool = gr_scope g"
    using assms(15) [OF acc(1)] t assms(16-18) issued(6) [OF assms(17)] by (auto simp: lets_through_def can_call_def circuit_blocks_def)
  obtain o' u1 where r: "invoke_resolved S cf g (gr_token_hash g) tn args None False (w_mono u) ?u = (Inr o', u1)"
    "io_status o' = ''success''" "io_result o' = v" "same_rows ?u u1"
    "w_trace u1 = w_trace ?u @ [EvHttp (drive_request tool tok params)]"
    using resolved_succeeds [OF assms(1-3) s(1) st(1) s(2) issued(5) st(2,3) assms(17) st(5,4) assms(19-21)] by blast
  obtain arow u2 where f: "invoke_grant S cf g (gr_token_hash g) tn args None False (w_mono u) ?u = (Inr o', u2)"
    "w_db u2 = (w_db u)\<lparr>db_audit := db_audit (w_db u) @ [arow]\<rparr>" "w_trace u2 = w_trace u1 @ [EvAudit arow]"
    "au_grant_id arow = gr_id g" "au_status arow = ''success''"
    using resolved_is_audited [OF assms(1) r(1,4)] s(2) assms(22) r(2) by auto
  have "cf_grant_cache cf \<longrightarrow> is_revoked S (hash_token S token) ?u = (Inr False, ?u)"
    using st(3) issued(4) by (simp add: lets_through_def grant_cache_run(3) [OF assms(3,1), where s = 1])
  then have "resolve_and_invoke S cf (hash_token S token) tn args None (w_mono u) ?u = (Inr o', u2)"
    using f(1) s(3) issued(4) by (cases "cf_grant_cache cf") (simp_all add: resolve_and_invoke_def bindM_def select_quiet [OF assms(1)])
  then have "invoke S cf token tn args None u = (Inr o', u2\<lparr>w_dirty := [], w_locked := None\<rparr>)"
    by (simp add: invoke_def monotonic_def bindM_def tryM_def verify_run ver Let_def with_session_def end_transaction_def catchM_def)
  then show ?thesis using r f by auto
qed

section \<open>The sample flow\<close>

definition flow_start :: "bytes \<Rightarrow> (memory, nat) world" where
  "flow_start blob = sample_start\<lparr>w_db := sample_db\<lparr>db_accounts := [sample_account\<lparr>ca_encrypted_access_token := blob\<rparr>]\<rparr>\<rparr>"

lemma flow_request_runs:
  obtains token g w1 where "request_grant sample_services sample_config 8 ''drive.read'' ''read'' (flow_start blob) = (Inr (token, g), w1)"
    and "gr_expires_at g = Aware 1700000300000000" and "gr_connected_account_id g = 9" and "db_audit (w_db w1) = []"
    and "w_circuits w1 = (\<lambda>_. None)" and "w_now w1 = 1700000000000000"
proof -
  let ?db = "sample_db\<lparr>db_accounts := [sample_account\<lparr>ca_encrypted_access_token := blob\<rparr>]\<rparr>"
  have db: "get_agent ?db 8 = Some sample_agent" "newest_account ?db 5 ''google'' = [sample_account\<lparr>ca_encrypted_access_token := blob\<rparr>]"
    "active_count ?db t a tn sc = 0" "get_account ?db 9 = Some (sample_account\<lparr>ca_encrypted_access_token := blob\<rparr>)"
    "db_grants ?db = []" "db_audit ?db = []" for t a tn sc
    by (simp_all add: sample_db_def empty_db_def get_agent_def sample_agent_def newest_account_def sample_account_def
      active_count_def get_account_def)
  have "\<exists>token g w1. request_grant sample_services sample_config 8 ''drive.read'' ''read'' (flow_start blob) = (Inr (token, g), w1) \<and>
      gr_expires_at g = Aware 1700000300000000 \<and> gr_connected_account_id g = 9 \<and> db_audit (w_db w1) = [] \<and>
      w_circuits w1 = (\<lambda>_. None) \<and> w_now w1 = 1700000000000000"
    by (simp add: flow_start_def request_grant_def grant_rate_limit_def issue_grant_def bindM_def quiet_runs Let_def
      sign_grant_token_def sample_jwt_encode_def insert_grant_def new_grant_def default_settings_def datetime_add_def db
      sample_start_def add_seconds_def del: dumps.simps)
  then show ?thesis using that by blast
qed

theorem issued_grant_works_witness:
  "\<exists>blob token g w1 o' u2. request_grant sample_services sample_config 8 ''drive.read'' ''read'' (flow_start blob) = (Inr (token, g), w1) \<and>
     invoke sample_services sample_config token ''drive.read'' [] None w1 = (Inr o', u2) \<and>
     io_status o' = ''success'' \<and> io_result o' = JObj [(''files'', JList [])] \<and> length (db_audit (w_db u2)) = 1"
proof -
  obtain blob e where e: "encrypt sample_services sample_key ''ya29.token'' sample_world = (Inr blob, e)"
    by (simp add: encrypt_def sample_key_def register_secret_def bindM_def urandom_def draw_def sample_encrypt_def
        sample_tag_def kms_sizes)
  obtain token g w1 where r: "request_grant sample_services sample_config 8 ''drive.read'' ''read'' (flow_start blob) = (Inr (token, g), w1)"
    and f: "gr_expires_at g = Aware 1700000300000000" "gr_connected_account_id g = 9" "db_audit (w_db w1) = []"
      "w_circuits w1 = (\<lambda>_. None)" "w_now w1 = 1700000000000000"
    by (rule flow_request_runs)
  have "list_all (\<lambda>k. utf8_ok (map code k)) [''credbroker'', ''drive.read'', ''read'']" by code_simp
  then have u: "utf8_ok (map code (jwt_issuer (cf_settings sample_config)))" "utf8_ok (map code ''drive.read'')" "utf8_ok (map code ''read'')"
    by (simp_all add: default_settings_def)
  have s: "stored_credential sample_services sample_config (w_now w1) a ''ya29.token''"
    if "get_account (w_db (flow_start blob)) (gr_connected_account_id g) = Some a" for a
  proof -
    have "a = sample_account\<lparr>ca_encrypted_access_token := blob\<rparr>"
      using that f(2) by (simp add: flow_start_def sample_db_def empty_db_def get_account_def sample_account_def)
    moreover have "\<exists>v v'. encrypt sample_services sample_key ''ya29.token'' v = (Inr blob, v')" using e by blast
    ultimately show ?thesis using sample_plain(1) by (simp add: stored_credential_def sample_account_def)
  qed
  have a: "answers sample_services (drive_request DriveListFilesTool ''ya29.token''
      [(''pageSize'', ''25''), (''fields'', ''nextPageToken,files(id,name,mimeType,modifiedTime)'')])
      \<lparr>rs_status_code = 200, rs_content = dumps default_opts (JObj [(''files'', JList [])])\<rparr>"
    by (simp add: answers_def drive_request_def del: dumps.simps)
  have c: "can_call sample_config (tl_provider DriveListFilesTool) w1"
    using f(4) by (simp add: can_call_def circuit_blocks_def default_settings_def)
  have t: "dict_get (cf_tools sample_config) ''drive.read'' = Some DriveListFilesTool"
    by (simp add: sample_config_def TOOL_REGISTRY_def register_tool_def DriveListFilesTool_def)
  obtain o' row u2 where i: "invoke sample_services sample_config token ''drive.read'' [] None w1 = (Inr o', u2)"
    "io_status o' = ''success''" "io_result o' = JObj [(''files'', JList [])]"
    "w_db u2 = (w_db w1)\<lparr>db_audit := db_audit (w_db w1) @ [row]\<rparr>"
    using issued_grant_works [OF sample_quiet sample_kms.kms_service_axioms _ sample_jwt.jwt_library_axioms _ u r _ _ refl _ _ s _ t c
        sample_listing(2) a, of "JObj [(''files'', JList [])]"] f
    by (auto simp: flow_start_def lets_through_def epoch_seconds_def drive_result_def sample_listing simp del: dumps.simps)
  then have "length (db_audit (w_db u2)) = 1" using f(3) by simp
  then show ?thesis using r i by blast
qed

section \<open>The stand-in for Drive behind the tool\<close>

definition file_json :: "drive_file \<Rightarrow> json" where
  "file_json f = JObj [(''id'', JStr (df_id f)), (''name'', JStr (df_name f)), (''mimeType'', JStr (df_mimeType f)),
     (''modifiedTime'', JStr (df_modifiedTime f))]"

definition listing :: "drive_file list \<Rightarrow> json" where
  "listing files = JObj [(''files'', JList (map file_json files))]"

text \<open>A token that can be sent in a header as it is: visible ASCII characters, at least one.\<close>

definition header_safe :: "string \<Rightarrow> bool" where
  "header_safe tok \<longleftrightarrow> tok \<noteq> [] \<and> list_all (\<lambda>c. 33 \<le> code c \<and> code c \<le> 126) tok"

text \<open>
  The stand-in is deployed at \<open>base\<close>.  Routing, the parsing of the query and the
  encoding of the answer belong to the HTTP framework: a request for \<open>/files\<close> with a
  numeric \<open>pageSize\<close> reaches \<open>list_files\<close>, and what that returns comes back as a JSON body.
\<close>

definition fake_drive_at :: "('r, 'x) services \<Rightarrow> string \<Rightarrow> bool" where
  "fake_drive_at S base \<longleftrightarrow> (\<forall>params n tok files.
     dict_get params ''pageSize'' = Some (py_str_int n) \<longrightarrow> header_safe tok \<longrightarrow>
     (\<forall>q. dict_get params ''q'' = Some q \<longrightarrow> utf8_decode q = Some q) \<longrightarrow>
     list_files (Some (''Bearer '' @ tok)) (Some n) (dict_get params ''q'') = Inr files \<longrightarrow>
     (\<exists>response. answers S (HttpGet (base @ ''/files'') params [(''Authorization'', ''Bearer '' @ tok)]) response \<and>
        rs_status_code response = 200 \<and> response_json (sv_float S) response = Inr (listing files)))"

text \<open>The page and the query a call asks for.\<close>

definition wanted_query :: "dict \<Rightarrow> string option" where
  "wanted_query args =
     (case dict_get args ''query'' of Some v \<Rightarrow> if json_truthy v then Some (json_str v) else None | None \<Rightarrow> None)"

definition first_page :: "int \<Rightarrow> 'a list \<Rightarrow> 'a list" where
  "first_page n xs = (if 0 \<le> n then take (nat n) xs else xs)"

lemma drive_params_sent:
  assumes "json_int (case dict_get args ''page_size'' of Some v \<Rightarrow> v | None \<Rightarrow> JInt 25) = Inr n"
  obtains params where "drive_params args = Inr params" and "dict_get params ''pageSize'' = Some (py_str_int n)"
    and "dict_get params ''q'' = wanted_query args"
  using assms by (auto simp: drive_params_def optional_param_def wanted_query_def split: option.splits)

lemma bearer_accepted: "list_files (Some (''Bearer '' @ tok)) (Some n) q = Inr (first_page n (matching_files q))"
  by (simp add: list_files_def prefix_def first_page_def Let_def)

text \<open>
  C39: the Drive tool lists what the stand-in holds.  With the tool pointed at a
  deployment of the stand-in, every call with a usable page size sends one request, is
  accepted whatever the token, and returns the files whose names contain the query, in the
  stand-in's order and at most a page of them.
\<close>

theorem drive_tool_lists_files:
  assumes "quiet S" and "fake_drive_at S (tl_base_url tool)" and "header_safe tok"
    and "json_int (case dict_get args ''page_size'' of Some v \<Rightarrow> v | None \<Rightarrow> JInt 25) = Inr n"
    and "\<And>q. wanted_query args = Some q \<Longrightarrow> utf8_decode q = Some q"
  shows "\<exists>w' request. tool_call S tool tok args w =
      (Inr (listing (first_page n (matching_files (wanted_query args)))), w') \<and> w_trace w' = w_trace w @ [EvHttp request]"
proof -
  obtain params where p: "drive_params args = Inr params" "dict_get params ''pageSize'' = Some (py_str_int n)"
    "dict_get params ''q'' = wanted_query args" by (rule drive_params_sent [OF assms(4)])
  obtain response where a: "answers S (drive_request tool tok params) response" "rs_status_code response = 200"
    "response_json (sv_float S) response = Inr (listing (first_page n (matching_files (wanted_query args))))"
    using assms(2) p(2,3) assms(3,5) bearer_accepted [of tok n "wanted_query args"]
    unfolding fake_drive_at_def drive_request_def by metis
  then have "drive_result (sv_float S) response = Inr (listing (first_page n (matching_files (wanted_query args))))"
    by (simp add: drive_result_def)
  from tool_call_answered [OF assms(1) p(1) a(1) this, of w] show ?thesis by auto
qed

text \<open>The stand-in as the sample services' provider.\<close>

fun fake_http :: "http_request \<Rightarrow> nat \<Rightarrow> (exn + http_response) \<times> nat" where
  "fake_http (HttpGet url params headers) x =
     (case list_files (dict_get headers ''Authorization'') (Option.bind (dict_get params ''pageSize'') py_int) (dict_get params ''q'') of
        Inr files \<Rightarrow> (Inr \<lparr>rs_status_code = 200, rs_content = dumps default_opts (listing files)\<rparr>, x)
      | Inl e \<Rightarrow> (Inr \<lparr>rs_status_code = 401, rs_content = []\<rparr>, x))"
| "fake_http (HttpPost url d) x = (Inr \<lparr>rs_status_code = 405, rs_content = []\<rparr>, x)"

definition demo_services :: "(memory, nat) services" where
  "demo_services = sample_services\<lparr>sv_http := fake_http\<rparr>"

lemma join_ascii: "is_ascii sep \<Longrightarrow> list_all is_ascii xs \<Longrightarrow> is_ascii (join sep xs)"
  by (induction sep xs rule: join.induct) (auto simp: is_ascii_def)

lemma is_ascii_append [simp]: "is_ascii (xs @ ys) \<longleftrightarrow> is_ascii xs \<and> is_ascii ys"
  by (auto simp: is_ascii_def)

lemma is_ascii_Cons [simp]: "is_ascii (c # cs) \<longleftrightarrow> code c < 128 \<and> is_ascii cs"
  by (auto simp: is_ascii_def)

lemma listing_ascii: "is_ascii (dumps default_opts (listing files))"
proof -
  have "is_ascii (dumps default_opts (file_json f))" for f
    using dumps_str_ascii by (simp add: file_json_def default_opts_def order_items_def) (simp add: is_ascii_def)
  then have "is_ascii (dumps default_opts (JList (map file_json fs)))" for fs
    by (auto simp: default_opts_def list_all_iff is_ascii_def [of "[]"] intro!: join_ascii)
  then show ?thesis
    using dumps_str_ascii by (simp add: listing_def default_opts_def order_items_def is_ascii_def [of "[]"])
qed

lemma listing_read: "set files \<subseteq> set SAMPLE_FILES \<Longrightarrow>
  response_json JNonFinite \<lparr>rs_status_code = c, rs_content = dumps default_opts (listing files)\<rparr> = Inr (listing files)"
proof -
  assume f: "set files \<subseteq> set SAMPLE_FILES"
  have "list_all (\<lambda>f. wf_json JNonFinite (file_json f)) SAMPLE_FILES" by code_simp
  moreover have "utf8_ok (map code ''files'')" by code_simp
  ultimately have "wf_json JNonFinite (listing files)" using f by (auto simp: listing_def list_all_iff)
  from loads_dumps [OF this] show ?thesis
    using utf8_decode_ascii [OF listing_ascii [of files]] by (simp add: response_json_def del: dumps.simps)
qed

lemma demo_deployed: "fake_drive_at demo_services base"
proof -
  have r: "response_json JNonFinite \<lparr>rs_status_code = c, rs_content = dumps default_opts (listing files)\<rparr> = Inr (listing files)"
    if "list_files (Some (''Bearer '' @ tok)) (Some n) q = Inr files" for c files tok n q
    using that unfolding bearer_accepted
    by (intro listing_read) (auto simp: first_page_def matching_files_def split: option.splits if_splits dest: in_set_takeD)
  have "\<exists>response. answers demo_services (HttpGet (base @ ''/files'') params [(''Authorization'', ''Bearer '' @ tok)]) response \<and>
      rs_status_code response = 200 \<and> response_json (sv_float demo_services) response = Inr (listing files)"
    if p: "dict_get params ''pageSize'' = Some (py_str_int n)"
      and f: "list_files (Some (''Bearer '' @ tok)) (Some n) (dict_get params ''q'') = Inr files" for params n tok files
    by (rule exI [of _ "\<lparr>rs_status_code = 200, rs_content = dumps default_opts (listing files)\<rparr>"])
      (use p f r [OF f] in \<open>simp add: answers_def demo_services_def del: dumps.simps\<close>)
  then show ?thesis unfolding fake_drive_at_def by blast
qed

theorem drive_tool_lists_files_witness:
  "\<exists>w' request. tool_call demo_services DriveListFilesTool ''demo'' [(''query'', JStr ''roadmap'')] sample_world =
     (Inr (listing [SAMPLE_FILES ! 1]), w') \<and> w_trace w' = [EvHttp request]"
proof -
  have q: "quiet demo_services" by (simp add: demo_services_def quiet_def sample_services_def)
  have h: "header_safe ''demo''" by code_simp
  have n: "json_int (case dict_get [(''query'', JStr ''roadmap'')] ''page_size'' of Some v \<Rightarrow> v | None \<Rightarrow> JInt 25) = Inr 25"
    by (simp add: json_int_def)
  have w: "wanted_query [(''query'', JStr ''roadmap'')] = Some ''roadmap''" by (simp add: wanted_query_def)
  have u: "utf8_decode ''roadmap'' = Some ''roadmap''" by code_simp
  have m: "first_page 25 (matching_files (Some ''roadmap'')) = [SAMPLE_FILES ! 1]" by code_simp
  show ?thesis
    using drive_tool_lists_files [OF q demo_deployed h n, where w = sample_world] u unfolding w m by simp
qed

end
