(* ===== verification/Cb_Grpc.thy ===== *)
theory Cb_Grpc
  imports Cb_Servicer Cb_App
begin

text \<open>
  The generated gRPC code (\<open>proto/credbroker_pb2_grpc.py\<close>): the stub of a client, the
  servicer's base class and the registration of its methods, and what they make of a call
  from an agent to the servicer of \<open>build_grpc_server\<close>.

  The protobuf library turns messages into bytes (\<open>messages\<close>) and grpc carries a
  request to the handler registered for its path (the parameter \<open>T\<close>).
\<close>

section \<open>The version the code was generated for\<close>

text \<open>
  Importing the module raises when grpc is older than the generator, or so old that it
  has no \<open>first_version_is_lower\<close> (the parameter) to tell.
\<close>

definition GRPC_GENERATED_VERSION :: string where
  "GRPC_GENERATED_VERSION = ''1.83.1''"

definition check_grpc_version :: "(string \<Rightarrow> string \<Rightarrow> bool) option \<Rightarrow> string \<Rightarrow> exn + unit" where
  "check_grpc_version first_version_is_lower GRPC_VERSION =
     (let version_not_supported =
        (case first_version_is_lower of Some lower \<Rightarrow> lower GRPC_VERSION GRPC_GENERATED_VERSION | None \<Rightarrow> True) in
      if version_not_supported
      then Inl (OtherException ''RuntimeError''
        (''The grpc package installed is at version '' @ GRPC_VERSION @ '','' @
         '' but the generated code in credbroker/proto/credbroker_pb2_grpc.py depends on'' @
         '' grpcio>='' @ GRPC_GENERATED_VERSION @ ''.'' @
         '' Please upgrade your grpc module to grpcio>='' @ GRPC_GENERATED_VERSION @
         '' or downgrade your generated code using grpcio-tools<='' @ GRPC_VERSION @ ''.''))
      else Inr ())"

lemma grpc_version_accepted:
  "check_grpc_version f v = Inr () \<longleftrightarrow> (\<exists>lower. f = Some lower \<and> \<not> lower v GRPC_GENERATED_VERSION)"
  by (simp add: check_grpc_version_def Let_def split: option.split)

section \<open>Messages on the wire\<close>

text \<open>\<open>SerializeToString\<close> and \<open>FromString\<close> of a message class.\<close>

record 'm codec =
  to_wire :: "'m \<Rightarrow> bytes"
  from_wire :: "bytes \<Rightarrow> exn + 'm"

record 'm messages =
  GrantRequest :: "grant_request codec"
  GrantResponse :: "grant_response codec"
  InvokeRequest :: "'m invoke_request codec"
  InvokeResponse :: "'m invoke_response codec"
  RevokeRequest :: "string codec"
  RevokeResponse :: "bool codec"

text \<open>What is relied on: a serialised message is read back as it was.\<close>

locale message_codecs =
  fixes M :: "'m messages"
  assumes grant_request: "from_wire (GrantRequest M) (to_wire (GrantRequest M) q) = Inr q"
    and grant_response: "from_wire (GrantResponse M) (to_wire (GrantResponse M) a) = Inr a"
    and invoke_request: "from_wire (InvokeRequest M) (to_wire (InvokeRequest M) iq) = Inr iq"
    and invoke_response: "from_wire (InvokeResponse M) (to_wire (InvokeResponse M) ia) = Inr ia"
    and revoke_request: "from_wire (RevokeRequest M) (to_wire (RevokeRequest M) gid) = Inr gid"
    and revoke_response: "from_wire (RevokeResponse M) (to_wire (RevokeResponse M) ok) = Inr ok"

section \<open>The servicer and its base class\<close>

record ('r, 'x, 'm) servicer =
  do_RequestGrant :: "grant_request \<Rightarrow> ('r, 'x, grant_response) io"
  do_InvokeTool :: "'m invoke_request \<Rightarrow> ('r, 'x, 'm invoke_response) io"
  do_RevokeGrant :: "string \<Rightarrow> ('r, 'x, bool) io"

text \<open>
  A method of the base class sets the status code and the details of its context and
  raises; a client sees that status.
\<close>

definition not_implemented :: "('r, 'x, 'a) io" where
  "not_implemented = raise (AbortError UNIMPLEMENTED ''Method not implemented!'')"

definition base_servicer :: "('r, 'x, 'm) servicer" where
  "base_servicer = \<lparr>do_RequestGrant = (\<lambda>_. not_implemented), do_InvokeTool = (\<lambda>_. not_implemented), do_RevokeGrant = (\<lambda>_. not_implemented)\<rparr>"

text \<open>The broker's servicer overrides the three methods.\<close>

definition CredBrokerServicer :: "('r, 'x) services \<Rightarrow> config \<Rightarrow> 'm json_format \<Rightarrow> ('r, 'x, 'm) servicer" where
  "CredBrokerServicer S cf J =
     base_servicer\<lparr>do_RequestGrant := RequestGrant S cf, do_InvokeTool := InvokeTool S cf J, do_RevokeGrant := RevokeGrant S cf\<rparr>"

section \<open>Registration\<close>

text \<open>\<open>grpc.unary_unary_rpc_method_handler\<close> for the types of each method: behaviour, deserializer, serializer.\<close>

datatype ('r, 'x, 'm) rpc_method_handler =
    GrantHandler "grant_request \<Rightarrow> ('r, 'x, grant_response) io" "bytes \<Rightarrow> exn + grant_request" "grant_response \<Rightarrow> bytes"
  | InvokeHandler "'m invoke_request \<Rightarrow> ('r, 'x, 'm invoke_response) io" "bytes \<Rightarrow> exn + 'm invoke_request" "'m invoke_response \<Rightarrow> bytes"
  | RevokeHandler "string \<Rightarrow> ('r, 'x, bool) io" "bytes \<Rightarrow> exn + string" "bool \<Rightarrow> bytes"

record ('r, 'x, 'm) rpc_server =
  sr_generic :: "(string \<times> (string \<times> ('r, 'x, 'm) rpc_method_handler) list) list"
  sr_registered :: "(string \<times> (string \<times> ('r, 'x, 'm) rpc_method_handler) list) list"

definition SERVICE :: string where
  "SERVICE = ''credbroker.v1.CredBroker''"

definition rpc_method_handlers :: "'m messages \<Rightarrow> ('r, 'x, 'm) servicer \<Rightarrow> (string \<times> ('r, 'x, 'm) rpc_method_handler) list" where
  "rpc_method_handlers M servicer =
     [(''RequestGrant'', GrantHandler (do_RequestGrant servicer) (from_wire (GrantRequest M)) (to_wire (GrantResponse M))),
      (''InvokeTool'', InvokeHandler (do_InvokeTool servicer) (from_wire (InvokeRequest M)) (to_wire (InvokeResponse M))),
      (''RevokeGrant'', RevokeHandler (do_RevokeGrant servicer) (from_wire (RevokeRequest M)) (to_wire (RevokeResponse M)))]"

definition add_CredBrokerServicer_to_server :: "'m messages \<Rightarrow> ('r, 'x, 'm) servicer \<Rightarrow> ('r, 'x, 'm) rpc_server
    \<Rightarrow> ('r, 'x, 'm) rpc_server" where
  "add_CredBrokerServicer_to_server M servicer server =
     (let handlers = rpc_method_handlers M servicer in
      server\<lparr>sr_generic := sr_generic server @ [(SERVICE, handlers)],
             sr_registered := sr_registered server @ [(SERVICE, handlers)]\<rparr>)"

text \<open>The server object of \<open>build_grpc_server\<close> with the broker's servicer.\<close>

definition serving :: "'m messages \<Rightarrow> ('r, 'x) services \<Rightarrow> 'm json_format \<Rightarrow> grpc_server \<Rightarrow> ('r, 'x, 'm) rpc_server" where
  "serving M S J gs =
     add_CredBrokerServicer_to_server M (CredBrokerServicer S (gs_config gs) J) \<lparr>sr_generic = [], sr_registered = []\<rparr>"

section \<open>The client's side\<close>

text \<open>A channel carries a request to a path; \<open>unary_unary\<close> makes a callable of it.\<close>

type_synonym ('r, 'x) channel = "string \<Rightarrow> bytes \<Rightarrow> ('r, 'x, bytes) io"

definition unary_unary :: "('r, 'x) channel \<Rightarrow> string \<Rightarrow> ('q \<Rightarrow> bytes) \<Rightarrow> (bytes \<Rightarrow> exn + 'a) \<Rightarrow> 'q \<Rightarrow> ('r, 'x, 'a) io" where
  "unary_unary channel path request_serializer response_deserializer request =
     bindM (channel path (request_serializer request)) (\<lambda>b. liftE (response_deserializer b))"

record ('r, 'x, 'm) stub =
  st_RequestGrant :: "grant_request \<Rightarrow> ('r, 'x, grant_response) io"
  st_InvokeTool :: "'m invoke_request \<Rightarrow> ('r, 'x, 'm invoke_response) io"
  st_RevokeGrant :: "string \<Rightarrow> ('r, 'x, bool) io"

definition CredBrokerStub :: "'m messages \<Rightarrow> ('r, 'x) channel \<Rightarrow> ('r, 'x, 'm) stub" where
  "CredBrokerStub M channel =
     \<lparr>st_RequestGrant = unary_unary channel ''/credbroker.v1.CredBroker/RequestGrant''
        (to_wire (GrantRequest M)) (from_wire (GrantResponse M)),
      st_InvokeTool = unary_unary channel ''/credbroker.v1.CredBroker/InvokeTool''
        (to_wire (InvokeRequest M)) (from_wire (InvokeResponse M)),
      st_RevokeGrant = unary_unary channel ''/credbroker.v1.CredBroker/RevokeGrant''
        (to_wire (RevokeRequest M)) (from_wire (RevokeResponse M))\<rparr>"

text \<open>
  The static methods of the experimental class \<open>CredBroker\<close>: a call to a target with
  options, over the channel \<open>E\<close> that grpc keeps for them.
\<close>

record 'c call_options =
  co_options :: "(string \<times> string) list"
  co_channel_credentials :: "'c option"
  co_call_credentials :: "'c option"
  co_insecure :: bool
  co_compression :: "int option"
  co_wait_for_ready :: "bool option"
  co_timeout :: "real option"
  co_metadata :: "(string \<times> string) list option"

definition default_call :: "'c call_options" where
  "default_call = \<lparr>co_options = [], co_channel_credentials = None, co_call_credentials = None, co_insecure = False,
     co_compression = None, co_wait_for_ready = None, co_timeout = None, co_metadata = None\<rparr>"

definition CredBroker_RequestGrant :: "'m messages \<Rightarrow> (string \<Rightarrow> 'c call_options \<Rightarrow> ('r, 'x) channel) \<Rightarrow> grant_request
    \<Rightarrow> string \<Rightarrow> 'c call_options \<Rightarrow> ('r, 'x, grant_response) io" where
  "CredBroker_RequestGrant M E request target opts =
     unary_unary (E target opts) ''/credbroker.v1.CredBroker/RequestGrant''
       (to_wire (GrantRequest M)) (from_wire (GrantResponse M)) request"

definition CredBroker_InvokeTool :: "'m messages \<Rightarrow> (string \<Rightarrow> 'c call_options \<Rightarrow> ('r, 'x) channel) \<Rightarrow> 'm invoke_request
    \<Rightarrow> string \<Rightarrow> 'c call_options \<Rightarrow> ('r, 'x, 'm invoke_response) io" where
  "CredBroker_InvokeTool M E request target opts =
     unary_unary (E target opts) ''/credbroker.v1.CredBroker/InvokeTool''
       (to_wire (InvokeRequest M)) (from_wire (InvokeResponse M)) request"

definition CredBroker_RevokeGrant :: "'m messages \<Rightarrow> (string \<Rightarrow> 'c call_options \<Rightarrow> ('r, 'x) channel) \<Rightarrow> string
    \<Rightarrow> string \<Rightarrow> 'c call_options \<Rightarrow> ('r, 'x, bool) io" where
  "CredBroker_RevokeGrant M E request target opts =
     unary_unary (E target opts) ''/credbroker.v1.CredBroker/RevokeGrant''
       (to_wire (RevokeRequest M)) (from_wire (RevokeResponse M)) request"

section \<open>From the stub to the servicer\<close>

text \<open>The handler registered for a path: \<open>/\<close>, the service, \<open>/\<close>, the method.\<close>

definition handler_at :: "('r, 'x, 'm) rpc_server \<Rightarrow> string \<Rightarrow> ('r, 'x, 'm) rpc_method_handler option" where
  "handler_at server =
     map_of (concat (map (\<lambda>(service, handlers). map (\<lambda>(method, h). (''/'' @ service @ ''/'' @ method, h)) handlers) (sr_generic server)))"

text \<open>
  What is relied on of grpc, client and server together: a request for a registered path
  is deserialised, handled and its response serialised, a status the handler aborts with
  reaches the caller, and a path without handler is answered with \<open>UNIMPLEMENTED\<close>.
  Nothing is assumed about a handler that raises anything else, which grpc turns into a
  status of its own.
\<close>

definition statuses_only :: "('r, 'x, 'a) io \<Rightarrow> bool" where
  "statuses_only m \<longleftrightarrow> (\<forall>w. case fst (m w) of Inr _ \<Rightarrow> True | Inl e \<Rightarrow> is_AbortError e = is_Exception e)"

lemma guarded_statuses: "statuses_only (rpc_error_guard m)"
  by (simp add: statuses_only_def guard_status)

locale grpc_transport =
  fixes T :: "('r, 'x, 'm) rpc_server \<Rightarrow> ('r, 'x) channel"
  assumes grant_call: "handler_at server path = Some (GrantHandler f d s) \<Longrightarrow> d b = Inr q \<Longrightarrow> statuses_only (f q) \<Longrightarrow>
      T server path b = bindM (f q) (\<lambda>a. ret (s a))"
    and invoke_call: "handler_at server path = Some (InvokeHandler f' d' s') \<Longrightarrow> d' b = Inr iq \<Longrightarrow> statuses_only (f' iq) \<Longrightarrow>
      T server path b = bindM (f' iq) (\<lambda>a. ret (s' a))"
    and revoke_call: "handler_at server path = Some (RevokeHandler f'' d'' s'') \<Longrightarrow> d'' b = Inr gid \<Longrightarrow> statuses_only (f'' gid) \<Longrightarrow>
      T server path b = bindM (f'' gid) (\<lambda>a. ret (s'' a))"
    and no_handler: "handler_at server path = None \<Longrightarrow> \<exists>detail. T server path b = raise (AbortError UNIMPLEMENTED detail)"

lemma carried:
  assumes "channel path (ser q) = bindM (f q) (\<lambda>a. ret (s a))" and "\<And>a. des (s a) = Inr a"
  shows "unary_unary channel path ser des q = f q"
  by (rule ext) (simp add: unary_unary_def assms bindM_def liftE_def split: prod.split sum.split)

text \<open>A client whose channel leads to a server, with messages that survive the wire.\<close>

locale connected_client = grpc_transport T + message_codecs M
  for T :: "('r, 'x, 'm) rpc_server \<Rightarrow> ('r, 'x) channel" and M :: "'m messages"
begin

lemma call_through:
  "handler_at server path = Some (GrantHandler f (from_wire (GrantRequest M)) (to_wire (GrantResponse M))) \<Longrightarrow> statuses_only (f q) \<Longrightarrow>
   unary_unary (T server) path (to_wire (GrantRequest M)) (from_wire (GrantResponse M)) q = f q"
  "handler_at server path = Some (InvokeHandler f' (from_wire (InvokeRequest M)) (to_wire (InvokeResponse M))) \<Longrightarrow> statuses_only (f' iq) \<Longrightarrow>
   unary_unary (T server) path (to_wire (InvokeRequest M)) (from_wire (InvokeResponse M)) iq = f' iq"
  "handler_at server path = Some (RevokeHandler f'' (from_wire (RevokeRequest M)) (to_wire (RevokeResponse M))) \<Longrightarrow> statuses_only (f'' gid) \<Longrightarrow>
   unary_unary (T server) path (to_wire (RevokeRequest M)) (from_wire (RevokeResponse M)) gid = f'' gid"
  by (auto intro!: carried grant_call invoke_call revoke_call
      simp: grant_request grant_response invoke_request invoke_response revoke_request revoke_response)

end

lemma servicer_statuses:
  "statuses_only (RequestGrant S cf rq)" "statuses_only (InvokeTool S cf J iq)" "statuses_only (RevokeGrant S cf gid)"
  by (simp_all add: RequestGrant_def InvokeTool_def RevokeGrant_def guarded_statuses)

lemma serving_handlers:
  "handler_at (serving M S J gs) =
     [''/credbroker.v1.CredBroker/RequestGrant'' \<mapsto>
        GrantHandler (RequestGrant S (gs_config gs)) (from_wire (GrantRequest M)) (to_wire (GrantResponse M)),
      ''/credbroker.v1.CredBroker/InvokeTool'' \<mapsto>
        InvokeHandler (InvokeTool S (gs_config gs) J) (from_wire (InvokeRequest M)) (to_wire (InvokeResponse M)),
      ''/credbroker.v1.CredBroker/RevokeGrant'' \<mapsto>
        RevokeHandler (RevokeGrant S (gs_config gs)) (from_wire (RevokeRequest M)) (to_wire (RevokeResponse M))]"
  by (rule ext) (simp add: handler_at_def serving_def add_CredBrokerServicer_to_server_def rpc_method_handlers_def SERVICE_def
      CredBrokerServicer_def base_servicer_def Let_def)

text \<open>
  C34: an agent that calls through the generated stub talks to the broker's own
  handlers.  Over any transport that does what grpc documents, each method of the stub,
  and of the experimental class over a channel to the same server, is the servicer's
  method of that name on the message as it was sent, with its answer, its aborts and its
  effects; no method is left to the base class, and the server answers no other path.
\<close>

theorem stub_calls_servicer:
  assumes "grpc_transport T" and "message_codecs M" and "E target opts = T (serving M S J gs)"
  shows "st_RequestGrant (CredBrokerStub M (T (serving M S J gs))) rq = RequestGrant S (gs_config gs) rq \<and>
    st_InvokeTool (CredBrokerStub M (T (serving M S J gs))) iq = InvokeTool S (gs_config gs) J iq \<and>
    st_RevokeGrant (CredBrokerStub M (T (serving M S J gs))) gid = RevokeGrant S (gs_config gs) gid \<and>
    CredBroker_RequestGrant M E rq target opts = RequestGrant S (gs_config gs) rq \<and>
    CredBroker_InvokeTool M E iq target opts = InvokeTool S (gs_config gs) J iq \<and>
    CredBroker_RevokeGrant M E gid target opts = RevokeGrant S (gs_config gs) gid \<and>
    (path \<notin> {''/credbroker.v1.CredBroker/RequestGrant'', ''/credbroker.v1.CredBroker/InvokeTool'', ''/credbroker.v1.CredBroker/RevokeGrant''} \<longrightarrow>
       (\<exists>detail. T (serving M S J gs) path b = raise (AbortError UNIMPLEMENTED detail)))"
proof -
  note through = connected_client.call_through [OF connected_client.intro [OF assms(1,2)]]
  have "path \<notin> {''/credbroker.v1.CredBroker/RequestGrant'', ''/credbroker.v1.CredBroker/InvokeTool'', ''/credbroker.v1.CredBroker/RevokeGrant''} \<Longrightarrow>
      handler_at (serving M S J gs) path = None" by (simp add: serving_handlers)
  then show ?thesis
    using grpc_transport.no_handler [OF assms(1)] assms(3)
    by (auto simp: CredBrokerStub_def CredBroker_RequestGrant_def CredBroker_InvokeTool_def CredBroker_RevokeGrant_def
        intro!: through) (simp_all add: serving_handlers servicer_statuses)
qed

section \<open>A sample transport\<close>

text \<open>Fields one after the other: each character after a mark, and an end mark.\<close>

definition put_field :: "string \<Rightarrow> bytes" where
  "put_field s = concat (map (\<lambda>c. [CHR ''c'', c]) s) @ ''.''"

fun get_field :: "bytes \<Rightarrow> (string \<times> bytes) option" where
  "get_field (m # c # b) =
     (if m = CHR ''.'' then Some ([], c # b)
      else case get_field b of None \<Rightarrow> None | Some (s, r) \<Rightarrow> Some (c # s, r))"
| "get_field [m] = (if m = CHR ''.'' then Some ([], []) else None)"
| "get_field [] = None"

lemma get_put [simp]: "get_field (put_field s @ r) = Some (s, r)"
proof (induction s)
  case Nil
  then show ?case by (cases r) (simp_all add: put_field_def)
qed (simp add: put_field_def)

lemma get_put_end [simp]: "get_field (put_field s) = Some (s, [])"
  using get_put [of s "[]"] by simp

fun get_fields :: "nat \<Rightarrow> bytes \<Rightarrow> string list" where
  "get_fields 0 b = []"
| "get_fields (Suc n) b = (case get_field b of None \<Rightarrow> [] | Some (s, r) \<Rightarrow> s # get_fields n r)"

definition put_fields :: "string list \<Rightarrow> bytes" where
  "put_fields fs = concat (map put_field fs)"

lemma get_put_fields [simp]: "get_fields (length fs) (put_fields fs) = fs"
  by (induction fs) (simp_all add: put_fields_def)

definition malformed :: "exn + 'a" where
  "malformed = Inl (OtherException ''DecodeError'' ''Error parsing message'')"

text \<open>A \<open>Struct\<close> is its own encoding here.\<close>

definition sample_messages :: "string messages" where
  "sample_messages = \<lparr>
     GrantRequest = \<lparr>to_wire = (\<lambda>q. put_fields [rq_agent_id q, rq_tool_name q, rq_requested_scope q]),
       from_wire = (\<lambda>b. case get_fields 3 b of [a, t, s] \<Rightarrow> Inr \<lparr>rq_agent_id = a, rq_tool_name = t, rq_requested_scope = s\<rparr> | _ \<Rightarrow> malformed)\<rparr>,
     GrantResponse = \<lparr>to_wire = (\<lambda>a. put_fields [rp_grant_token a, py_str_int (fst (rp_expires_at a)), py_str_int (snd (rp_expires_at a)), rp_grant_id a]),
       from_wire = (\<lambda>b. case get_fields 4 b of
           [t, s, n, g] \<Rightarrow> Inr \<lparr>rp_grant_token = t, rp_expires_at = (the (py_int s), the (py_int n)), rp_grant_id = g\<rparr> | _ \<Rightarrow> malformed)\<rparr>,
     InvokeRequest = \<lparr>to_wire = (\<lambda>q. put_fields [iq_grant_token q, iq_tool_name q, iq_arguments q, iq_idempotency_key q]),
       from_wire = (\<lambda>b. case get_fields 4 b of
           [g, t, a, k] \<Rightarrow> Inr \<lparr>iq_grant_token = g, iq_tool_name = t, iq_arguments = a, iq_idempotency_key = k\<rparr> | _ \<Rightarrow> malformed)\<rparr>,
     InvokeResponse = \<lparr>to_wire = (\<lambda>a. put_fields [ip_result a, ip_status a]),
       from_wire = (\<lambda>b. case get_fields 2 b of [r, s] \<Rightarrow> Inr \<lparr>ip_result = r, ip_status = s\<rparr> | _ \<Rightarrow> malformed)\<rparr>,
     RevokeRequest = \<lparr>to_wire = put_field, from_wire = (\<lambda>b. case get_field b of Some (g, _) \<Rightarrow> Inr g | None \<Rightarrow> malformed)\<rparr>,
     RevokeResponse = \<lparr>to_wire = (\<lambda>r. if r then ''1'' else []), from_wire = (\<lambda>b. Inr (b = ''1''))\<rparr>\<rparr>"

interpretation sample_codecs: message_codecs sample_messages
proof unfold_locales
  fix q :: grant_request and a :: grant_response and iq :: "string invoke_request" and ia :: "string invoke_response"
  show "from_wire (GrantRequest sample_messages) (to_wire (GrantRequest sample_messages) q) = Inr q"
    using get_put_fields [of "[rq_agent_id q, rq_tool_name q, rq_requested_scope q]"]
    by (simp add: sample_messages_def eval_nat_numeral del: get_fields.simps)
  show "from_wire (GrantResponse sample_messages) (to_wire (GrantResponse sample_messages) a) = Inr a"
    using get_put_fields [of "[rp_grant_token a, py_str_int (fst (rp_expires_at a)), py_str_int (snd (rp_expires_at a)), rp_grant_id a]"]
    by (simp add: sample_messages_def eval_nat_numeral del: get_fields.simps)
  show "from_wire (InvokeRequest sample_messages) (to_wire (InvokeRequest sample_messages) iq) = Inr iq"
    using get_put_fields [of "[iq_grant_token iq, iq_tool_name iq, iq_arguments iq, iq_idempotency_key iq]"]
    by (simp add: sample_messages_def eval_nat_numeral del: get_fields.simps)
  show "from_wire (InvokeResponse sample_messages) (to_wire (InvokeResponse sample_messages) ia) = Inr ia"
    using get_put_fields [of "[ip_result ia, ip_status ia]"]
    by (simp add: sample_messages_def eval_nat_numeral del: get_fields.simps)
qed (auto simp: sample_messages_def)

definition sample_transport :: "('r, 'x, 'm) rpc_server \<Rightarrow> ('r, 'x) channel" where
  "sample_transport server path b =
     (let undecodable = raise (AbortError INTERNAL ''Exception deserializing request!'') in
      case handler_at server path of
        None \<Rightarrow> raise (AbortError UNIMPLEMENTED ''Method not found!'')
      | Some (GrantHandler f d s) \<Rightarrow> (case d b of Inl e \<Rightarrow> undecodable | Inr q \<Rightarrow> bindM (f q) (\<lambda>a. ret (s a)))
      | Some (InvokeHandler f d s) \<Rightarrow> (case d b of Inl e \<Rightarrow> undecodable | Inr q \<Rightarrow> bindM (f q) (\<lambda>a. ret (s a)))
      | Some (RevokeHandler f d s) \<Rightarrow> (case d b of Inl e \<Rightarrow> undecodable | Inr q \<Rightarrow> bindM (f q) (\<lambda>a. ret (s a))))"

interpretation sample_client: connected_client sample_transport sample_messages
  by unfold_locales (auto simp: sample_transport_def Let_def)

definition sample_grpc_server :: grpc_server where
  "sample_grpc_server = \<lparr>gs_config = sample_config, gs_invoke_service = new_invoke_service sample_config None None,
     gs_address = ''[::]:50051''\<rparr>"

definition text_format :: "string json_format" where
  "text_format = \<lparr>message_to_dict = (\<lambda>t. case loads JNonFinite t of Some (JObj d) \<Rightarrow> Inr d | _ \<Rightarrow> Inr []),
     parse_dict = (\<lambda>v. case v of JObj d \<Rightarrow> Inr (dumps default_opts v) | _ \<Rightarrow> Inl (OtherException ''ParseError'' ''not an object''))\<rparr>"

theorem stub_calls_servicer_witness:
  "fst (st_RevokeGrant (CredBrokerStub sample_messages
      (sample_transport (serving sample_messages sample_services text_format sample_grpc_server))) (uuid_str 7) sample_live) = Inr True \<and>
   (\<exists>detail. sample_transport (serving sample_messages sample_services text_format sample_grpc_server) ''/health'' [] =
      raise (AbortError UNIMPLEMENTED detail))"
proof -
  have "fst (RevokeGrant sample_services (gs_config sample_grpc_server) (uuid_str 7) sample_live) = Inr True"
    by (simp add: sample_grpc_server_def RevokeGrant_def parse_uuid_def rpc_error_guard_def bindM_def catchM_def with_session_def
        end_transaction_def revoke_grant_def select_quiet utcnow_run commit_quiet update_grant_def get_grant_def sample_live_def
        sample_grant_def new_grant_def inc_def)
  moreover note stub_calls_servicer [OF sample_client.grpc_transport_axioms sample_codecs.message_codecs_axioms,
      where E = "\<lambda>_ _. sample_transport (serving sample_messages sample_services text_format sample_grpc_server)"
        and target = "[]" and opts = "default_call :: unit call_options" and S = sample_services and J = text_format
        and gs = sample_grpc_server and gid = "uuid_str 7" and path = "''/health''" and b = "[]", OF refl]
  ultimately show ?thesis by simp
qed

end
