(* ===== verification/Cb_Schema.thy ===== *)
theory Cb_Schema
  imports Cb_Models
begin

text \<open>
  The schema itself, as data: the tables the ORM classes of \<open>credbroker/db/models.py\<close>
  declare, and the migration \<open>alembic/versions/0001_initial_schema.py\<close> as the statements it
  executes.

  The statements run on a catalogue of tables and indexes with the rules of
  PostgreSQL: a name is taken once, a foreign key names a column that exists, an index is on
  existing columns, and a table another one refers to cannot be dropped.
\<close>

section \<open>Catalogues\<close>

datatype column_type = UuidT | TextT | LargeBinaryT | TextArrayT | DateTimeTzT | IntegerT

record column =
  cn_name :: string
  cn_type :: column_type
  cn_primary_key :: bool
  cn_foreign_key :: "(string \<times> string) option"
  cn_nullable :: bool

record table_index =
  ix_name :: string
  ix_table :: string
  ix_columns :: "string list"
  ix_unique :: bool

record catalogue =
  ct_tables :: "(string \<times> column list) list"
  ct_indexes :: "table_index list"

definition empty_catalogue :: catalogue where
  "empty_catalogue = \<lparr>ct_tables = [], ct_indexes = []\<rparr>"

abbreviation ddl_error :: "string \<Rightarrow> exn" where
  "ddl_error msg \<equiv> OtherException ''ProgrammingError'' msg"

definition has_column :: "(string \<times> column list) list \<Rightarrow> string \<Rightarrow> string \<Rightarrow> bool" where
  "has_column ts t c = (case map_of ts t of None \<Rightarrow> False | Some cs \<Rightarrow> list_ex (\<lambda>k. cn_name k = c) cs)"

datatype statement =
    CreateTable string "column list"
  | CreateIndex string string "string list" bool
  | DropTable string

fun run_statement :: "statement \<Rightarrow> catalogue \<Rightarrow> exn + catalogue" where
  "run_statement (CreateTable t cs) cat =
     (if map_of (ct_tables cat) t \<noteq> None then Inl (ddl_error ''relation already exists'')
      else if list_all (\<lambda>k. case cn_foreign_key k of None \<Rightarrow> True | Some (r, c) \<Rightarrow> has_column (ct_tables cat) r c) cs
      then Inr (cat\<lparr>ct_tables := ct_tables cat @ [(t, cs)]\<rparr>)
      else Inl (ddl_error ''referenced relation does not exist''))"
| "run_statement (CreateIndex i t cs u) cat =
     (if list_ex (\<lambda>x. ix_name x = i) (ct_indexes cat) then Inl (ddl_error ''relation already exists'')
      else if list_all (has_column (ct_tables cat) t) cs
      then Inr (cat\<lparr>ct_indexes := ct_indexes cat @ [\<lparr>ix_name = i, ix_table = t, ix_columns = cs, ix_unique = u\<rparr>]\<rparr>)
      else Inl (ddl_error ''column does not exist''))"
| "run_statement (DropTable t) cat =
     (if map_of (ct_tables cat) t = None then Inl (ddl_error ''table does not exist'')
      else if list_ex (\<lambda>(n, cs). n \<noteq> t \<and> list_ex (\<lambda>k. map_option fst (cn_foreign_key k) = Some t) cs) (ct_tables cat)
      then Inl (ddl_error ''other objects depend on the table'')
      else Inr \<lparr>ct_tables = filter (\<lambda>(n, _). n \<noteq> t) (ct_tables cat),
                ct_indexes = filter (\<lambda>x. ix_table x \<noteq> t) (ct_indexes cat)\<rparr>)"

fun run_migration :: "statement list \<Rightarrow> catalogue \<Rightarrow> exn + catalogue" where
  "run_migration [] cat = Inr cat"
| "run_migration (s # ss) cat = (case run_statement s cat of Inl e \<Rightarrow> Inl e | Inr cat' \<Rightarrow> run_migration ss cat')"

section \<open>The migration\<close>

abbreviation primary_key :: column where
  "primary_key \<equiv> \<lparr>cn_name = ''id'', cn_type = UuidT, cn_primary_key = True, cn_foreign_key = None, cn_nullable = False\<rparr>"

abbreviation sa_Column :: "string \<Rightarrow> column_type \<Rightarrow> bool \<Rightarrow> column" where
  "sa_Column n ty null \<equiv> \<lparr>cn_name = n, cn_type = ty, cn_primary_key = False, cn_foreign_key = None, cn_nullable = null\<rparr>"

abbreviation sa_ForeignKey :: "string \<Rightarrow> string \<Rightarrow> column" where
  "sa_ForeignKey n t \<equiv> \<lparr>cn_name = n, cn_type = UuidT, cn_primary_key = False, cn_foreign_key = Some (t, ''id''), cn_nullable = False\<rparr>"

definition upgrade :: "statement list" where
  "upgrade =
     [CreateTable ''connected_accounts''
        [primary_key,
         sa_Column ''user_id'' UuidT False,
         sa_Column ''provider'' TextT False,
         sa_Column ''encrypted_access_token'' LargeBinaryT False,
         sa_Column ''encrypted_refresh_token'' LargeBinaryT True,
         sa_Column ''scopes_granted'' TextArrayT False,
         sa_Column ''expires_at'' DateTimeTzT True,
         sa_Column ''created_at'' DateTimeTzT False],
      CreateIndex ''ix_connected_accounts_user_id'' ''connected_accounts'' [''user_id''] False,
      CreateTable ''agents''
        [primary_key,
         sa_Column ''user_id'' UuidT False,
         sa_Column ''name'' TextT False,
         sa_Column ''allowed_scopes'' TextArrayT False,
         sa_Column ''created_at'' DateTimeTzT False],
      CreateIndex ''ix_agents_user_id'' ''agents'' [''user_id''] False,
      CreateTable ''grants''
        [primary_key,
         sa_ForeignKey ''agent_id'' ''agents'',
         sa_ForeignKey ''connected_account_id'' ''connected_accounts'',
         sa_Column ''tool_name'' TextT False,
         sa_Column ''scope'' TextT False,
         sa_Column ''grant_token_hash'' TextT False,
         sa_Column ''issued_at'' DateTimeTzT False,
         sa_Column ''expires_at'' DateTimeTzT False,
         sa_Column ''revoked_at'' DateTimeTzT True],
      CreateIndex ''ix_grants_agent_id'' ''grants'' [''agent_id''] False,
      CreateIndex ''ix_grants_grant_token_hash'' ''grants'' [''grant_token_hash''] True,
      CreateTable ''tool_call_audit_log''
        [primary_key,
         sa_ForeignKey ''grant_id'' ''grants'',
         sa_Column ''tool_name'' TextT False,
         sa_Column ''arguments_hash'' TextT False,
         sa_Column ''status'' TextT False,
         sa_Column ''latency_ms'' IntegerT False,
         sa_Column ''called_at'' DateTimeTzT False],
      CreateIndex ''ix_tool_call_audit_log_grant_id'' ''tool_call_audit_log'' [''grant_id''] False,
      CreateIndex ''ix_tool_call_audit_log_called_at'' ''tool_call_audit_log'' [''called_at''] False]"

definition downgrade :: "statement list" where
  "downgrade = [DropTable ''tool_call_audit_log'', DropTable ''grants'', DropTable ''agents'', DropTable ''connected_accounts'']"

section \<open>The declared tables\<close>

text \<open>A \<open>mapped_column\<close> is a column with the two flags that make SQLAlchemy create an index.\<close>

record mapped_column = column +
  mc_unique :: bool
  mc_index :: bool

abbreviation plain_column :: "string \<Rightarrow> column_type \<Rightarrow> bool \<Rightarrow> mapped_column" where
  "plain_column n ty null \<equiv> \<lparr>cn_name = n, cn_type = ty, cn_primary_key = False, cn_foreign_key = None, cn_nullable = null,
     mc_unique = False, mc_index = False\<rparr>"

abbreviation id_column :: mapped_column where
  "id_column \<equiv> \<lparr>cn_name = ''id'', cn_type = UuidT, cn_primary_key = True, cn_foreign_key = None, cn_nullable = False,
     mc_unique = False, mc_index = False\<rparr>"

abbreviation references_column :: "string \<Rightarrow> string \<Rightarrow> bool \<Rightarrow> mapped_column" where
  "references_column n t i \<equiv> \<lparr>cn_name = n, cn_type = UuidT, cn_primary_key = False, cn_foreign_key = Some (t, ''id''),
     cn_nullable = False, mc_unique = False, mc_index = i\<rparr>"

definition ConnectedAccount :: "string \<times> mapped_column list" where
  "ConnectedAccount = (''connected_accounts'',
     [id_column,
      (plain_column ''user_id'' UuidT False)\<lparr>mc_index := True\<rparr>,
      plain_column ''provider'' TextT False,
      plain_column ''encrypted_access_token'' LargeBinaryT False,
      plain_column ''encrypted_refresh_token'' LargeBinaryT True,
      plain_column ''scopes_granted'' TextArrayT False,
      plain_column ''expires_at'' DateTimeTzT True,
      plain_column ''created_at'' DateTimeTzT False])"

definition AgentIdentity :: "string \<times> mapped_column list" where
  "AgentIdentity = (''agents'',
     [id_column,
      (plain_column ''user_id'' UuidT False)\<lparr>mc_index := True\<rparr>,
      plain_column ''name'' TextT False,
      plain_column ''allowed_scopes'' TextArrayT False,
      plain_column ''created_at'' DateTimeTzT False])"

definition Grant :: "string \<times> mapped_column list" where
  "Grant = (''grants'',
     [id_column,
      references_column ''agent_id'' ''agents'' True,
      references_column ''connected_account_id'' ''connected_accounts'' False,
      plain_column ''tool_name'' TextT False,
      plain_column ''scope'' TextT False,
      (plain_column ''grant_token_hash'' TextT False)\<lparr>mc_unique := True, mc_index := True\<rparr>,
      plain_column ''issued_at'' DateTimeTzT False,
      plain_column ''expires_at'' DateTimeTzT False,
      plain_column ''revoked_at'' DateTimeTzT True])"

definition ToolCallAuditLog :: "string \<times> mapped_column list" where
  "ToolCallAuditLog = (''tool_call_audit_log'',
     [id_column,
      references_column ''grant_id'' ''grants'' True,
      plain_column ''tool_name'' TextT False,
      plain_column ''arguments_hash'' TextT False,
      plain_column ''status'' TextT False,
      plain_column ''latency_ms'' IntegerT False,
      (plain_column ''called_at'' DateTimeTzT False)\<lparr>mc_index := True\<rparr>])"

text \<open>
  What SQLAlchemy makes of the declarations: the columns, and for every column with
  \<open>index=True\<close> an index under the default name, unique if the column is.
\<close>

definition declared_indexes :: "string \<times> mapped_column list \<Rightarrow> table_index list" where
  "declared_indexes tc = map (\<lambda>c. \<lparr>ix_name = ''ix_'' @ fst tc @ ''_'' @ cn_name c, ix_table = fst tc, ix_columns = [cn_name c],
     ix_unique = mc_unique c\<rparr>) (filter mc_index (snd tc))"

definition create_all :: "(string \<times> mapped_column list) list \<Rightarrow> catalogue" where
  "create_all ts = \<lparr>ct_tables = map (\<lambda>(t, cs). (t, map column.truncate cs)) ts, ct_indexes = concat (map declared_indexes ts)\<rparr>"

definition metadata :: "(string \<times> mapped_column list) list" where
  "metadata = [ConnectedAccount, AgentIdentity, Grant, ToolCallAuditLog]"

lemmas metadata_defs = metadata_def ConnectedAccount_def AgentIdentity_def Grant_def ToolCallAuditLog_def

lemma migrated: "run_migration upgrade empty_catalogue = Inr (create_all metadata)"
  by (simp add: upgrade_def empty_catalogue_def create_all_def declared_indexes_def metadata_defs has_column_def column.truncate_def)

lemma dropped: "run_migration downgrade (create_all metadata) = Inr empty_catalogue"
  by (simp add: downgrade_def empty_catalogue_def create_all_def declared_indexes_def metadata_defs column.truncate_def)

text \<open>
  The migration creates the schema the ORM classes declare.  On an empty database
  every statement of \<open>upgrade\<close> succeeds and leaves exactly the tables, columns, types,
  keys and indexes of the four model classes, and \<open>downgrade\<close> drops them all in an order in
  which no foreign key is in the way.
\<close>

theorem migration_creates_models:
  "run_migration upgrade empty_catalogue = Inr (create_all metadata) \<and>
   run_migration downgrade (create_all metadata) = Inr empty_catalogue"
  using migrated dropped by simp

end
