(* ===== verification/Cb_Migrate.thy ===== *)
theory Cb_Migrate
  imports Cb_Schema "HOL-Library.AList"
begin

text \<open>
  How the schema gets into a database (\<open>alembic/env.py\<close>) and how the broker connects to it
  (\<open>db/session.py\<close>).

  Alembic and SQLAlchemy are the parameter \<open>L\<close>.  A database is its catalogue and the
  revision Alembic has recorded in it; a migration runs the statements of \<open>Cb_Schema\<close>.
\<close>

section \<open>Engines and sessions\<close>

record engine =
  en_url :: string
  en_options :: "(string \<times> json) list"

text \<open>A keyword given twice is a \<open>TypeError\<close> of the call.\<close>

definition create_engine :: "string \<Rightarrow> (string \<times> json) list \<Rightarrow> exn + engine" where
  "create_engine url kwargs =
     (if ''pool_pre_ping'' \<in> fst ` set kwargs
      then Inl (TypeError (''create_async_engine() got multiple values for keyword argument '' @ py_repr ''pool_pre_ping''))
      else Inr \<lparr>en_url = url, en_options = (''pool_pre_ping'', JBool True) # kwargs\<rparr>)"

record session_factory =
  sf_engine :: engine
  sf_expire_on_commit :: bool

definition create_session_factory :: "engine \<Rightarrow> session_factory" where
  "create_session_factory engine = \<lparr>sf_engine = engine, sf_expire_on_commit = False\<rparr>"

section \<open>Revisions and databases\<close>

record revision =
  rv_revision :: string
  rv_down_revision :: "string option"
  rv_upgrade :: "statement list"
  rv_downgrade :: "statement list"

definition initial_schema :: revision where
  "initial_schema = \<lparr>rv_revision = ''0001'', rv_down_revision = None, rv_upgrade = upgrade, rv_downgrade = downgrade\<rparr>"

text \<open>The scripts under \<open>alembic/versions\<close>.\<close>

definition versions :: "revision list" where
  "versions = [initial_schema]"

record schema_db =
  sd_catalogue :: catalogue
  sd_version :: "string option"

definition new_database :: schema_db where
  "new_database = \<lparr>sd_catalogue = empty_catalogue, sd_version = None\<rparr>"

text \<open>A linear history: every revision follows the one before it, and no identifier comes twice.\<close>

fun follows :: "string option \<Rightarrow> revision list \<Rightarrow> bool" where
  "follows v [] = True"
| "follows v (r # rs) = (rv_down_revision r = v \<and> follows (Some (rv_revision r)) rs)"

definition linear :: "revision list \<Rightarrow> bool" where
  "linear rs \<longleftrightarrow> follows None rs \<and> distinct (map rv_revision rs)"

section \<open>The environment of a migration\<close>

text \<open>What \<open>context.configure\<close> is told in each mode.\<close>

datatype migration_context =
    Offline (ctx_url: string) (ctx_metadata: "(string \<times> mapped_column list) list") (ctx_literal_binds: bool) (ctx_dialect_opts: "(string \<times> string) list")
  | Online (ctx_connection: string) (ctx_metadata: "(string \<times> mapped_column list) list")

datatype env_event =
    FileConfig string
  | EngineCreated string
  | ConnectionOpened string
  | ConnectionClosed string
  | EngineDisposed string

record env_state =
  es_databases :: "string \<Rightarrow> schema_db"
  es_context :: "migration_context option"
  es_script :: "statement list"
  es_events :: "env_event list"

type_synonym 'a env_prog = "(env_state, exn, 'a) prog"

record alembic_config =
  ac_config_file_name :: "string option"
  ac_main_options :: "(string \<times> string) list"
  ac_section :: "(string \<times> string) list option"
  ac_offline_mode :: bool

text \<open>
  The library: what running the migrations makes of the connected database, the script it
  writes in offline mode, the engine for a section of options with the pool that is asked
  for, and whether an engine connects.
\<close>

datatype pool_class = NullPool

record alembic_library =
  al_migrate :: "revision list \<Rightarrow> schema_db \<Rightarrow> exn + schema_db"
  al_script :: "revision list \<Rightarrow> statement list"
  al_engine_from_config :: "(string \<times> string) list \<Rightarrow> string \<Rightarrow> pool_class \<Rightarrow> exn + engine"
  al_connect :: "engine \<Rightarrow> exn option"

definition happens :: "env_event \<Rightarrow> unit env_prog" where
  "happens e = modM (\<lambda>s. s\<lparr>es_events := es_events s @ [e]\<rparr>)"

definition configure_context :: "migration_context \<Rightarrow> unit env_prog" where
  "configure_context c = modM (\<lambda>s. s\<lparr>es_context := Some c\<rparr>)"

definition run_migrations :: "alembic_library \<Rightarrow> unit env_prog" where
  "run_migrations L =
     bindM (getM id) (\<lambda>s.
     case es_context s of
       None \<Rightarrow> raise (OtherException ''Exception'' ''No context has been configured yet.'')
     | Some (Offline url md lb d) \<Rightarrow> modM (\<lambda>s. s\<lparr>es_script := es_script s @ al_script L versions\<rparr>)
     | Some (Online url md) \<Rightarrow>
         bindM (liftE (al_migrate L versions (es_databases s url))) (\<lambda>d.
         modM (\<lambda>s. s\<lparr>es_databases := (es_databases s)(url := d)\<rparr>)))"

text \<open>\<open>with context.begin_transaction()\<close>: what an exception leaves behind is rolled back.\<close>

definition begin_transaction :: "'a env_prog \<Rightarrow> 'a env_prog" where
  "begin_transaction m =
     bindM (getM es_databases) (\<lambda>before.
     catchM m (\<lambda>e. bindM (modM (\<lambda>s. s\<lparr>es_databases := before\<rparr>)) (\<lambda>_. raise e)))"

section \<open>env.py\<close>

definition get_url :: "alembic_config \<Rightarrow> exn + settings \<Rightarrow> exn + string" where
  "get_url cfg get_settings =
     (case map_of (ac_main_options cfg) ''sqlalchemy.url'' of
        Some (c # u) \<Rightarrow> Inr (c # u)
      | _ \<Rightarrow> (case get_settings of Inl e \<Rightarrow> Inl e | Inr st \<Rightarrow> Inr (database_url st)))"

definition run_migrations_offline :: "alembic_library \<Rightarrow> alembic_config \<Rightarrow> exn + settings \<Rightarrow> unit env_prog" where
  "run_migrations_offline L cfg get_settings =
     bindM (liftE (get_url cfg get_settings)) (\<lambda>url.
     bindM (configure_context (Offline url metadata True [(''paramstyle'', ''named'')])) (\<lambda>_.
     begin_transaction (run_migrations L)))"

definition do_run_migrations :: "alembic_library \<Rightarrow> string \<Rightarrow> unit env_prog" where
  "do_run_migrations L connection =
     bindM (configure_context (Online connection metadata)) (\<lambda>_.
     begin_transaction (run_migrations L))"

text \<open>\<open>async with connectable.connect() as connection\<close>: the connection is closed on either way out.\<close>

definition with_connection :: "alembic_library \<Rightarrow> engine \<Rightarrow> (string \<Rightarrow> 'a env_prog) \<Rightarrow> 'a env_prog" where
  "with_connection L connectable body =
     (case al_connect L connectable of
        Some e \<Rightarrow> raise e
      | None \<Rightarrow>
          bindM (happens (ConnectionOpened (en_url connectable))) (\<lambda>_.
          bindM (catchM (body (en_url connectable)) (\<lambda>e. bindM (happens (ConnectionClosed (en_url connectable))) (\<lambda>_. raise e))) (\<lambda>x.
          bindM (happens (ConnectionClosed (en_url connectable))) (\<lambda>_.
          ret x))))"

definition run_async_migrations :: "alembic_library \<Rightarrow> alembic_config \<Rightarrow> exn + settings \<Rightarrow> unit env_prog" where
  "run_async_migrations L cfg get_settings =
     (let section = (case ac_section cfg of None \<Rightarrow> [] | Some s \<Rightarrow> s) in
      bindM (liftE (get_url cfg get_settings)) (\<lambda>url.
      bindM (liftE (al_engine_from_config L (AList.update ''sqlalchemy.url'' url section) ''sqlalchemy.'' NullPool)) (\<lambda>connectable.
      bindM (happens (EngineCreated (en_url connectable))) (\<lambda>_.
      bindM (with_connection L connectable (do_run_migrations L)) (\<lambda>_.
      happens (EngineDisposed (en_url connectable)))))))"

definition run_migrations_online :: "alembic_library \<Rightarrow> alembic_config \<Rightarrow> exn + settings \<Rightarrow> unit env_prog" where
  "run_migrations_online L cfg get_settings = run_async_migrations L cfg get_settings"

definition env_py :: "alembic_library \<Rightarrow> alembic_config \<Rightarrow> exn + settings \<Rightarrow> unit env_prog" where
  "env_py L cfg get_settings =
     bindM (case ac_config_file_name cfg of None \<Rightarrow> ret () | Some f \<Rightarrow> happens (FileConfig f)) (\<lambda>_.
     if ac_offline_mode cfg then run_migrations_offline L cfg get_settings
     else run_migrations_online L cfg get_settings)"

section \<open>What is relied on\<close>

text \<open>
  \<open>upgrade head\<close> applies the revisions that follow the recorded one in order, recording each,
  and stops at the first statement that fails; \<open>upgrade head --sql\<close> writes the statements
  of all of them (besides Alembic's own bookkeeping).  An engine made from a
  section is for the URL in it.
\<close>

locale alembic_upgrade =
  fixes L :: alembic_library
  assumes up_to_date: "linear (rs @ [r]) \<Longrightarrow> sd_version d = Some (rv_revision r) \<Longrightarrow> al_migrate L (rs @ [r]) d = Inr d"
    and next_revision: "linear (before @ r # after) \<Longrightarrow> sd_version d = rv_down_revision r \<Longrightarrow>
      al_migrate L (before @ r # after) d =
        (case run_migration (rv_upgrade r) (sd_catalogue d) of
           Inl e \<Rightarrow> Inl e
         | Inr cat \<Rightarrow> al_migrate L (before @ r # after) \<lparr>sd_catalogue = cat, sd_version = Some (rv_revision r)\<rparr>)"
    and all_statements: "linear rs \<Longrightarrow> al_script L rs = concat (map rv_upgrade rs)"
    and engine_url: "map_of options (pfx @ ''url'') = Some u \<Longrightarrow> al_engine_from_config L options pfx pool = Inr e \<Longrightarrow> en_url e = u"
begin

lemma migrated_once:
  assumes "linear [r]" and "sd_version d = None" and "run_migration (rv_upgrade r) (sd_catalogue d) = Inr cat"
  shows "al_migrate L [r] d = Inr \<lparr>sd_catalogue = cat, sd_version = Some (rv_revision r)\<rparr>"
proof -
  have "rv_down_revision r = None" using assms(1) by (simp add: linear_def)
  then show ?thesis using next_revision [of "[]" r "[]" d] up_to_date [of "[]" r] assms by simp
qed

end

lemma linear_versions [simp]: "linear versions"
  by (simp add: versions_def linear_def initial_schema_def)

section \<open>Migrating\<close>

lemma happens_run [simp]: "happens e s = (Inr (), s\<lparr>es_events := es_events s @ [e]\<rparr>)"
  by (simp add: happens_def)

lemma configure_context_run [simp]: "configure_context c s = (Inr (), s\<lparr>es_context := Some c\<rparr>)"
  by (simp add: configure_context_def)

lemma online_run:
  "do_run_migrations L url s =
     (case al_migrate L versions (es_databases s url) of
        Inl e \<Rightarrow> (Inl e, s\<lparr>es_context := Some (Online url metadata)\<rparr>)
      | Inr d \<Rightarrow> (Inr (), s\<lparr>es_context := Some (Online url metadata), es_databases := (es_databases s)(url := d)\<rparr>))"
  by (simp add: do_run_migrations_def begin_transaction_def run_migrations_def bindM_def catchM_def split: sum.split)

lemma connection_run:
  assumes "al_connect L e = None"
  shows "with_connection L e (do_run_migrations L) s =
     (case al_migrate L versions (es_databases s (en_url e)) of
        Inl x \<Rightarrow> (Inl x, s\<lparr>es_context := Some (Online (en_url e) metadata),
          es_events := es_events s @ [ConnectionOpened (en_url e), ConnectionClosed (en_url e)]\<rparr>)
      | Inr d \<Rightarrow> (Inr (), s\<lparr>es_context := Some (Online (en_url e) metadata), es_databases := (es_databases s)(en_url e := d),
          es_events := es_events s @ [ConnectionOpened (en_url e), ConnectionClosed (en_url e)]\<rparr>))"
  using assms by (simp add: with_connection_def online_run bindM_def catchM_def split: sum.split)

definition ini_events :: "alembic_config \<Rightarrow> env_event list" where
  "ini_events cfg = (case ac_config_file_name cfg of None \<Rightarrow> [] | Some f \<Rightarrow> [FileConfig f])"

definition options_with_url :: "alembic_config \<Rightarrow> string \<Rightarrow> (string \<times> string) list" where
  "options_with_url cfg url = AList.update ''sqlalchemy.url'' url (case ac_section cfg of None \<Rightarrow> [] | Some s \<Rightarrow> s)"

lemma online_env_run:
  assumes "\<not> ac_offline_mode cfg" and "get_url cfg g = Inr url" and "al_engine_from_config L (options_with_url cfg url) ''sqlalchemy.'' NullPool = Inr e"
    and "al_connect L e = None"
  shows "env_py L cfg g s =
     (case al_migrate L versions (es_databases s (en_url e)) of
        Inl x \<Rightarrow> (Inl x, s\<lparr>es_context := Some (Online (en_url e) metadata), es_events := es_events s @ ini_events cfg @
          [EngineCreated (en_url e), ConnectionOpened (en_url e), ConnectionClosed (en_url e)]\<rparr>)
      | Inr d \<Rightarrow> (Inr (), s\<lparr>es_context := Some (Online (en_url e) metadata), es_databases := (es_databases s)(en_url e := d),
          es_events := es_events s @ ini_events cfg @
          [EngineCreated (en_url e), ConnectionOpened (en_url e), ConnectionClosed (en_url e), EngineDisposed (en_url e)]\<rparr>))"
proof -
  have r: "run_migrations_online L cfg g s =
      bindM (happens (EngineCreated (en_url e))) (\<lambda>_. bindM (with_connection L e (do_run_migrations L)) (\<lambda>_.
      happens (EngineDisposed (en_url e)))) s" for s
    using assms by (simp add: run_migrations_online_def run_async_migrations_def options_with_url_def bindM_def)
  show ?thesis
    using assms(1) by (cases "ac_config_file_name cfg")
      (simp_all add: env_py_def r ini_events_def connection_run [OF assms(4)] bindM_def split: sum.split)
qed

text \<open>
  Whatever the library does, a migration that fails leaves every database as it was, and in
  offline mode no database is touched at all.
\<close>

lemma with_connection_failed:
  assumes "\<And>u s x s'. body u s = (Inl x, s') \<Longrightarrow> es_databases s' = es_databases s"
    and "with_connection L e body s = (Inl x, s')"
  shows "es_databases s' = es_databases s"
  using assms(2) by (auto simp: with_connection_def bindM_def catchM_def split: option.splits prod.splits sum.splits dest: assms(1))

lemma failed_migration_changes_nothing:
  assumes "env_py L cfg g s = (Inl x, s')"
  shows "es_databases s' = es_databases s"
proof -
  have d: "es_databases s' = es_databases s" if "do_run_migrations L u s = (Inl x, s')" for u s x s'
    using that by (auto simp: online_run split: sum.splits)
  have c: "es_databases s' = es_databases s" if "with_connection L e (do_run_migrations L) s = (Inl x, s')" for e s x s'
    by (rule with_connection_failed [OF _ that]) (rule d)
  have "es_databases s' = es_databases s" if "run_migrations_online L cfg g s = (Inl x, s')" for s
    using that by (auto simp: run_migrations_online_def run_async_migrations_def Let_def bindM_def
        split: prod.splits sum.splits dest: c)
  moreover have "es_databases s' = es_databases s" if "run_migrations_offline L cfg g s = (Inl x, s')" for s
    using that by (auto simp: run_migrations_offline_def begin_transaction_def run_migrations_def bindM_def catchM_def split: sum.splits)
  ultimately show ?thesis
    using assms by (fastforce simp: env_py_def bindM_def split: option.splits if_splits)
qed

lemma offline_writes_script:
  assumes "alembic_upgrade L" and "ac_offline_mode cfg" and "get_url cfg g = Inr url"
  shows "env_py L cfg g s = (Inr (), s\<lparr>es_context := Some (Offline url metadata True [(''paramstyle'', ''named'')]),
     es_script := es_script s @ upgrade, es_events := es_events s @ ini_events cfg\<rparr>)"
proof -
  have "al_script L versions = upgrade"
    using alembic_upgrade.all_statements [OF assms(1), of versions] by (simp add: versions_def linear_def initial_schema_def)
  then show ?thesis
    using assms(2,3) by (cases "ac_config_file_name cfg")
      (simp_all add: env_py_def run_migrations_offline_def begin_transaction_def run_migrations_def ini_events_def bindM_def catchM_def)
qed

text \<open>
  C40: what \<open>alembic upgrade head\<close> leaves is what the broker is written for.  With the URL
  left blank in the ini file and an empty database, the run connects to the database of
  the settings, the one \<open>create_engine\<close> is given when the broker starts, creates exactly
  the tables, columns, keys and indexes the ORM classes declare, records the revision,
  touches no other database and closes what it opened; a second run changes
  nothing, and the revision's downgrade takes everything back.
\<close>

theorem migrate_then_serve:
  assumes "alembic_upgrade L" and "\<not> ac_offline_mode cfg" and "map_of (ac_main_options cfg) ''sqlalchemy.url'' \<in> {None, Some []}"
    and "al_engine_from_config L (options_with_url cfg (database_url st)) ''sqlalchemy.'' NullPool = Inr e" and "al_connect L e = None"
    and "es_databases s (database_url st) = new_database"
  shows "\<exists>s1 s2. env_py L cfg (Inr st) s = (Inr (), s1) \<and> env_py L cfg (Inr st) s1 = (Inr (), s2) \<and>
    es_databases s1 = (es_databases s)(database_url st := \<lparr>sd_catalogue = create_all metadata, sd_version = Some ''0001''\<rparr>) \<and>
    es_databases s2 = es_databases s1 \<and>
    es_events s1 = es_events s @ ini_events cfg @ [EngineCreated (database_url st), ConnectionOpened (database_url st),
      ConnectionClosed (database_url st), EngineDisposed (database_url st)] \<and>
    map_sum id en_url (create_engine (database_url st) []) = Inr (database_url st) \<and>
    run_migration (rv_downgrade initial_schema) (sd_catalogue (es_databases s1 (database_url st))) = Inr empty_catalogue"
proof -
  have u: "get_url cfg (Inr st) = Inr (database_url st)" using assms(3) by (auto simp: get_url_def)
  have e: "en_url e = database_url st"
    using alembic_upgrade.engine_url [OF assms(1) _ assms(4)] by (simp add: options_with_url_def update_conv')
  let ?d = "\<lparr>sd_catalogue = create_all metadata, sd_version = Some ''0001''\<rparr>"
  have v: "versions = [initial_schema]" "linear [initial_schema]" using linear_versions by (simp_all add: versions_def)
  have m: "al_migrate L versions new_database = Inr ?d"
    using alembic_upgrade.migrated_once [OF assms(1) v(2)] migrated by (simp add: v(1) new_database_def initial_schema_def)
  have again: "al_migrate L versions ?d = Inr ?d"
    using alembic_upgrade.up_to_date [OF assms(1), of "[]" initial_schema ?d] v by (simp add: initial_schema_def)
  show ?thesis
    using assms(6) by (simp add: online_env_run [OF assms(2) u assms(4,5)] e m again dropped create_engine_def initial_schema_def)
qed

section \<open>A sample library\<close>

fun run_pending :: "revision list \<Rightarrow> schema_db \<Rightarrow> exn + schema_db" where
  "run_pending [] d = Inr d"
| "run_pending (r # rs) d =
     (case run_migration (rv_upgrade r) (sd_catalogue d) of
        Inl e \<Rightarrow> Inl e
      | Inr cat \<Rightarrow> run_pending rs \<lparr>sd_catalogue = cat, sd_version = Some (rv_revision r)\<rparr>)"

definition pending :: "revision list \<Rightarrow> string option \<Rightarrow> revision list" where
  "pending rs v = (case v of None \<Rightarrow> rs | Some x \<Rightarrow> tl (dropWhile (\<lambda>r. rv_revision r \<noteq> x) rs))"

lemma follows_append: "follows v (rs @ r # rs') \<Longrightarrow> rv_down_revision r = (if rs = [] then v else Some (rv_revision (last rs)))"
  by (induction rs arbitrary: v) auto

lemma pending_after: "distinct (map rv_revision (rs @ r # rs')) \<Longrightarrow> pending (rs @ r # rs') (Some (rv_revision r)) = rs'"
proof -
  assume d: "distinct (map rv_revision (rs @ r # rs'))"
  then have "\<forall>x \<in> set rs. rv_revision x \<noteq> rv_revision r" by (auto simp: image_iff)
  then show ?thesis by (simp add: pending_def dropWhile_append2)
qed

lemma pending_from:
  assumes "linear (rs @ r # rs')"
  shows "pending (rs @ r # rs') (rv_down_revision r) = r # rs'"
proof (cases rs rule: rev_cases)
  case Nil
  then show ?thesis using assms by (simp add: linear_def pending_def)
next
  case (snoc ys y)
  then have "rv_down_revision r = Some (rv_revision y)" using assms follows_append [of None rs r rs'] by (simp add: linear_def)
  moreover have "distinct (map rv_revision (ys @ y # r # rs'))" using assms snoc by (simp add: linear_def)
  ultimately show ?thesis using pending_after [of ys y "r # rs'"] snoc by simp
qed

definition sample_alembic :: alembic_library where
  "sample_alembic = \<lparr>al_migrate = (\<lambda>rs d. run_pending (pending rs (sd_version d)) d), al_script = (\<lambda>rs. concat (map rv_upgrade rs)),
     al_engine_from_config = (\<lambda>options pfx pool. case map_of options (pfx @ ''url'') of
         None \<Rightarrow> Inl (KeyError ''url'') | Some u \<Rightarrow> Inr \<lparr>en_url = u, en_options = []\<rparr>),
     al_connect = (\<lambda>_. None)\<rparr>"

interpretation sample_alembic: alembic_upgrade sample_alembic
proof unfold_locales
  fix rs r and d :: schema_db
  assume "linear (rs @ [r])" and "sd_version d = Some (rv_revision r)"
  then show "al_migrate sample_alembic (rs @ [r]) d = Inr d" by (simp add: sample_alembic_def linear_def pending_after)
next
  fix before r after and d :: schema_db
  assume l: "linear (before @ r # after)" and "sd_version d = rv_down_revision r"
  moreover have "pending (before @ r # after) (Some (rv_revision r)) = after" using l by (simp add: linear_def pending_after)
  ultimately show "al_migrate sample_alembic (before @ r # after) d =
      (case run_migration (rv_upgrade r) (sd_catalogue d) of
         Inl e \<Rightarrow> Inl e
       | Inr cat \<Rightarrow> al_migrate sample_alembic (before @ r # after) \<lparr>sd_catalogue = cat, sd_version = Some (rv_revision r)\<rparr>)"
    by (simp add: sample_alembic_def pending_from split: sum.split)
qed (auto simp: sample_alembic_def split: option.splits)

definition sample_ini :: alembic_config where
  "sample_ini = \<lparr>ac_config_file_name = Some ''alembic.ini'', ac_main_options = [(''script_location'', ''alembic''), (''sqlalchemy.url'', [])],
     ac_section = Some [(''script_location'', ''alembic''), (''sqlalchemy.url'', [])], ac_offline_mode = False\<rparr>"

definition nothing_migrated :: env_state where
  "nothing_migrated = \<lparr>es_databases = (\<lambda>_. new_database), es_context = None, es_script = [], es_events = []\<rparr>"

theorem migrate_then_serve_witness:
  "\<exists>s. env_py sample_alembic sample_ini (Inr default_settings) nothing_migrated = (Inr (), s) \<and>
     es_databases s (database_url default_settings) = \<lparr>sd_catalogue = create_all metadata, sd_version = Some ''0001''\<rparr> \<and>
     es_databases s ''other'' = new_database"
proof -
  have "al_engine_from_config sample_alembic (options_with_url sample_ini (database_url default_settings)) ''sqlalchemy.'' NullPool =
      Inr \<lparr>en_url = database_url default_settings, en_options = []\<rparr>"
    by (simp add: sample_alembic_def options_with_url_def sample_ini_def)
  note migrate_then_serve [OF sample_alembic.alembic_upgrade_axioms _ _ this, of nothing_migrated]
  moreover have "database_url default_settings \<noteq> ''other''" by (simp add: default_settings_def)
  ultimately show ?thesis by (auto simp: sample_ini_def sample_alembic_def nothing_migrated_def)
qed

end
