(* ===== verification/Py_Json_Fuel.thy ===== *)
theory Py_Json_Fuel
  imports Py_Json
begin

text \<open>
  The fuel of the JSON reader is enough: with the units \<open>loads\<close> starts with, and with any
  larger number, the scanner gives the same answer, so \<open>None\<close> is a syntax error and
  never a reader that was stopped.
\<close>

section \<open>What is left is shorter\<close>

lemma scan_str_shorter: "scan_str s = Some (x, t) \<Longrightarrow> length t < length s"
proof (induction s arbitrary: x t rule: scan_str.induct)
  case (2 c cs)
  then show ?case
    by (auto split: if_splits list.splits option.splits prod.splits dest!: u_point_shorter) fastforce+
qed simp

lemma scan_parts_shorter: "length (snd (scan_frac b)) \<le> length b" "length (snd (scan_exp b)) \<le> length b"
proof -
  show "length (snd (scan_frac b)) \<le> length b"
    using length_dropWhile_le [of is_digit] by (auto simp: scan_frac_def split: list.split) (metis le_SucI)
  have sign: "length t \<le> length r" if "scan_sign r = (sg, t)" for r sg t using that by (auto simp: scan_sign_def split: if_splits)
  have "length (dropWhile is_digit t) \<le> Suc (length r)" if "scan_sign r = (sg, t)" for r sg t
    using length_dropWhile_le [of is_digit t] sign [OF that] by linarith
  then show "length (snd (scan_exp b)) \<le> length b"
    by (auto simp: scan_exp_def split: list.split prod.split)
qed

lemma scan_unsigned_shorter: "scan_unsigned s = Some (ip, suf, t) \<Longrightarrow> length t < length s"
  using scan_parts_shorter length_dropWhile_le [of is_digit]
  by (auto simp: scan_unsigned_def Let_def split: list.splits if_splits) (meson le_imp_less_Suc le_trans)+

lemma scan_num_shorter: "scan_num s = Some (lit, suf, t) \<Longrightarrow> length t < length s"
  using scan_unsigned_shorter by (cases s) (fastforce simp: scan_num_def split: if_splits)+

lemma take1_shorter: "take 1 s = [c] \<Longrightarrow> length (tl s) < length s"
  by (cases s) auto

lemma skip_shorter: "length (skip_ws s) \<le> length s"
  by (rule length_dropWhile_le)

lemma past_shorter: "take 1 s = [c] \<Longrightarrow> length (skip_ws (tl s)) < length s"
  using skip_shorter [of "tl s"] take1_shorter [of s c] by linarith

lemma reader_shorter:
  "pval fl n s = Some (v, t) \<Longrightarrow> length t < length s"
  "pitems fl n s = Some (xs, t) \<Longrightarrow> length t < length s"
  "pmembers fl n s = Some (kvs, t) \<Longrightarrow> length t < length s"
proof (induction fl n s and fl n s and fl n s arbitrary: v t and xs t and kvs t rule: pval_pitems_pmembers.induct)
  case (2 fl n s)
  have d: "prefix p s \<Longrightarrow> p \<noteq> [] \<Longrightarrow> 0 < k \<Longrightarrow> length (drop k s) < length s" for p k by (cases s) (auto simp: prefix_def)
  show ?case
  proof (cases "take 1 s = ''{'' \<or> take 1 s = ''['' \<or> take 1 s = [dquote]")
    case True
    then obtain c where "take 1 s = [c]" by auto
    note p = past_shorter [OF this] take1_shorter [OF this]
    have e: "length (tl (skip_ws (tl s))) < length s" using p by simp
    show ?thesis
      using True 2 p e by (auto split: if_splits dest: scan_str_shorter)
  next
    case False
    then show ?thesis
      using 2 by (auto split: if_splits option.splits prod.splits intro: d dest: scan_num_shorter)
  qed
next
  case (4 fl n s)
  obtain x u where x: "pval fl n s = Some (x, u)" using 4(3) by (auto split: option.splits)
  then have u: "length (skip_ws u) < length s" using "4.IH"(1) [of x u] skip_shorter [of u] by simp
  show ?case
  proof (cases "take 1 (skip_ws u) = '']''")
    case True
    then show ?thesis using 4(3) x u take1_shorter [OF True] by simp
  next
    case False
    then have c: "take 1 (skip_ws u) = '',''" and q: "pitems fl n (skip_ws (tl (skip_ws u))) = Some (tl xs, t)"
      using 4(3) x by (auto split: if_splits)
    show ?thesis
      using "4.IH"(2) [OF x _ False c q] past_shorter [OF c] u by simp
  qed
next
  case (6 fl n s)
  have k: "take 1 s = [dquote]" using 6(3) by (auto split: if_splits)
  obtain key a where a: "scan_str (tl s) = Some (key, a)" using 6(3) k by (auto split: option.splits)
  have colon: "take 1 (skip_ws a) = '':''" using 6(3) k a by (auto split: if_splits)
  obtain x u where x: "pval fl n (skip_ws (tl (skip_ws a))) = Some (x, u)"
    using 6(3) k a colon by (auto split: option.splits)
  have "length (skip_ws a) < length s"
    using scan_str_shorter [OF a] take1_shorter [OF k] skip_shorter [of a] by linarith
  then have s: "length (skip_ws (tl (skip_ws a))) < length s" using past_shorter [OF colon] by linarith
  have "length u < length (skip_ws (tl (skip_ws a)))" using "6.IH"(1) k a colon x by auto
  then have u: "length (skip_ws u) < length s" using s skip_shorter [of u] by linarith
  show ?case
  proof (cases "take 1 (skip_ws u) = ''}''")
    case True
    then show ?thesis using 6(3) k a colon x u take1_shorter [OF True] by auto
  next
    case False
    then have c: "take 1 (skip_ws u) = '',''" and q: "pmembers fl n (skip_ws (tl (skip_ws u))) = Some (tl kvs, t)"
      using 6(3) k a colon x by (auto split: if_splits)
    show ?thesis
      using "6.IH"(2) [OF _ a refl _ x refl False c q] k colon past_shorter [OF c] u by simp
  qed
qed simp_all

section \<open>Enough is enough\<close>

text \<open>
  A value needs at most two units per character and two more, a list of items or
  members one more than that.
\<close>

lemma enough_fuel:
  "(\<forall>n m. 2 * length s + 2 \<le> n \<longrightarrow> 2 * length s + 2 \<le> m \<longrightarrow> pval fl n s = pval fl m s) \<and>
   (\<forall>n m. 2 * length s + 3 \<le> n \<longrightarrow> 2 * length s + 3 \<le> m \<longrightarrow> pitems fl n s = pitems fl m s \<and> pmembers fl n s = pmembers fl m s)"
proof (induction s rule: length_induct)
  case (1 s)
  note ih = mp [OF spec [OF 1]]
  have val: "pval fl n r = pval fl m r" if "length r < length s" "2 * length r + 2 \<le> n" "2 * length r + 2 \<le> m" for r n m
    by (rule conjunct1 [OF ih [OF that(1)], rule_format, OF that(2,3)])
  have seq: "pitems fl n r = pitems fl m r" "pmembers fl n r = pmembers fl m r"
    if "length r < length s" "2 * length r + 3 \<le> n" "2 * length r + 3 \<le> m" for r n m
    by (rule conjunct2 [OF ih [OF that(1)], rule_format, OF that(2,3), THEN conjunct1]
        conjunct2 [OF ih [OF that(1)], rule_format, OF that(2,3), THEN conjunct2])+
  have v: "pval fl n s = pval fl m s" if n: "2 * length s + 2 \<le> n" and m: "2 * length s + 2 \<le> m" for n m
  proof -
    obtain n' where n': "n = Suc n'" using n by (cases n) auto
    obtain m' where m': "m = Suc m'" using m by (cases m) auto
    have e: "pitems fl n' (skip_ws (tl s)) = pitems fl m' (skip_ws (tl s))"
      "pmembers fl n' (skip_ws (tl s)) = pmembers fl m' (skip_ws (tl s))" if "take 1 s = [c]" for c
      by (rule seq; use past_shorter [OF that] n m n' m' in simp)+
    consider "take 1 s = ''{''" | "take 1 s = ''[''" | "take 1 s \<noteq> ''{''" "take 1 s \<noteq> ''[''" by blast
    then show ?thesis
    proof cases
      case 3
      then show ?thesis by (simp only: n' m' pval.simps if_False simp_thms)
    qed (simp_all only: n' m' pval.simps e)
  qed
  have i: "pitems fl n s = pitems fl m s" if n: "2 * length s + 3 \<le> n" and m: "2 * length s + 3 \<le> m" for n m
  proof -
    obtain n' where n': "n = Suc n'" using n by (cases n) auto
    obtain m' where m': "m = Suc m'" using m by (cases m) auto
    have e: "pval fl n' s = pval fl m' s" by (rule v) (use n m n' m' in simp_all)
    have q: "pitems fl n' (skip_ws (tl (skip_ws u))) = pitems fl m' (skip_ws (tl (skip_ws u)))"
      if "pval fl m' s = Some (x, u)" and "take 1 (skip_ws u) = [c]" for x u c
    proof -
      have "length (skip_ws (tl (skip_ws u))) < length s"
        using reader_shorter(1) [OF that(1)] past_shorter [OF that(2)] skip_shorter [of u] by linarith
      moreover from this have "2 * length (skip_ws (tl (skip_ws u))) + 3 \<le> n'" "2 * length (skip_ws (tl (skip_ws u))) + 3 \<le> m'"
        using n m n' m' by simp_all
      ultimately show ?thesis by (rule seq(1))
    qed
    show ?thesis
    proof (cases "pval fl m' s")
      case (Some y)
      obtain x u where y: "y = (x, u)" by force
      show ?thesis
      proof (cases "take 1 (skip_ws u) = '',''")
        case True
        then show ?thesis by (simp only: n' m' pitems.simps e Some y option.case prod.case q [OF Some [unfolded y] True])
      next
        case False
        then show ?thesis by (simp only: n' m' pitems.simps e Some y option.case prod.case if_False)
      qed
    qed (simp only: n' m' pitems.simps e option.case)
  qed
  have p: "pmembers fl n s = pmembers fl m s" if n: "2 * length s + 3 \<le> n" and m: "2 * length s + 3 \<le> m" for n m
  proof -
    obtain n' where n': "n = Suc n'" using n by (cases n) auto
    obtain m' where m': "m = Suc m'" using m by (cases m) auto
    have a: "length (skip_ws (tl (skip_ws a))) < length s" if "take 1 s = [dquote]" "scan_str (tl s) = Some (k, a)" "take 1 (skip_ws a) = [c]" for k a c
      using scan_str_shorter [OF that(2)] past_shorter [OF that(3)] take1_shorter [OF that(1)] skip_shorter [of a] by linarith
    have e: "pval fl n' (skip_ws (tl (skip_ws a))) = pval fl m' (skip_ws (tl (skip_ws a)))"
      if "take 1 s = [dquote]" "scan_str (tl s) = Some (k, a)" "take 1 (skip_ws a) = [c]" for k a c
    proof (rule val [OF a [OF that]])
      show "2 * length (skip_ws (tl (skip_ws a))) + 2 \<le> n'" "2 * length (skip_ws (tl (skip_ws a))) + 2 \<le> m'"
        using a [OF that] n m n' m' by simp_all
    qed
    have q: "pmembers fl n' (skip_ws (tl (skip_ws u))) = pmembers fl m' (skip_ws (tl (skip_ws u)))"
      if "take 1 s = [dquote]" "scan_str (tl s) = Some (k, a)" "take 1 (skip_ws a) = [c]"
        and "pval fl m' (skip_ws (tl (skip_ws a))) = Some (x, u)" and "take 1 (skip_ws u) = [d]" for k a c x u d
    proof -
      have "length (skip_ws (tl (skip_ws u))) < length s"
        using reader_shorter(1) [OF that(4)] past_shorter [OF that(5)] skip_shorter [of u] a [OF that(1-3)] by linarith
      moreover from this have "2 * length (skip_ws (tl (skip_ws u))) + 3 \<le> n'" "2 * length (skip_ws (tl (skip_ws u))) + 3 \<le> m'"
        using n m n' m' by simp_all
      ultimately show ?thesis by (rule seq(2))
    qed
    show ?thesis
    proof (cases "take 1 s = [dquote] \<and> (\<exists>k a. scan_str (tl s) = Some (k, a) \<and> take 1 (skip_ws a) = '':'')")
      case True
      then obtain k a where k: "take 1 s = [dquote]" "scan_str (tl s) = Some (k, a)" "take 1 (skip_ws a) = '':''" by blast
      note e = e [OF k]
      show ?thesis
      proof (cases "pval fl m' (skip_ws (tl (skip_ws a)))")
        case (Some y)
        obtain x u where y: "y = (x, u)" by force
        show ?thesis
        proof (cases "take 1 (skip_ws u) = '',''")
          case True
          then show ?thesis
            by (simp only: n' m' pmembers.simps e k Some y option.case prod.case q [OF k Some [unfolded y] True])
        next
          case False
          then show ?thesis by (simp only: n' m' pmembers.simps e k Some y option.case prod.case if_False)
        qed
      qed (simp only: n' m' pmembers.simps e k option.case prod.case)
    next
      case False
      then consider "take 1 s \<noteq> [dquote]" | "scan_str (tl s) = None"
        | k a where "scan_str (tl s) = Some (k, a)" "take 1 (skip_ws a) \<noteq> '':''" by (cases "scan_str (tl s)") auto
      then show ?thesis
      proof cases
        case 3
        then show ?thesis by (simp only: n' m' pmembers.simps option.case prod.case simp_thms if_True)
      qed (simp_all only: n' m' pmembers.simps option.case simp_thms if_True)
    qed
  qed
  show ?case by (intro conjI allI impI v i p)
qed

lemma loads_with_more_fuel:
  assumes "2 * length s + 2 \<le> n"
  shows "loads fl s =
    (case pval fl n (skip_ws s) of None \<Rightarrow> None | Some (v, t) \<Rightarrow> if skip_ws t = [] then Some v else None)"
proof -
  have "2 * length (skip_ws s) + 2 \<le> 2 * length s + 2" using skip_shorter [of s] by linarith
  then have "pval fl (2 * length s + 2) (skip_ws s) = pval fl n (skip_ws s)"
    using conjunct1 [OF enough_fuel] assms by (meson order_trans)
  then show ?thesis by (simp only: loads_def)
qed

end
