(* ===== verification/Spec2Isabelle.thy ===== *)
theory Spec2Isabelle
  imports Cb_Outcomes Cb_Idem_Shared Cb_Invoke_Once Cb_Lifecycle Cb_Flow Cb_Grpc Cb_Migrate Py_Json_Fuel
begin

text \<open>
  CredBroker: a broker that lends AI agents scoped, short-lived access to provider
  accounts without ever handing out the credential.  Source paths below are relative
  to \<open>src/credbroker/\<close> unless they start with \<open>alembic/\<close>.

  \<^bold>\<open>The program.\<close>  A user connects a provider account through the OAuth flow
  (\<open>oauth/\<close>); its tokens are stored under envelope encryption (\<open>crypto/kms.py\<close>).  An agent
  asks the gRPC servicer (\<open>grpcserver/servicer.py\<close>) for a grant, a signed token for one tool
  and scope (\<open>grants/\<close>), and presents it to have a tool called (\<open>invoke/service.py\<close>): the
  broker checks the token, the database row, the revocation cache, the rate limit
  (\<open>cache/\<close>) and the idempotency store, decrypts or refreshes the credential, checks the
  revocation once more, calls the provider with retries behind a circuit breaker
  (\<open>reliability/\<close>, \<open>tools/\<close>) and writes one audit row.  An operator does the same through
  the console's REST API (\<open>console/api.py\<close>).  \<open>main.py\<close> runs both servers in one process.

  \<^bold>\<open>How a program is modelled.\<close>  A coroutine is a function from a state to an exception or
  a value and the new state (\<open>prog\<close> of \<open>Cb_Prelude\<close>, specialised to \<open>io\<close> in \<open>Cb_World\<close>).
  The state, \<open>world\<close>, has the committed tables, the Redis server, the clocks, the
  objects of one process (registered secrets, breakers, the HTTP client slot, metrics), the
  pending work and the row lock of the current session, and the list of effects (requests,
  sleeps, audit rows, grants) that only theorems read.  Exceptions are values of \<open>exn\<close>
  (\<open>Cb_Errors\<close>), one constructor per class the source distinguishes; every \<open>raise\<close>,
  \<open>except\<close> and early return is a branch.  Python's integers are \<open>int\<close>, strings lists of
  characters (a character is a byte of the UTF-8 text), timestamps microseconds.

  Everything outside the repository is a parameter: the record \<open>services\<close> (Redis, HTTP,
  AES-GCM, KMS, JWT, hashes, randomness), \<open>json_format\<close> (Struct messages), the key
  generator of \<open>ensure_dev_jwt_keys\<close>, the \<open>library\<close> of \<open>Cb_Lifecycle\<close>, the \<open>messages\<close> and the
  transport of \<open>Cb_Grpc\<close> and the \<open>alembic_library\<close> of \<open>Cb_Migrate\<close>.  What the source
  relies on is stated as locales on them (\<open>redis_server\<close>, \<open>aead\<close>, \<open>kms_service\<close>,
  \<open>jwt_library\<close>), each interpreted on the executable stand-ins of \<open>Cb_Sample\<close>, on which the
  witnesses run.

  Concurrency.  Other coroutines, other processes and time show only at \<open>await\<close>.  Every
  \<open>await\<close> is \<open>awaiting\<close>: the environment \<open>sv_interfere\<close> may change all shared state before and
  after the awaited action, and \<open>sv_fault\<close> may end either suspension in an exception.  A
  theorem without a hypothesis on the environment holds under every interleaving;
  \<open>env_stable S I\<close> says that the others do not falsify \<open>I\<close>, \<open>respects_tables S\<close> that
  they treat the tables as operations of the broker do, \<open>quiet S\<close> that nobody interferes (the
  setting of functional results).

  \<^bold>\<open>The theories.\<close>
  \<^item> Foundations.  \<open>Cb_Prelude\<close>: computations, Hoare triples, the collections \<open>wp\<close> and
    \<open>prog_simps\<close>.  \<open>Py_Base\<close>, \<open>Py_Json\<close>, \<open>Py_Base64\<close>, \<open>Py_Datetime\<close>: what the code uses of the
    standard library (\<open>int()\<close>, \<open>repr\<close>, UTF-8, \<open>replace\<close>, \<open>uuid\<close>, \<open>json\<close>, \<open>base64\<close>,
    \<open>isoformat\<close>), with round trips; \<open>Py_Json_Fuel\<close>: the reader has fuel enough.  \<open>Cb_Values\<close>: shared values.
  \<^item> Data.  \<open>Cb_Errors\<close> (\<open>errors.py\<close>), \<open>Cb_Config\<close> (\<open>config.py\<close>), \<open>Cb_Models\<close> (\<open>db/models.py\<close>: a
    record per table, selections, and statements that enforce the constraints),
    \<open>Cb_Schema\<close> (the declared tables and \<open>alembic/versions/0001_initial_schema.py\<close> as data).
  \<^item> Components.  \<open>Cb_Circuit\<close>, \<open>Cb_Retry\<close> (\<open>reliability/retry.py\<close>), \<open>Cb_Idempotency\<close>,
    \<open>Cb_Idem_Shared\<close> (\<open>reliability/idempotency.py\<close>, alone and among other callers), \<open>Cb_Grants_Cache\<close>, \<open>Cb_Ratelimit\<close> (\<open>cache/\<close>), \<open>Cb_Logging\<close>,
    \<open>Cb_Log_Setup\<close> (\<open>logging_config.py\<close>), \<open>Cb_Kms\<close> (\<open>crypto/kms.py\<close>), \<open>Cb_Tokens\<close>
    (\<open>grants/tokens.py\<close>), \<open>Cb_Tools\<close> (\<open>tools/\<close>), \<open>Cb_Redis\<close> (the commands the code issues).
  \<^item> Services.  \<open>Cb_Grants_Service\<close> (\<open>grants/service.py\<close>), \<open>Cb_Google\<close>, \<open>Cb_OAuth_State\<close>,
    \<open>Cb_OAuth_Router\<close> (\<open>oauth/\<close>), \<open>Cb_Invoke\<close> (\<open>invoke/service.py\<close>, \<open>invoke/audit.py\<close>), \<open>Cb_Servicer\<close>,
    \<open>Cb_Console\<close>, \<open>Cb_Demo\<close> (\<open>demo/\<close>).
  \<^item> The whole.  \<open>Cb_App\<close>: how \<open>app.py\<close>, \<open>grpcserver/server.py\<close> and \<open>main.py\<close> put the parts
    together; each server has an invoke service, and so circuit breakers, of its own
    (\<open>w_peer\<close>, \<open>switch_service\<close>).  \<open>Cb_Tables\<close> and \<open>Cb_System\<close>: the operations of both surfaces as steps of one
    system (\<open>perform\<close>, \<open>reaches\<close>) and what every reachable state keeps; \<open>Cb_Lifecycle\<close>:
    \<open>serve\<close> from the set-up of logging to the release of the last resource, and the signals.
    \<open>Cb_Grpc\<close> (\<open>proto/credbroker_pb2_grpc.py\<close>): the generated stub, the registration of the
    servicer and what they make of a call; \<open>Cb_Migrate\<close> (\<open>alembic/env.py\<close>, \<open>db/session.py\<close>): how the
    schema gets into the database the broker uses; \<open>Cb_Flow\<close>: from an issued grant to
    the provider's answer, and the fake Drive behind the Drive tool.
\<close>

text \<open>
  \<^bold>\<open>What the lemmas show.\<close>
  \<^item> Revocation is final (\<open>Cb_System\<close>), stops a call that is already under way, from whichever
    point ahead of a re-check it has reached when the revocation lands (\<open>ahead_of_recheck\<close> of
    \<open>Cb_Invoke_Safety\<close>), is what \<open>revoke_grant\<close> leaves behind, and is seen through the cache
    while its marker lives.  A token or row that fails a check lets nothing out, and
    the run is the same under any decryption (\<open>decrypting_by\<close> of \<open>Cb_Invoke_Checks\<close>).
  \<^item> Every invocation that resolves a grant (\<open>resolved_grant\<close>) is audited exactly once, under
    every interleaving, and no other is (\<open>Cb_Invoke_Safety\<close>); its requests are bounded (\<open>Cb_Invoke_Bounds\<close>); its loop ends and its
    outcome is well formed (\<open>Cb_Outcomes\<close>); its errors carry no registered secret, a success
    is replayed, an unexpected exception becomes an audited failure
    (\<open>Cb_Invoke_Results\<close>); a key that is taken lets no second call through (\<open>Cb_Invoke_Once\<close>).
  \<^item> A grant is issued only where policy, scope, account and limits allow it, and the
    concurrency limit is kept under the lock on the agent's row (\<open>Cb_Grants_Service\<close>) and so
    holds in every state the broker reaches (\<open>Cb_System\<close>).
  \<^item> Nothing legitimate is lost: a grant that was issued lets its agent call the tool until it
    expires, and the demo's Drive tool lists what the stand-in holds (\<open>Cb_Flow\<close>); an agent that calls
    through the generated stub reaches the servicer's own handlers (\<open>Cb_Grpc\<close>).
  \<^item> The circuit breaker and the idempotency store refine small abstract machines
    (\<open>spec_step\<close>, \<open>spec_get\<close>, \<open>spec_reserve\<close> and the others); a reservation excludes the callers that
    begin after it at every interleaving of their Redis commands (\<open>Cb_Idem_Shared\<close>), while an
    operation begun before it may still write over it, as \<open>idempotency.py\<close> says; the rate limiter admits exactly its limit per
    window; retries back off as documented.
  \<^item> Round trips: stored credentials, grant tokens, signed states, JSON, base64, dates.
  \<^item> The tables only grow, keep the keys of the schema; the
    migration creates what the classes declare, and a run of Alembic puts it into the database of the
    settings once and for all (\<open>Cb_Migrate\<close>); the process releases what it opened, and
    ends in good order on a signal.
  The interfaces are locales: \<open>redis_server\<close> gives \<open>revocation_cache\<close> by \<open>sublocale\<close>, \<open>breaker_object\<close> is
  what \<open>call_with_retries\<close> needs of a breaker, \<open>data_key_manager\<close> what the cipher needs of a
  key manager, \<open>row_invariant\<close>, \<open>provider_invariant\<close>, \<open>refresh_invariant\<close> and \<open>call_invariant\<close> what
  a predicate must satisfy to survive parts of an invocation, \<open>execution_contract\<close> how a
  bound on \<open>_execute_call\<close> becomes one on \<open>invoke\<close>, \<open>shared_key\<close> what the callers of an idempotency key rely on of
  each other, \<open>message_codecs\<close> and \<open>grpc_transport\<close> what a
  \<open>connected_client\<close> relies on of protobuf and grpc, \<open>alembic_upgrade\<close> what \<open>env.py\<close> relies on of
  Alembic, \<open>operation_invariant\<close> and its special case \<open>table_invariant\<close> how a predicate kept by the database statements is kept by every operation.

  \<^bold>\<open>Loops and bounds.\<close>  The retry loop is bounded by the number of attempts left (\<open>attempts\<close>), a
  structural recursion from \<open>outbound_max_retries + 1\<close>.  The \<open>while True\<close> around the
  provider call is a \<open>partial_function\<close> whose result is shown never to be \<open>None\<close>
  (\<open>provider_loop_ends\<close>); the rest of the development uses its two rounds written out
  (\<open>call_loop\<close>, \<open>last_call\<close>).  The only fuel is that of the JSON reader (\<open>pval\<close>, \<open>pitems\<close>,
  \<open>pmembers\<close>): \<open>loads\<close> starts with two units per character and two more, and with any larger
  number it gives the same answer for every text (\<open>loads_with_more_fuel\<close> of
  \<open>Py_Json_Fuel\<close>).

  \<^bold>\<open>Not modelled.\<close>  \<open>proto/credbroker_pb2.py\<close>: a serialised descriptor for the protobuf runtime; its
  messages are the records of \<open>Cb_Servicer\<close>, their encoding a parameter of \<open>Cb_Grpc\<close>.
  The environment variables behind the settings, sockets, uvicorn, FastAPI's parsing and the static console page
  belong to libraries.  Log calls have no effect in the model; redaction is modelled on the
  record a call would create.  Metrics are counted but not exposed.  Rows with equal timestamps are listed in the order they were
  written, which SQL leaves open.  \<open>uvicorn\<close> raises a captured signal again when it returns, so
  \<open>initiate_shutdown\<close> may run once more than in the model.  Database columns
  have no size limits: \<open>latency_ms\<close> is an \<open>INTEGER\<close> in PostgreSQL and a latency beyond 24 days would
  be refused there.  A message that does not format is passed by the filter as it is; what
  \<open>logging\<close> prints about it then is outside the model.

  \<^bold>\<open>Left to do.\<close>  Fairness of the locks (a grant request always gets its turn), the timing of several
  processes whose clocks differ, and the text exposition of the metrics.
\<close>

end
